(* ===== verification/Prelude.thy ===== *)
theory Prelude
  imports Main "HOL-Library.State_Monad" "HOL-Library.Word" "HOL-Library.Sublist"
begin

section \<open>Prelude: state passing, C++ loops, preservation and Hoare triples\<close>

text \<open>
  The C++ code is imperative: global variables, system calls and early returns. Every operation
  is a value of the library's state monad. This theory holds what all components share:
  the type names of the machine integers, a loop combinator for the range-based \<open>for\<close> with
  carried variables and early \<open>return\<close>, the preservation predicate \<open>pres\<close> (an operation
  only moves the state along a preorder), its locale \<open>step_order\<close>, and Hoare triples.
  The collection \<open>run_simps\<close> holds the facts that run a program symbolically.
\<close>

type_synonym u8 = "8 word"
type_synonym u32 = "32 word"
type_synonym u64 = "64 word"

text \<open>A C++ \<open>int\<close> is kept as its 32 bits and read with \<open>sint\<close>.\<close>

type_synonym i32 = "32 word"

named_theorems run_simps \<open>facts that run a program of the state monad\<close>
named_theorems frame_intros \<open>what each operation leaves unchanged\<close>

abbreviation ret :: "'a \<Rightarrow> ('s, 'a) state" where
  "ret \<equiv> State_Monad.return"

abbreviation getS :: "('s, 's) state" where
  "getS \<equiv> State_Monad.get"

abbreviation modS :: "('s \<Rightarrow> 's) \<Rightarrow> ('s, unit) state" where
  "modS \<equiv> State_Monad.update"

definition whenS :: "bool \<Rightarrow> ('s, unit) state \<Rightarrow> ('s, unit) state" where
  "whenS b m = (if b then m else ret ())"

text \<open>
  \<open>loop body xs c\<close> is \<open>for (x : xs) body\<close> with the loop-carried variables \<open>c\<close>:
  the body answers \<open>Inl c'\<close> to go on (also for \<open>continue\<close>) and \<open>Inr r\<close> to leave
  the enclosing function with \<open>r\<close> (or to \<open>break\<close>).
\<close>

primrec loop :: "('a \<Rightarrow> 'c \<Rightarrow> ('s, 'c + 'r) state) \<Rightarrow> 'a list \<Rightarrow> 'c \<Rightarrow> ('s, 'c + 'r) state" where
  "loop body [] c = ret (Inl c)"
| "loop body (x # xs) c = do {
     r \<leftarrow> body x c;
     (case r of Inl c' \<Rightarrow> loop body xs c' | Inr v \<Rightarrow> ret (Inr v))
   }"

lemma run_modS [simp, run_simps]: "run_state (modS f) s = ((), f s)"
  by (simp add: State_Monad.update_def)

lemma run_whenS: "run_state (whenS b m) s = (if b then run_state m s else ((), s))"
  by (simp add: whenS_def)

lemmas run_basic [run_simps] =
  run_state_bind run_state_return run_state_get run_state_set run_whenS

lemma loop_append:
  "loop body (xs @ ys) c = do {
     r \<leftarrow> loop body xs c;
     (case r of Inl c' \<Rightarrow> loop body ys c' | Inr v \<Rightarrow> ret (Inr v))
   }"
proof (induction xs arbitrary: c)
  case Nil
  then show ?case by simp
next
  case (Cons x xs)
  show ?case
    by (rule state_ext) (auto simp: Cons.IH split: prod.splits sum.splits)
qed

subsection \<open>Preservation along a preorder\<close>

definition pres :: "('s \<Rightarrow> 's \<Rightarrow> bool) \<Rightarrow> ('s, 'a) state \<Rightarrow> bool" where
  "pres R m \<longleftrightarrow> (\<forall>s. R s (snd (run_state m s)))"

lemma presI: "(\<And>s r s'. run_state m s = (r, s') \<Longrightarrow> R s s') \<Longrightarrow> pres R m"
  unfolding pres_def by (metis prod.collapse)

lemma presD: "pres R m \<Longrightarrow> R s (snd (run_state m s))"
  by (simp add: pres_def)

lemma pres_run: "pres R m \<Longrightarrow> run_state m s = (r, s') \<Longrightarrow> R s s'"
  by (metis presD snd_conv)

lemma pres_mono: "pres R m \<Longrightarrow> (\<And>s t. R s t \<Longrightarrow> S s t) \<Longrightarrow> pres S m"
  by (simp add: pres_def)

text \<open>
  The interface of every frame argument: any reflexive and transitive relation on states is
  preserved by a composite operation as soon as its parts preserve it.
\<close>

locale step_order =
  fixes R :: "'s \<Rightarrow> 's \<Rightarrow> bool"
  assumes R_refl: "R s s"
    and R_trans: "R s t \<Longrightarrow> R t u \<Longrightarrow> R s u"
begin

lemma p_return: "pres R (ret x)"
  by (simp add: pres_def R_refl)

lemma p_get: "pres R getS"
  by (simp add: pres_def R_refl)

lemma p_mod: "(\<And>s. R s (f s)) \<Longrightarrow> pres R (modS f)"
  by (simp add: pres_def)

lemma p_bind: "pres R m \<Longrightarrow> (\<And>x. pres R (f x)) \<Longrightarrow> pres R (State_Monad.bind m f)"
  unfolding pres_def by (auto split: prod.splits intro: R_trans)

lemma p_if: "(b \<Longrightarrow> pres R m) \<Longrightarrow> (\<not> b \<Longrightarrow> pres R n) \<Longrightarrow> pres R (if b then m else n)"
  by simp

lemma p_when: "(b \<Longrightarrow> pres R m) \<Longrightarrow> pres R (whenS b m)"
  by (simp add: whenS_def p_return)

lemma p_option:
  "pres R m \<Longrightarrow> (\<And>x. y = Some x \<Longrightarrow> pres R (f x)) \<Longrightarrow> pres R (case y of None \<Rightarrow> m | Some x \<Rightarrow> f x)"
  by (cases y) simp_all

lemma p_sum:
  "(\<And>x. pres R (f x)) \<Longrightarrow> (\<And>x. pres R (g x)) \<Longrightarrow> pres R (case y of Inl x \<Rightarrow> f x | Inr x \<Rightarrow> g x)"
  by (cases y) simp_all

lemma p_prod: "(\<And>a b. pres R (f a b)) \<Longrightarrow> pres R (case y of (a, b) \<Rightarrow> f a b)"
  by (cases y) simp_all

lemma p_list:
  "pres R m \<Longrightarrow> (\<And>x xs. pres R (f x xs)) \<Longrightarrow> pres R (case y of [] \<Rightarrow> m | x # xs \<Rightarrow> f x xs)"
  by (cases y) simp_all

lemma p_let: "(\<And>x. pres R (f x)) \<Longrightarrow> pres R (let x = e in f x)"
  by simp

lemma p_loop: "(\<And>x c. x \<in> set xs \<Longrightarrow> pres R (body x c)) \<Longrightarrow> pres R (loop body xs c)"
proof (induction xs arbitrary: c)
  case Nil
  show ?case by (simp add: p_return)
next
  case (Cons x xs)
  show ?case
    unfolding loop.simps
  proof (rule p_bind)
    show "pres R (body x c)" using Cons.prems by simp
    fix r
    show "pres R (case r of Inl c' \<Rightarrow> loop body xs c' | Inr v \<Rightarrow> ret (Inr v))"
      using Cons by (cases r) (simp_all add: p_return)
  qed
qed

lemmas p_rules = p_return p_get p_bind p_if p_when p_option p_sum p_prod p_list p_let p_loop

end

text \<open>The most used preorder: a projection of the state does not change.\<close>

abbreviation keeps :: "('s \<Rightarrow> 'b) \<Rightarrow> ('s, 'a) state \<Rightarrow> bool" where
  "keeps f \<equiv> pres (\<lambda>s s'. f s' = f s)"

interpretation keep: step_order "\<lambda>s s'. f s' = f s" for f :: "'s \<Rightarrow> 'b"
  by unfold_locales auto

lemma keeps_comp: "keeps f m \<Longrightarrow> (\<And>s. g s = h (f s)) \<Longrightarrow> keeps g m"
  by (simp add: pres_def)

text \<open>An output list only grows, and what is added satisfies a predicate.\<close>

definition grows :: "('s \<Rightarrow> 'e list) \<Rightarrow> ('e \<Rightarrow> bool) \<Rightarrow> 's \<Rightarrow> 's \<Rightarrow> bool" where
  "grows out P s s' \<longleftrightarrow> (\<exists>es. out s' = out s @ es \<and> list_all P es)"

interpretation grow: step_order "grows out P" for out :: "'s \<Rightarrow> 'e list" and P
proof
  show "grows out P s s" for s
    unfolding grows_def by (rule exI [of _ "[]"]) simp
  show "grows out P s u" if "grows out P s t" "grows out P t u" for s t u
    using that unfolding grows_def by (metis append.assoc list_all_append)
qed

lemma grows_mono: "grows out P s t \<Longrightarrow> (\<And>e. P e \<Longrightarrow> Q e) \<Longrightarrow> grows out Q s t"
  unfolding grows_def by (metis list_all_iff)

subsection \<open>Hoare triples\<close>

definition hoare :: "('s \<Rightarrow> bool) \<Rightarrow> ('s, 'a) state \<Rightarrow> ('a \<Rightarrow> 's \<Rightarrow> bool) \<Rightarrow> bool" where
  "hoare P m Q \<longleftrightarrow> (\<forall>s. P s \<longrightarrow> Q (fst (run_state m s)) (snd (run_state m s)))"

lemma hoareI: "(\<And>s r s'. P s \<Longrightarrow> run_state m s = (r, s') \<Longrightarrow> Q r s') \<Longrightarrow> hoare P m Q"
  unfolding hoare_def by (metis prod.collapse)

lemma hoareD: "hoare P m Q \<Longrightarrow> P s \<Longrightarrow> run_state m s = (r, s') \<Longrightarrow> Q r s'"
  unfolding hoare_def by (metis fst_conv snd_conv)

lemma hoare_return: "(\<And>s. P s \<Longrightarrow> Q x s) \<Longrightarrow> hoare P (ret x) Q"
  by (simp add: hoare_def)

lemma hoare_mod: "(\<And>s. P s \<Longrightarrow> Q () (f s)) \<Longrightarrow> hoare P (modS f) Q"
  by (simp add: hoare_def)

lemma hoare_get: "(\<And>s. P s \<Longrightarrow> Q s s) \<Longrightarrow> hoare P getS Q"
  by (simp add: hoare_def)

lemma hoare_bind:
  "hoare P m R \<Longrightarrow> (\<And>x. hoare (R x) (f x) Q) \<Longrightarrow> hoare P (State_Monad.bind m f) Q"
  by (auto simp: hoare_def split: prod.splits)

lemma hoare_if:
  "(b \<Longrightarrow> hoare P m Q) \<Longrightarrow> (\<not> b \<Longrightarrow> hoare P n Q) \<Longrightarrow> hoare P (if b then m else n) Q"
  by simp

lemma hoare_conseq:
  "hoare P' m Q' \<Longrightarrow> (\<And>s. P s \<Longrightarrow> P' s) \<Longrightarrow> (\<And>r s. Q' r s \<Longrightarrow> Q r s) \<Longrightarrow> hoare P m Q"
  by (simp add: hoare_def)

lemma hoare_conj: "hoare P m Q \<Longrightarrow> hoare P m R \<Longrightarrow> hoare P m (\<lambda>r s. Q r s \<and> R r s)"
  by (simp add: hoare_def)

lemma hoare_pure: "(b \<Longrightarrow> hoare P m Q) \<Longrightarrow> hoare (\<lambda>s. P s \<and> b) m Q"
  by (simp add: hoare_def)

lemma hoare_pres:
  "pres R m \<Longrightarrow> (\<And>s r s'. P s \<Longrightarrow> R s s' \<Longrightarrow> Q r s') \<Longrightarrow> hoare P m Q"
  by (simp add: hoare_def pres_def)

text \<open>
  The loop rule: an invariant over the carried variables, kept by every turn that goes on;
  a turn that leaves establishes the exit condition.
\<close>

lemma hoare_loop:
  assumes "\<And>x c. x \<in> set xs \<Longrightarrow>
    hoare (I c) (body x c) (\<lambda>r s. case r of Inl c' \<Rightarrow> I c' s | Inr v \<Rightarrow> Q v s)"
  shows "hoare (I c) (loop body xs c) (\<lambda>r s. case r of Inl c' \<Rightarrow> I c' s | Inr v \<Rightarrow> Q v s)"
  using assms
proof (induction xs arbitrary: c)
  case Nil
  then show ?case by (simp add: hoare_return)
next
  case (Cons x xs)
  show ?case
    unfolding loop.simps
  proof (rule hoare_bind)
    show "hoare (I c) (body x c) (\<lambda>r s. case r of Inl c' \<Rightarrow> I c' s | Inr v \<Rightarrow> Q v s)"
      using Cons.prems by simp
    fix r
    show "hoare (\<lambda>s. case r of Inl c' \<Rightarrow> I c' s | Inr v \<Rightarrow> Q v s)
       (case r of Inl c' \<Rightarrow> loop body xs c' | Inr v \<Rightarrow> ret (Inr v))
       (\<lambda>r s. case r of Inl c' \<Rightarrow> I c' s | Inr v \<Rightarrow> Q v s)"
      using Cons by (cases r) (auto intro: hoare_return)
  qed
qed

lemmas hoare_rules = hoare_return hoare_mod hoare_get hoare_if

end
