(* ===== verification/Cxx.thy ===== *)
theory Cxx
  imports Prelude "HOL-Library.Char_ord"
begin

section \<open>The parts of the C and C++ standard library the code uses\<close>

text \<open>
  \<open>std::string\<close> searching and trimming, \<open>std::getline\<close>, stream extraction of words and
  integers, \<open>atoi\<close>, \<open>fgets\<close>, the \<open>sscanf\<close> integer conversion, \<open>printf\<close> integer
  formatting, and the little-endian layout of fixed-width integers. Strings are byte lists without NUL.
\<close>

subsection \<open>Searching in a string\<close>

text \<open>\<open>s.find(p)\<close>: the first index where \<open>p\<close> occurs, \<open>None\<close> for \<open>npos\<close>.\<close>

fun str_find :: "string \<Rightarrow> string \<Rightarrow> nat option" where
  "str_find [] p = (if p = [] then Some 0 else None)"
| "str_find (c # s) p = (if prefix p (c # s) then Some 0 else map_option Suc (str_find s p))"

definition contains :: "string \<Rightarrow> string \<Rightarrow> bool" where
  "contains s p \<longleftrightarrow> str_find s p \<noteq> None"

lemma contains_sublist: "contains s p \<longleftrightarrow> sublist p s"
  unfolding contains_def
  by (induction s) (auto simp: sublist_Cons_right)

lemma str_find_zero: "str_find s p = Some 0 \<longleftrightarrow> prefix p s"
  by (cases s) auto

lemma str_find_Some:
  "str_find s p = Some i \<Longrightarrow> i \<le> length s \<and> prefix p (drop i s)"
  by (induction s arbitrary: i) (auto split: if_splits)

fun find_first_not_of :: "string \<Rightarrow> string \<Rightarrow> nat option" where
  "find_first_not_of [] cs = None"
| "find_first_not_of (c # s) cs =
     (if c \<in> set cs then map_option Suc (find_first_not_of s cs) else Some 0)"

fun find_last_not_of :: "string \<Rightarrow> string \<Rightarrow> nat option" where
  "find_last_not_of [] cs = None"
| "find_last_not_of (c # s) cs =
     (case find_last_not_of s cs of
        Some i \<Rightarrow> Some (Suc i)
      | None \<Rightarrow> (if c \<in> set cs then None else Some 0))"

text \<open>\<open>s.find_last_of(c)\<close> for one character.\<close>

fun find_last_of :: "string \<Rightarrow> char \<Rightarrow> nat option" where
  "find_last_of [] c = None"
| "find_last_of (d # s) c =
     (case find_last_of s c of
        Some i \<Rightarrow> Some (Suc i)
      | None \<Rightarrow> (if d = c then Some 0 else None))"

definition substr :: "string \<Rightarrow> nat \<Rightarrow> nat \<Rightarrow> string" where
  "substr s pos n = take n (drop pos s)"

lemma find_first_not_of_None: "find_first_not_of s cs = None \<longleftrightarrow> set s \<subseteq> set cs"
  by (induction s) auto

lemma find_first_not_of_dropWhile:
  "find_first_not_of s cs = Some i \<Longrightarrow> drop i s = dropWhile (\<lambda>c. c \<in> set cs) s \<and> i < length s"
  by (induction s arbitrary: i) (auto split: if_splits)

lemma find_last_not_of_None: "find_last_not_of s cs = None \<longleftrightarrow> set s \<subseteq> set cs"
  by (induction s) (auto split: option.splits)

lemma find_last_not_of_Some:
  "find_last_not_of s cs = Some i \<Longrightarrow>
     i < length s \<and> s ! i \<notin> set cs \<and> set (drop (Suc i) s) \<subseteq> set cs"
  by (induction s arbitrary: i) (auto simp: find_last_not_of_None split: option.splits if_splits)

lemma find_last_of_Some:
  "find_last_of s c = Some i \<Longrightarrow> i < length s \<and> s ! i = c \<and> c \<notin> set (drop (Suc i) s)"
proof (induction s arbitrary: i)
  case (Cons d s)
  have none: "find_last_of t c = None \<longleftrightarrow> c \<notin> set t" for t
    by (induction t) (auto split: option.splits)
  show ?case using Cons by (auto simp: none split: option.splits if_splits)
qed simp

lemma find_last_of_append_slash:
  "c \<notin> set t \<Longrightarrow> find_last_of (s @ c # t) c = Some (length s)"
proof (induction s)
  case Nil
  have "c \<notin> set u \<Longrightarrow> find_last_of u c = None" for u
    by (induction u) auto
  with Nil show ?case by simp
qed simp

subsection \<open>Character classes\<close>

text \<open>\<open>isspace\<close> in the C locale: space, \<open>\\t \\n \\v \\f \\r\<close>.\<close>

definition is_space :: "char \<Rightarrow> bool" where
  "is_space c \<longleftrightarrow> c \<in> {CHR '' '', CHR 0x09, CHR 0x0A, CHR 0x0B, CHR 0x0C, CHR 0x0D}"

definition is_digit :: "char \<Rightarrow> bool" where
  "is_digit c \<longleftrightarrow> 48 \<le> (of_char c :: nat) \<and> (of_char c :: nat) \<le> 57"

definition digit_val :: "char \<Rightarrow> nat" where
  "digit_val c = of_char c - 48"

definition dec_val :: "string \<Rightarrow> nat" where
  "dec_val ds = foldl (\<lambda>v c. 10 * v + digit_val c) 0 ds"

subsection \<open>Formatting integers, \<open>%d\<close> and \<open>%u\<close>\<close>

definition digit_char :: "nat \<Rightarrow> char" where
  "digit_char d = char_of (48 + d)"

fun fmt_u :: "nat \<Rightarrow> string" where
  "fmt_u n = (if n < 10 then [digit_char n] else fmt_u (n div 10) @ [digit_char (n mod 10)])"

declare fmt_u.simps [simp del]

definition fmt_d :: "int \<Rightarrow> string" where
  "fmt_d i = (if i < 0 then CHR ''-'' # fmt_u (nat (- i)) else fmt_u (nat i))"

lemma of_char_digit_char: "d < 10 \<Longrightarrow> (of_char (digit_char d) :: nat) = 48 + d"
  unfolding digit_char_def of_char_of by simp

lemma is_digit_digit_char [simp]: "d < 10 \<Longrightarrow> is_digit (digit_char d)"
  by (simp add: is_digit_def of_char_digit_char)

lemma digit_val_digit_char [simp]: "d < 10 \<Longrightarrow> digit_val (digit_char d) = d"
  by (simp add: digit_val_def of_char_digit_char)

lemma fmt_u_digits: "list_all is_digit (fmt_u n)"
proof (induction n rule: fmt_u.induct)
  case (1 n)
  then show ?case by (subst fmt_u.simps) auto
qed

lemma fmt_u_nonempty: "fmt_u n \<noteq> []"
  by (subst fmt_u.simps) simp

lemma dec_val_snoc: "dec_val (ds @ [c]) = 10 * dec_val ds + digit_val c"
  by (simp add: dec_val_def)

lemma dec_val_fmt_u [simp]: "dec_val (fmt_u n) = n"
proof (induction n rule: fmt_u.induct)
  case (1 n)
  show ?case
  proof (cases "n < 10")
    case True
    then show ?thesis by (subst fmt_u.simps) (simp add: dec_val_def)
  next
    case False
    with 1 show ?thesis by (subst fmt_u.simps) (simp add: dec_val_snoc)
  qed
qed

subsection \<open>Reading integers\<close>

definition read_sign :: "string \<Rightarrow> bool \<times> string" where
  "read_sign s = (case s of
       [] \<Rightarrow> (False, s)
     | c # t \<Rightarrow> (if c = CHR ''-'' then (True, t) else if c = CHR ''+'' then (False, t) else (False, s)))"

text \<open>The number at the front of a string: \<open>None\<close> without a digit, else value and rest.\<close>

definition read_number :: "string \<Rightarrow> (int \<times> string) option" where
  "read_number s =
     (let (neg, t) = read_sign (dropWhile is_space s);
          ds = takeWhile is_digit t
      in if ds = [] then None
         else Some (if neg then - int (dec_val ds) else int (dec_val ds), dropWhile is_digit t))"

text \<open>
  \<open>atoi\<close> of the Android C library is \<open>(int) strtol(s, 0, 10)\<close>: 0 without a number, saturation at
  64 bits, then the low 32 bits.
\<close>

definition atoi :: "string \<Rightarrow> i32" where
  "atoi s = (case read_number s of
       None \<Rightarrow> 0
     | Some (v, _) \<Rightarrow> word_of_int (max (- (2 ^ 63)) (min (2 ^ 63 - 1) v)))"

text \<open>\<open>stream >> int\<close> fails (\<open>None\<close>) without a number or outside the range of \<open>int\<close>.\<close>

definition read_int :: "string \<Rightarrow> (i32 \<times> string) option" where
  "read_int s = (case read_number s of
       None \<Rightarrow> None
     | Some (v, rest) \<Rightarrow>
         (if - (2 ^ 31) \<le> v \<and> v < 2 ^ 31 then Some (word_of_int v, rest) else None))"

text \<open>\<open>stream >> uint64_t\<close>: a minus sign negates modulo \<open>2 ^ 64\<close>, a number out of range fails.\<close>

definition read_u64 :: "string \<Rightarrow> (u64 \<times> string) option" where
  "read_u64 s = (case read_number s of
       None \<Rightarrow> None
     | Some (v, rest) \<Rightarrow> (if \<bar>v\<bar> < 2 ^ 64 then Some (word_of_int v, rest) else None))"

text \<open>\<open>%llu\<close> of \<open>sscanf\<close> saturates instead of failing.\<close>

definition scan_llu :: "string \<Rightarrow> u64 option" where
  "scan_llu s = (case read_number s of
       None \<Rightarrow> None
     | Some (v, _) \<Rightarrow> Some (if \<bar>v\<bar> < 2 ^ 64 then word_of_int v else - 1))"

definition read_token :: "string \<Rightarrow> (string \<times> string) option" where
  "read_token s =
     (let t = dropWhile is_space s
      in if t = [] then None
         else Some (takeWhile (\<lambda>c. \<not> is_space c) t, dropWhile (\<lambda>c. \<not> is_space c) t))"

lemma digit_not_space: "is_digit c \<Longrightarrow> \<not> is_space c"
  by (auto simp: is_digit_def is_space_def)

lemma digit_not_sign: "is_digit c \<Longrightarrow> c \<noteq> CHR ''-'' \<and> c \<noteq> CHR ''+''"
  by (auto simp: is_digit_def)

lemma read_number_digits:
  assumes "list_all is_digit ds" "ds \<noteq> []" "rest = [] \<or> \<not> is_digit (hd rest)"
  shows "read_number (ds @ rest) = Some (int (dec_val ds), rest)"
    and "read_number (CHR ''-'' # ds @ rest) = Some (- int (dec_val ds), rest)"
proof -
  obtain d ds' where ds: "ds = d # ds'" using assms(2) by (cases ds) auto
  have d: "is_digit d" "\<not> is_space d" "d \<noteq> CHR ''-''" "d \<noteq> CHR ''+''"
    using assms(1) ds digit_not_space digit_not_sign by auto
  have tw: "takeWhile is_digit (ds @ rest) = ds" "dropWhile is_digit (ds @ rest) = rest"
    using assms(1,3)
    by (cases rest; auto simp: list_all_iff takeWhile_append dropWhile_append)+
  have sp: "\<not> is_space (CHR ''-'')" by (simp add: is_space_def)
  have drop_ds: "dropWhile is_space (ds @ rest) = ds @ rest" using ds d by simp
  have sign: "read_sign (ds @ rest) = (False, ds @ rest)" using ds d by (simp add: read_sign_def)
  show "read_number (ds @ rest) = Some (int (dec_val ds), rest)"
    unfolding read_number_def drop_ds sign using tw assms(2) by simp
  show "read_number (CHR ''-'' # ds @ rest) = Some (- int (dec_val ds), rest)"
    unfolding read_number_def using sp tw assms(2) by (simp add: read_sign_def)
qed

lemma read_number_fmt_d: "read_number (fmt_d i) = Some (i, [])"
  using read_number_digits [OF fmt_u_digits fmt_u_nonempty, of "[]"]
  by (simp add: fmt_d_def)

lemma atoi_fmt_d [simp]: "atoi (fmt_d (sint w)) = w"
proof -
  have "- (2 ^ 31) \<le> sint w" "sint w < 2 ^ 31"
    using sint_ge [of w] sint_lt [of w] by simp_all
  then show ?thesis by (simp add: atoi_def read_number_fmt_d)
qed

subsection \<open>Lines and chunks\<close>

text \<open>\<open>while (std::getline(file, line))\<close>: the lines of a file, a last one without newline included.\<close>

fun getlines_acc :: "string \<Rightarrow> string \<Rightarrow> string list" where
  "getlines_acc acc [] = (if acc = [] then [] else [rev acc])"
| "getlines_acc acc (c # s) =
     (if c = CHR 0x0A then rev acc # getlines_acc [] s else getlines_acc (c # acc) s)"

definition getlines :: "string \<Rightarrow> string list" where
  "getlines s = getlines_acc [] s"

lemma getlines_acc_line:
  "CHR 0x0A \<notin> set l \<Longrightarrow> getlines_acc acc (l @ CHR 0x0A # s) = (rev acc @ l) # getlines_acc [] s"
  by (induction l arbitrary: acc) auto

lemma getlines_line: "CHR 0x0A \<notin> set l \<Longrightarrow> getlines (l @ CHR 0x0A # s) = l # getlines s"
  by (simp add: getlines_def getlines_acc_line)

text \<open>\<open>fgets(buf, n, f)\<close>: at most \<open>n - 1\<close> characters, up to and including a newline.\<close>

fun fgets_take :: "nat \<Rightarrow> string \<Rightarrow> string \<times> string" where
  "fgets_take 0 s = ([], s)"
| "fgets_take (Suc n) [] = ([], [])"
| "fgets_take (Suc n) (c # s) =
     (if c = CHR 0x0A then ([c], s) else (case fgets_take n s of (a, b) \<Rightarrow> (c # a, b)))"

definition fgets :: "nat \<Rightarrow> string \<Rightarrow> (string \<times> string) option" where
  "fgets n s = (if s = [] then None else Some (fgets_take (n - 1) s))"

lemma fgets_take_append: "fgets_take n s = (a, b) \<Longrightarrow> a @ b = s"
  by (induction n s arbitrary: a b rule: fgets_take.induct) (auto split: if_splits prod.splits)

lemma fgets_take_progress: "s \<noteq> [] \<Longrightarrow> 0 < n \<Longrightarrow> length (snd (fgets_take n s)) < length s"
proof -
  assume "s \<noteq> []" "0 < n"
  then have "fst (fgets_take n s) \<noteq> []"
    by (cases n; cases s) (auto split: prod.splits)
  then show ?thesis
    using fgets_take_append [of n s "fst (fgets_take n s)" "snd (fgets_take n s)"]
    by (metis length_append length_greater_0_conv less_add_same_cancel2 prod.collapse)
qed

subsection \<open>Little-endian integers in memory\<close>

fun le_val :: "u8 list \<Rightarrow> nat" where
  "le_val [] = 0"
| "le_val (b # bs) = unat b + 256 * le_val bs"

fun le_bytes :: "nat \<Rightarrow> nat \<Rightarrow> u8 list" where
  "le_bytes 0 v = []"
| "le_bytes (Suc n) v = of_nat (v mod 256) # le_bytes n (v div 256)"

lemma length_le_bytes [simp]: "length (le_bytes n v) = n"
  by (induction n v rule: le_bytes.induct) simp_all

lemma le_val_le_bytes: "v < 256 ^ n \<Longrightarrow> le_val (le_bytes n v) = v"
proof (induction n v rule: le_bytes.induct)
  case (2 n v)
  have "v div 256 < 256 ^ n" using 2(2) by (simp add: less_mult_imp_div_less mult.commute)
  moreover have "unat (of_nat (v mod 256) :: u8) = v mod 256"
    by (simp add: unat_of_nat)
  ultimately show ?case using 2 by simp
qed simp

lemma le_val_u32: "le_val (le_bytes 4 (unat (w :: u32))) = unat w"
  using unsigned_less [of w] by (intro le_val_le_bytes) simp

lemma le_val_u64: "le_val (le_bytes 8 (unat (w :: u64))) = unat w"
  using unsigned_less [of w] by (intro le_val_le_bytes) simp

text \<open>A megabyte setting, an \<open>int\<close> widened to 64 bits, in bytes.\<close>

lemma uint_mb:
  "uint (scast (m :: i32) * 1024 * 1024 :: u64) =
     (if 0 \<le> sint m then sint m * 1048576 else 2 ^ 64 + sint m * 1048576)"
proof -
  have r: "- (2 ^ 31) \<le> sint m" "sint m < 2 ^ 31"
    using sint_ge [of m] sint_lt [of m] by simp_all
  have "(scast m * 1024 * 1024 :: u64) = word_of_int (sint m) * word_of_int 1024 * word_of_int 1024"
    by (simp only: scast_eq of_int_numeral)
  also have "\<dots> = word_of_int (sint m * 1048576)"
    by (simp only: of_int_mult [symmetric] mult.assoc) simp
  finally have "uint (scast m * 1024 * 1024 :: u64) = (sint m * 1048576) mod 2 ^ 64"
    by (simp only: uint_word_of_int) simp
  also have "\<dots> = (if 0 \<le> sint m then sint m * 1048576 else 2 ^ 64 + sint m * 1048576)"
  proof (cases "0 \<le> sint m")
    case True
    then show ?thesis using r by simp
  next
    case False
    have "(sint m * 1048576) mod 2 ^ 64 = (sint m * 1048576 + 2 ^ 64) mod 2 ^ 64"
      by simp
    also have "\<dots> = sint m * 1048576 + 2 ^ 64"
      using r False by (intro mod_pos_pos_trivial) simp_all
    finally show ?thesis using False by simp
  qed
  finally show ?thesis .
qed

end
