(* ===== verification/Filetree.thy ===== *)
theory Filetree
  imports Cxx
begin

section \<open>The file system the daemon works on\<close>

text \<open>
  A tree of directories, plain files (with \<open>st_size\<close>) and symbolic links, the kernel's path
  walk (links in the middle are followed, the last one on demand, at most 40 of them), and the
  removal of one entry. \<open>kind_at\<close> is the flat view of a tree: what \<open>lstat\<close> would say at
  a canonical location. \<open>tree_below\<close> orders trees by deletion; the walk is monotone in it.
\<close>

datatype node = File u64 | Link string | Dir "(string \<times> node) list"

datatype kind = KFile u64 | KLink string | KDir

fun kind_of :: "node \<Rightarrow> kind" where
  "kind_of (File n) = KFile n"
| "kind_of (Link t) = KLink t"
| "kind_of (Dir ch) = KDir"

fun lookup :: "node \<Rightarrow> string list \<Rightarrow> node option" where
  "lookup t [] = Some t"
| "lookup (Dir ch) (c # cs) = (case map_of ch c of None \<Rightarrow> None | Some x \<Rightarrow> lookup x cs)"
| "lookup t (c # cs) = None"

definition kind_at :: "node \<Rightarrow> string list \<Rightarrow> kind option" where
  "kind_at t l = map_option kind_of (lookup t l)"

fun remove_at :: "string list \<Rightarrow> node \<Rightarrow> node" where
  "remove_at [c] (Dir ch) = Dir (filter (\<lambda>x. fst x \<noteq> c) ch)"
| "remove_at (c # d # ds) (Dir ch) =
     Dir (map (\<lambda>x. if fst x = c then (fst x, remove_at (d # ds) (snd x)) else x) ch)"
| "remove_at l t = t"

definition child_names :: "node \<Rightarrow> string list \<Rightarrow> string list option" where
  "child_names t l = (case lookup t l of Some (Dir ch) \<Rightarrow> Some (map fst ch) | _ \<Rightarrow> None)"

fun height :: "node \<Rightarrow> nat" where
  "height (Dir ch) = Suc (foldr max (map (\<lambda>x. height (snd x)) ch) 0)"
| "height t = 0"

subsection \<open>Lookup laws\<close>

lemma lookup_append:
  "lookup t (l @ m) = (case lookup t l of None \<Rightarrow> None | Some x \<Rightarrow> lookup x m)"
  by (induction t l rule: lookup.induct) (auto split: option.splits)

lemma lookup_leaf:
  "lookup (File v) m = (if m = [] then Some (File v) else None)"
  "lookup (Link w) m = (if m = [] then Some (Link w) else None)"
  by (cases m; simp)+

lemma kind_at_Nil [simp]: "kind_at t [] = Some (kind_of t)"
  by (simp add: kind_at_def)

lemma kind_at_KDir: "kind_at t l = Some KDir \<longleftrightarrow> (\<exists>ch. lookup t l = Some (Dir ch))"
proof -
  have "kind_of n = KDir \<longleftrightarrow> (\<exists>ch. n = Dir ch)" for n
    by (cases n) auto
  then show ?thesis by (auto simp: kind_at_def)
qed

lemma kind_at_child:
  assumes "kind_at t (l @ [c]) \<noteq> None" shows "kind_at t l = Some KDir"
proof -
  from assms obtain x where x: "lookup t l = Some x" "lookup x [c] \<noteq> None"
    by (auto simp: kind_at_def lookup_append split: option.splits)
  then show ?thesis by (cases x) (auto simp: kind_at_KDir)
qed

lemma kind_at_prefix: "kind_at t l \<noteq> None \<Longrightarrow> prefix m l \<Longrightarrow> kind_at t m \<noteq> None"
  by (auto simp: kind_at_def prefix_def lookup_append split: option.splits)

lemma kind_at_strict_prefix: "kind_at t l \<noteq> None \<Longrightarrow> strict_prefix m l \<Longrightarrow> kind_at t m = Some KDir"
proof -
  assume l: "kind_at t l \<noteq> None" and "strict_prefix m l"
  then obtain c r where "l = m @ c # r" by (auto elim!: strict_prefixE')
  then have "prefix (m @ [c]) l" by simp
  with l have "kind_at t (m @ [c]) \<noteq> None" by (rule kind_at_prefix)
  then show ?thesis by (rule kind_at_child)
qed

lemma child_names_iff: "child_names t l \<noteq> None \<longleftrightarrow> kind_at t l = Some KDir"
  by (auto simp: child_names_def kind_at_KDir split: option.splits node.splits)

lemma child_names_mem:
  "child_names t l = Some ns \<Longrightarrow> c \<in> set ns \<longleftrightarrow> kind_at t (l @ [c]) \<noteq> None"
proof -
  assume "child_names t l = Some ns"
  then obtain ch where ch: "lookup t l = Some (Dir ch)" "ns = map fst ch"
    by (auto simp: child_names_def split: option.splits node.splits)
  then have "kind_at t (l @ [c]) \<noteq> None \<longleftrightarrow> map_of ch c \<noteq> None"
    by (auto simp: kind_at_def lookup_append split: option.splits)
  also have "\<dots> \<longleftrightarrow> c \<in> set ns"
    by (simp add: ch(2) map_of_eq_None_iff)
  finally show "c \<in> set ns \<longleftrightarrow> kind_at t (l @ [c]) \<noteq> None" by blast
qed

lemma foldr_max_ge: "x \<in> set xs \<Longrightarrow> (x :: nat) \<le> foldr max xs 0"
  by (induction xs) auto

lemma kind_at_height: "kind_at t l \<noteq> None \<Longrightarrow> length l \<le> height t"
proof (induction t l rule: lookup.induct)
  case (2 ch c cs)
  then obtain x where x: "map_of ch c = Some x"
    by (auto simp: kind_at_def split: option.splits)
  with 2 have "length cs \<le> height x"
    by (auto simp: kind_at_def)
  moreover have "height x \<le> foldr max (map (\<lambda>x. height (snd x)) ch) 0"
    using map_of_SomeD [OF x] by (intro foldr_max_ge) force
  ultimately show ?case by simp
qed (auto simp: kind_at_def)

subsection \<open>Removal\<close>

lemma map_of_filter_neq:
  "map_of (filter (\<lambda>x. fst x \<noteq> c) ch) k = (if k = c then None else map_of ch k)"
  by (induction ch) auto

lemma map_of_map_upd:
  "map_of (map (\<lambda>x. if fst x = c then (fst x, f (snd x)) else x) ch) k =
     (if k = c then map_option f (map_of ch k) else map_of ch k)"
  by (induction ch) auto

lemma kind_of_remove_at [simp]: "kind_of (remove_at l t) = kind_of t"
  by (induction l t rule: remove_at.induct) auto

text \<open>Removing a location removes exactly it and what lies below it.\<close>

lemma kind_at_remove_at:
  "l \<noteq> [] \<Longrightarrow> kind_at (remove_at l t) m = (if prefix l m then None else kind_at t m)"
proof (induction l t arbitrary: m rule: remove_at.induct)
  case (1 c ch)
  show ?case by (cases m) (auto simp: kind_at_def map_of_filter_neq split: option.splits)
next
  case (2 c d ds ch)
  show ?case
  proof (cases m)
    case (Cons k ks)
    have "kind_at (remove_at (d # ds) x) ks = (if prefix (d # ds) ks then None else kind_at x ks)"
      if "map_of ch c = Some x" for x
      using "2.IH" [of "(c, x)" ks] map_of_SomeD [OF that] by simp
    then show ?thesis using Cons
      by (auto simp: kind_at_def map_of_map_upd split: option.splits)
  qed simp
qed (auto simp: kind_at_def lookup_leaf)

subsection \<open>Paths\<close>

fun split_path :: "string \<Rightarrow> string list" where
  "split_path [] = [[]]"
| "split_path (c # s) =
     (if c = CHR ''/'' then [] # split_path s
      else (case split_path s of [] \<Rightarrow> [[c]] | x # xs \<Rightarrow> (c # x) # xs))"

lemma split_path_nonempty [simp]: "split_path s \<noteq> []"
  by (cases s) (auto split: list.splits)

lemma split_path_append: "split_path (p @ CHR ''/'' # s) = split_path p @ split_path s"
proof (induction p)
  case (Cons c p)
  then show ?case by (cases "split_path p") auto
qed simp

lemma split_path_name: "CHR ''/'' \<notin> set c \<Longrightarrow> split_path c = [c]"
  by (induction c) auto

text \<open>The canonical path of a location, as \<open>realpath\<close> prints it.\<close>

definition loc_str :: "string list \<Rightarrow> string" where
  "loc_str l = (if l = [] then ''/'' else concat (map (\<lambda>c. CHR ''/'' # c) l))"

definition link_start :: "string \<Rightarrow> string list \<Rightarrow> string list" where
  "link_start tgt cur = (if tgt \<noteq> [] \<and> hd tgt = CHR ''/'' then [] else cur)"

text \<open>
  The kernel's walk from directory \<open>cur\<close> over the components \<open>cs\<close>, with a budget of link
  expansions; the result is the canonical location, \<open>None\<close> for ENOENT, ENOTDIR and ELOOP.
\<close>

fun walk :: "node \<Rightarrow> bool \<Rightarrow> nat \<Rightarrow> string list \<Rightarrow> string list \<Rightarrow> string list option" where
  "walk t follow n cur [] = Some cur"
| "walk t follow n cur (c # cs) =
     (if c = [] \<or> c = ''.'' then walk t follow n cur cs
      else if c = ''..'' then walk t follow n (butlast cur) cs
      else (case kind_at t (cur @ [c]) of
          None \<Rightarrow> None
        | Some KDir \<Rightarrow> walk t follow n (cur @ [c]) cs
        | Some (KFile _) \<Rightarrow> (if cs = [] then Some (cur @ [c]) else None)
        | Some (KLink tgt) \<Rightarrow>
            (if cs = [] \<and> \<not> follow then Some (cur @ [c])
             else (case n of
                 0 \<Rightarrow> None
               | Suc n' \<Rightarrow> walk t follow n' (link_start tgt cur) (split_path tgt @ cs)))))"

definition max_links :: nat where
  "max_links = 40"

text \<open>Relative paths start at the root, the working directory of the daemon.\<close>

definition resolve :: "node \<Rightarrow> bool \<Rightarrow> string \<Rightarrow> string list option" where
  "resolve t follow p = (if p = [] then None else walk t follow max_links [] (split_path p))"

definition tree_below :: "node \<Rightarrow> node \<Rightarrow> bool" where
  "tree_below t' t \<longleftrightarrow> (\<forall>l. kind_at t' l = None \<or> kind_at t' l = kind_at t l)"

lemma tree_below_refl [simp]: "tree_below t t"
  by (simp add: tree_below_def)

lemma tree_below_trans: "tree_below s t \<Longrightarrow> tree_below t u \<Longrightarrow> tree_below s u"
  unfolding tree_below_def by metis

lemma tree_below_remove: "tree_below (remove_at l t) t"
  by (cases "l = []") (auto simp: tree_below_def kind_at_remove_at)

lemma tree_belowD: "tree_below t' t \<Longrightarrow> kind_at t' l = Some k \<Longrightarrow> kind_at t l = Some k"
  unfolding tree_below_def by (metis option.distinct(1))

text \<open>A walk that succeeds after deletions succeeded before them, at the same location.\<close>

lemma walk_mono: "walk t' f n cur cs = Some l \<Longrightarrow> tree_below t' t \<Longrightarrow> walk t f n cur cs = Some l"
proof (induction t' f n cur cs rule: walk.induct)
  case (2 t' f n cur c cs)
  consider "c = [] \<or> c = ''.''" | "c = ''..''" | "c \<noteq> []" "c \<noteq> ''.''" "c \<noteq> ''..''" by blast
  then show ?case
  proof cases
    case 3
    then obtain k where k: "kind_at t' (cur @ [c]) = Some k"
      using "2.prems"(1) by (auto split: option.splits)
    with "2.prems"(2) have "kind_at t (cur @ [c]) = Some k" by (blast dest: tree_belowD)
    with 2 3 k show ?thesis
      by (cases k) (auto split: nat.splits if_splits)
  qed (use 2 in auto)
qed simp

lemma resolve_mono: "resolve t' f p = Some l \<Longrightarrow> tree_below t' t \<Longrightarrow> resolve t f p = Some l"
  unfolding resolve_def by (auto split: if_splits intro: walk_mono)

text \<open>What a walk finds exists, when the start directory does.\<close>

lemma walk_exists:
  "walk t f n cur cs = Some l \<Longrightarrow> kind_at t cur = Some KDir \<Longrightarrow> kind_at t l \<noteq> None"
proof (induction t f n cur cs rule: walk.induct)
  case (2 t f n cur c cs)
  have up: "kind_at t (butlast cur) = Some KDir"
    using "2.prems"(2) kind_at_strict_prefix [of t cur "butlast cur"]
    by (cases cur rule: rev_cases) (auto simp: strict_prefix_def)
  have root: "kind_at t [] = Some KDir"
    using "2.prems"(2) kind_at_strict_prefix [of t cur "[]"] by (cases cur) auto
  have start: "kind_at t (link_start tgt cur) = Some KDir" for tgt
    using root "2.prems"(2) by (simp add: link_start_def)
  show ?case
    using 2 up start
    by (auto split: if_splits option.splits kind.splits nat.splits)
qed auto

text \<open>
  Appending a component: the front part is walked with links followed, whatever the mode; the
  last component is looked up in the directory reached.
\<close>

lemma walk_snoc:
  "walk t True n cur cs = Some l \<Longrightarrow> kind_at t l = Some KDir \<Longrightarrow>
     \<exists>m. walk t f n cur (cs @ [c]) = walk t f m l [c]"
proof (induction t True n cur cs rule: walk.induct)
  case (2 t n cur d cs)
  note unf = walk.simps(2) [of t True n cur d cs] walk.simps(2) [of t f n cur d "cs @ [c]"]
  consider "d = [] \<or> d = ''.''" | "\<not> (d = [] \<or> d = ''.'')" "d = ''..''"
    | k where "\<not> (d = [] \<or> d = ''.'')" "d \<noteq> ''..''" "kind_at t (cur @ [d]) = Some k"
    using "2.prems" unf(1) by (auto split: option.splits if_splits simp del: walk.simps)
  then show ?case
  proof cases
    case 1
    then show ?thesis using "2.hyps"(1) "2.prems" unf by (simp del: walk.simps)
  next
    case 2
    then show ?thesis using "2.hyps"(2) "2.prems" unf by (simp del: walk.simps)
  next
    case 3
    show ?thesis
    proof (cases k)
      case KDir
      then show ?thesis using 3 "2.hyps"(4) [of k] "2.prems" unf by (simp del: walk.simps)
    next
      case (KFile sz)
      then show ?thesis using 3 "2.prems" unf
        by (auto simp del: walk.simps simp: walk.simps(1) split: if_splits)
    next
      case (KLink tgt)
      then obtain n' where n: "n = Suc n'" "walk t True n' (link_start tgt cur) (split_path tgt @ cs) = Some l"
        using 3 "2.prems" unf(1) by (auto simp del: walk.simps split: nat.splits)
      then have "\<exists>m. walk t f n' (link_start tgt cur) ((split_path tgt @ cs) @ [c]) = walk t f m l [c]"
        using "2.hyps"(3) [of k tgt n'] 3 KLink "2.prems"(2) by (simp del: walk.simps)
      then show ?thesis using 3 KLink n unf(2) by (simp del: walk.simps)
    qed
  qed
qed auto

lemma walk_nofollow_dir:
  "walk t False n cur cs = Some l \<Longrightarrow> kind_at t l = Some KDir \<Longrightarrow> walk t True n cur cs = Some l"
proof (induction t False n cur cs rule: walk.induct)
  case (2 t n cur c cs)
  then show ?case
    by (cases "c = [] \<or> c = ''.''"; cases "c = ''..''")
      (auto split: if_splits option.splits kind.splits nat.splits)
qed simp

definition plain_name :: "string \<Rightarrow> bool" where
  "plain_name c \<longleftrightarrow> c \<noteq> [] \<and> c \<noteq> ''.'' \<and> c \<noteq> ''..'' \<and> CHR ''/'' \<notin> set c"

lemma walk_one:
  "plain_name c \<Longrightarrow> walk t False m l [c] = Some q \<Longrightarrow> q = l @ [c] \<and> kind_at t q \<noteq> None"
  by (auto simp: plain_name_def split: option.splits kind.splits)

lemma resolve_child:
  assumes "resolve t False p = Some l" "kind_at t l = Some KDir" "plain_name c"
  shows "resolve t False (p @ ''/'' @ c) =
    (if kind_at t (l @ [c]) = None then None else Some (l @ [c]))"
proof -
  have p: "p \<noteq> []" "walk t True max_links [] (split_path p) = Some l"
    using assms(1,2) by (auto simp: resolve_def intro: walk_nofollow_dir split: if_splits)
  obtain m where "walk t False max_links [] (split_path p @ [c]) = walk t False m l [c]"
    using walk_snoc [OF p(2) assms(2)] by blast
  then show ?thesis
    using assms(3) p(1)
    by (auto simp: resolve_def split_path_append split_path_name plain_name_def
        split: option.splits kind.splits)
qed

text \<open>A path through real directories only (no link, no dot component) resolves to itself.\<close>

lemma walk_direct:
  "list_all plain_name cs \<Longrightarrow> kind_at t (cur @ cs) \<noteq> None \<Longrightarrow> kind_at t cur = Some KDir \<Longrightarrow>
     (\<forall>tgt. kind_at t (cur @ cs) \<noteq> Some (KLink tgt)) \<or> \<not> f \<Longrightarrow>
     walk t f n cur cs = Some (cur @ cs)"
proof (induction cs arbitrary: cur)
  case (Cons c cs)
  have c: "c \<noteq> []" "c \<noteq> ''.''" "c \<noteq> ''..''" using Cons.prems(1) by (auto simp: plain_name_def)
  show ?case
  proof (cases "cs = []")
    case True
    with Cons.prems c show ?thesis by (auto split: option.splits kind.splits)
  next
    case False
    then have "strict_prefix (cur @ [c]) (cur @ c # cs)" by (auto simp: strict_prefix_def)
    then have d: "kind_at t (cur @ [c]) = Some KDir"
      using Cons.prems(2) by (blast intro: kind_at_strict_prefix)
    then show ?thesis using Cons c by simp
  qed
qed simp

lemma split_path_loc:
  "list_all plain_name l \<Longrightarrow> l \<noteq> [] \<Longrightarrow> split_path (loc_str l) = [] # l"
proof -
  have "list_all plain_name l \<Longrightarrow> split_path (x @ concat (map (\<lambda>c. CHR ''/'' # c) l)) = split_path x @ l" for x
  proof (induction l arbitrary: x)
    case (Cons c l)
    then show ?case
      using Cons.IH [of c] by (simp add: split_path_append split_path_name plain_name_def)
  qed simp
  from this [of "[]"] show "list_all plain_name l \<Longrightarrow> l \<noteq> [] \<Longrightarrow> split_path (loc_str l) = [] # l"
    by (simp add: loc_str_def)
qed

lemma resolve_loc_str:
  assumes "list_all plain_name l" "l \<noteq> []" "kind_at t l \<noteq> None"
    "(\<forall>tgt. kind_at t l \<noteq> Some (KLink tgt)) \<or> \<not> f"
  shows "resolve t f (loc_str l) = Some l"
proof -
  have "kind_at t [] = Some KDir"
    using assms(2,3) kind_at_strict_prefix [of t l "[]"] by (cases l) auto
  then have "walk t f max_links [] l = Some l"
    using walk_direct [of l t "[]" f max_links] assms by simp
  then show ?thesis using assms(1,2) by (simp add: resolve_def split_path_loc) (simp add: loc_str_def)
qed

end
