(* ===== verification/Types.thy ===== *)
theory Types
  imports Cxx
begin

section \<open>The structs and enums of the headers\<close>

text \<open>
  One datatype per \<open>enum class\<close>, one record per struct, fields in the order of the headers.
  Field and constructor names carry a short prefix where two headers use the same name
  (\<open>SCREEN_OFF\<close> is an engine state and an idle state). The enums are ordered by their
  underlying values, as C++ compares them.
\<close>

subsection \<open>core/state.hpp, power/idle\_detector.hpp, logging/logger.hpp\<close>

datatype EngineState =
    BOOT | ACTIVE | SCREEN_OFF | IDLE_CANDIDATE | DEEP_IDLE | MAINTENANCE | ABORTING | ERROR_BACKOFF

datatype IdleState = Is_NOT_IDLE | Is_SCREEN_OFF | Is_IDLE_CANDIDATE | Is_DEEP_IDLE

datatype LogLevel = DEBUG | INFO | WARNING | ERROR

fun engine_value :: "EngineState \<Rightarrow> nat" where
  "engine_value BOOT = 0" | "engine_value ACTIVE = 1" | "engine_value SCREEN_OFF = 2"
| "engine_value IDLE_CANDIDATE = 3" | "engine_value DEEP_IDLE = 4" | "engine_value MAINTENANCE = 5"
| "engine_value ABORTING = 6" | "engine_value ERROR_BACKOFF = 7"

fun level_value :: "LogLevel \<Rightarrow> nat" where
  "level_value DEBUG = 0" | "level_value INFO = 1"
| "level_value WARNING = 2" | "level_value ERROR = 3"

lemma engine_value_inj: "engine_value a = engine_value b \<Longrightarrow> a = b"
  by (cases a; cases b) simp_all

lemma level_value_inj: "level_value a = level_value b \<Longrightarrow> a = b"
  by (cases a; cases b) simp_all

instantiation EngineState :: linorder
begin

definition less_eq_EngineState :: "EngineState \<Rightarrow> EngineState \<Rightarrow> bool" where
  "less_eq_EngineState a b \<longleftrightarrow> engine_value a \<le> engine_value b"

definition less_EngineState :: "EngineState \<Rightarrow> EngineState \<Rightarrow> bool" where
  "less_EngineState a b \<longleftrightarrow> engine_value a < engine_value b"

instance
  by standard (auto simp: less_eq_EngineState_def less_EngineState_def dest: engine_value_inj)

end

instantiation LogLevel :: linorder
begin

definition less_eq_LogLevel :: "LogLevel \<Rightarrow> LogLevel \<Rightarrow> bool" where
  "less_eq_LogLevel a b \<longleftrightarrow> level_value a \<le> level_value b"

definition less_LogLevel :: "LogLevel \<Rightarrow> LogLevel \<Rightarrow> bool" where
  "less_LogLevel a b \<longleftrightarrow> level_value a < level_value b"

instance
  by standard (auto simp: less_eq_LogLevel_def less_LogLevel_def dest: level_value_inj)

end

subsection \<open>config/config.hpp\<close>

record Configuration =
  enabled :: bool
  cache_threshold_mb :: i32
  include_user_apps :: bool
  include_system_apps :: bool
  include_external_cache :: bool
  idle_required :: bool
  idle_delay_minutes :: i32
  charging_preferred :: bool
  minimum_battery_percent :: i32
  thermal_protection :: bool
  adaptive_scanning :: bool
  logging_debug :: bool
  max_cleanup_mb_per_run :: i32
  max_files_per_batch :: i32
  max_batch_time_ms :: i32
  check_interval_active_sec :: i32
  check_interval_screen_off_sec :: i32
  check_interval_deep_idle_sec :: i32

definition default_config :: Configuration where
  "default_config = \<lparr>
     enabled = True, cache_threshold_mb = 100, include_user_apps = True,
     include_system_apps = True, include_external_cache = True, idle_required = True,
     idle_delay_minutes = 15, charging_preferred = True, minimum_battery_percent = 25,
     thermal_protection = True, adaptive_scanning = True, logging_debug = False,
     max_cleanup_mb_per_run = 2048, max_files_per_batch = 128, max_batch_time_ms = 250,
     check_interval_active_sec = 1800, check_interval_screen_off_sec = 300,
     check_interval_deep_idle_sec = 60\<rparr>"

subsection \<open>android/package\_manager.hpp, cache/*.hpp\<close>

record PackageInfo =
  pi_name :: string
  pi_data_dir :: string
  pi_uid :: i32
  pi_is_system :: bool

definition default_PackageInfo :: PackageInfo where
  "default_PackageInfo = \<lparr>pi_name = [], pi_data_dir = [], pi_uid = -1, pi_is_system = False\<rparr>"

record CacheDirInfo =
  cd_path :: string
  cd_pkg_name :: string
  cd_size_bytes :: u64
  cd_size_calculated :: bool

record MaintenanceTarget =
  mt_cache_dir :: CacheDirInfo
  mt_priority :: i32

record PackageState =
  ps_hash :: u32
  ps_last_scan_ms :: u64
  ps_last_cleanup_ms :: u64
  ps_last_size_bytes :: u64
  ps_cleanup_count :: u32
  ps_growth_rate :: u32

subsection \<open>diagnostics, memory and storage headers\<close>

record ResourceUsage =
  cpu_time_ms :: u64
  rss_kb :: u64

record ZramStats =
  mem_used_total :: u64
  orig_data_size :: u64

subsection \<open>\<open>struct timespec\<close>\<close>

record timespec =
  tv_sec :: u64
  tv_nsec :: u64

text \<open>\<open>(uint64_t)ts.tv_sec * 1000ULL + ts.tv_nsec / 1000000ULL\<close>\<close>

definition timespec_ms :: "timespec \<Rightarrow> u64" where
  "timespec_ms ts = tv_sec ts * 1000 + tv_nsec ts div 1000000"

end
