(* ===== verification/Config.thy ===== *)
theory Config
  imports Types
begin

section \<open>config/config.cpp\<close>

text \<open>
  Reading \<open>key = value\<close> lines into a \<open>Configuration\<close>. \<open>trim\<close> works with the
  indices the code computes; \<open>trim_trims\<close> says what it does. Unknown keys, comments and lines
  without \<open>=\<close> change nothing, later lines win, and a configuration that is written out as
  lines is read back.
\<close>

definition blanks :: string where
  "blanks = [CHR '' '', CHR 0x09, CHR 0x0D, CHR 0x0A]"

definition trim :: "string \<Rightarrow> string" where
  "trim str = (case find_first_not_of str blanks of
       None \<Rightarrow> []
     | Some first_pos \<Rightarrow> (case find_last_not_of str blanks of
           None \<Rightarrow> []
         | Some last_pos \<Rightarrow> substr str first_pos (last_pos - first_pos + 1)))"

definition bool_value :: "string \<Rightarrow> bool" where
  "bool_value value = (value = ''true'' \<or> value = ''1'')"

definition apply_option :: "string \<Rightarrow> string \<Rightarrow> Configuration \<Rightarrow> Configuration" where
  "apply_option key value g =
    (if key = ''enabled'' then g\<lparr>enabled := bool_value value\<rparr>
     else if key = ''cache_threshold_mb'' then g\<lparr>cache_threshold_mb := atoi value\<rparr>
     else if key = ''include_user_apps'' then g\<lparr>include_user_apps := bool_value value\<rparr>
     else if key = ''include_system_apps'' then g\<lparr>include_system_apps := bool_value value\<rparr>
     else if key = ''include_external_cache'' then g\<lparr>include_external_cache := bool_value value\<rparr>
     else if key = ''idle_required'' then g\<lparr>idle_required := bool_value value\<rparr>
     else if key = ''idle_delay_minutes'' then g\<lparr>idle_delay_minutes := atoi value\<rparr>
     else if key = ''charging_preferred'' then g\<lparr>charging_preferred := bool_value value\<rparr>
     else if key = ''minimum_battery_percent'' then g\<lparr>minimum_battery_percent := atoi value\<rparr>
     else if key = ''thermal_protection'' then g\<lparr>thermal_protection := bool_value value\<rparr>
     else if key = ''adaptive_scanning'' then g\<lparr>adaptive_scanning := bool_value value\<rparr>
     else if key = ''logging'' then g\<lparr>logging_debug := bool_value value\<rparr>
     else if key = ''max_cleanup_mb_per_run'' then g\<lparr>max_cleanup_mb_per_run := atoi value\<rparr>
     else if key = ''max_files_per_batch'' then g\<lparr>max_files_per_batch := atoi value\<rparr>
     else if key = ''max_batch_time_ms'' then g\<lparr>max_batch_time_ms := atoi value\<rparr>
     else g)"

definition config_line :: "string \<Rightarrow> Configuration \<Rightarrow> Configuration" where
  "config_line raw g =
    (let line = trim raw in
     if line = [] \<or> hd line = CHR ''#'' then g
     else (case str_find line ''='' of
         None \<Rightarrow> g
       | Some delim_pos \<Rightarrow>
           (let key = trim (substr line 0 delim_pos);
                value = trim (drop (delim_pos + 1) line)
            in apply_option key value g)))"

text \<open>The file's content is \<open>None\<close> when it cannot be opened.\<close>

definition LoadConfig :: "string option \<Rightarrow> Configuration \<Rightarrow> bool \<times> Configuration" where
  "LoadConfig file g = (case file of
       None \<Rightarrow> (False, g)
     | Some text \<Rightarrow> (True, fold config_line (getlines text) g))"

subsection \<open>Trimming\<close>

lemma trim_trims:
  "trim s = rev (dropWhile (\<lambda>c. c \<in> set blanks) (rev (dropWhile (\<lambda>c. c \<in> set blanks) s)))"
proof (cases "find_first_not_of s blanks")
  case None
  then have all: "\<forall>x\<in>set s. x \<in> set blanks" by (auto simp: find_first_not_of_None)
  have dw: "dropWhile (\<lambda>c. c \<in> set blanks) s = []" using all by simp
  show ?thesis unfolding dw by (simp add: trim_def None)
next
  case (Some i)
  then obtain j where j: "find_last_not_of s blanks = Some j"
    by (metis find_first_not_of_None find_last_not_of_None not_None_eq option.distinct(1))
  have dw: "dropWhile (\<lambda>c. c \<in> set blanks) s = drop i s" "i < length s"
    using find_first_not_of_dropWhile [OF Some] by simp_all
  have jl: "j < length s" "s ! j \<notin> set blanks" "set (drop (Suc j) s) \<subseteq> set blanks"
    using find_last_not_of_Some [OF j] by simp_all
  have hd: "s ! i \<notin> set blanks"
    using dw hd_dropWhile [of "\<lambda>c. c \<in> set blanks" s] by (simp add: hd_drop_conv_nth)
  have ij: "i \<le> j"
  proof (rule ccontr)
    assume "\<not> i \<le> j"
    then have "s ! i \<in> set (drop (Suc j) s)"
      using dw(2) nth_mem [of "i - Suc j" "drop (Suc j) s"] by simp
    with jl(3) hd show False by blast
  qed
  have sp: "drop i s = take (j - i) (drop i s) @ s ! j # drop (Suc j) s"
    using ij jl(1) id_take_nth_drop [of "j - i" "drop i s"] by simp
  have "dropWhile (\<lambda>c. c \<in> set blanks) (rev (drop i s)) = s ! j # rev (take (j - i) (drop i s))"
    using jl(2,3) by (subst sp) (auto simp: dropWhile_append rev_map)
  moreover have "take (j - i + 1) (drop i s) = take (j - i) (drop i s) @ [s ! j]"
    using ij jl(1) take_Suc_conv_app_nth [of "j - i" "drop i s"] by simp
  ultimately show ?thesis using Some j dw by (simp add: trim_def substr_def)
qed

lemma trim_id: "s = [] \<or> hd s \<notin> set blanks \<and> last s \<notin> set blanks \<Longrightarrow> trim s = s"
proof -
  have dw: "xs = [] \<or> \<not> P (hd xs) \<Longrightarrow> dropWhile P xs = xs" for P and xs :: string
    by (cases xs) auto
  assume s: "s = [] \<or> hd s \<notin> set blanks \<and> last s \<notin> set blanks"
  then have "dropWhile (\<lambda>c. c \<in> set blanks) s = s" by (intro dw) auto
  moreover have "dropWhile (\<lambda>c. c \<in> set blanks) (rev s) = rev s"
    using s by (intro dw) (auto simp: hd_rev)
  ultimately show ?thesis by (simp add: trim_trims)
qed

lemma trim_idem: "trim (trim s) = trim s"
proof -
  have dw: "dropWhile P xs = [] \<or> \<not> P (hd (dropWhile P xs))" for P and xs :: string
    by (metis hd_dropWhile)
  let ?B = "\<lambda>c. c \<in> set blanks"
  let ?u = "dropWhile ?B s"
  let ?v = "dropWhile ?B (rev ?u)"
  have last: "?v = [] \<or> last (rev ?v) \<notin> set blanks"
    using dw [of ?B "rev ?u"] by (auto simp: last_rev)
  have "?v = [] \<or> hd (rev ?v) \<notin> set blanks"
  proof -
    obtain w where w: "rev ?u = w @ ?v" by (metis takeWhile_dropWhile_id)
    then have "?u = rev ?v @ rev w" by (metis rev_append rev_rev_ident)
    then show ?thesis using dw [of ?B s] by (cases "rev ?v") auto
  qed
  with last show ?thesis by (intro trim_id) (auto simp: trim_trims)
qed

subsection \<open>Lines\<close>

lemma config_line_comment: "trim l = [] \<or> hd (trim l) = CHR ''#'' \<Longrightarrow> config_line l g = g"
  by (simp add: config_line_def)

lemma str_find_eq: "c \<notin> set k \<Longrightarrow> str_find (k @ c # v) [c] = Some (length k)"
  by (induction k) auto

definition clean_word :: "string \<Rightarrow> bool" where
  "clean_word s \<longleftrightarrow> s \<noteq> [] \<and> (\<forall>c\<in>set s. c \<notin> set blanks \<and> c \<noteq> CHR ''='' \<and> c \<noteq> CHR ''#'')"

lemma clean_word_trim: "clean_word s \<Longrightarrow> trim s = s"
  by (intro trim_id) (auto simp: clean_word_def)

lemma config_line_key_value:
  assumes "clean_word k" "clean_word v"
  shows "config_line (k @ CHR ''='' # v) g = apply_option k v g"
proof -
  have ne: "k \<noteq> []" "v \<noteq> []" using assms by (auto simp: clean_word_def)
  have "trim (k @ ''='' @ v) = k @ ''='' @ v"
    using assms ne by (intro trim_id) (auto simp: clean_word_def)
  moreover have "hd (k @ ''='' @ v) \<noteq> CHR ''#''"
    using assms ne by (auto simp: clean_word_def)
  moreover have "str_find (k @ CHR ''='' # v) ''='' = Some (length k)"
    using assms(1) by (intro str_find_eq) (auto simp: clean_word_def)
  ultimately show ?thesis
    using assms by (simp add: config_line_def substr_def clean_word_trim)
qed

subsection \<open>Writing a configuration and reading it back\<close>

definition show_bool :: "bool \<Rightarrow> string" where
  "show_bool b = (if b then ''true'' else ''false'')"

definition option_lines :: "Configuration \<Rightarrow> (string \<times> string) list" where
  "option_lines g =
    [(''enabled'', show_bool (enabled g)),
     (''cache_threshold_mb'', fmt_d (sint (cache_threshold_mb g))),
     (''include_user_apps'', show_bool (include_user_apps g)),
     (''include_system_apps'', show_bool (include_system_apps g)),
     (''include_external_cache'', show_bool (include_external_cache g)),
     (''idle_required'', show_bool (idle_required g)),
     (''idle_delay_minutes'', fmt_d (sint (idle_delay_minutes g))),
     (''charging_preferred'', show_bool (charging_preferred g)),
     (''minimum_battery_percent'', fmt_d (sint (minimum_battery_percent g))),
     (''thermal_protection'', show_bool (thermal_protection g)),
     (''adaptive_scanning'', show_bool (adaptive_scanning g)),
     (''logging'', show_bool (logging_debug g)),
     (''max_cleanup_mb_per_run'', fmt_d (sint (max_cleanup_mb_per_run g))),
     (''max_files_per_batch'', fmt_d (sint (max_files_per_batch g))),
     (''max_batch_time_ms'', fmt_d (sint (max_batch_time_ms g)))]"

definition print_config :: "Configuration \<Rightarrow> string" where
  "print_config g = concat (map (\<lambda>(k, v). k @ ''='' @ v @ [CHR 0x0A]) (option_lines g))"

lemma clean_fmt_d [simp]: "clean_word (fmt_d i)"
proof -
  have d: "is_digit c \<Longrightarrow> c \<notin> set blanks \<and> c \<noteq> CHR ''='' \<and> c \<noteq> CHR ''#''" for c
    by (auto simp: is_digit_def blanks_def)
  have "c \<in> set (fmt_u n) \<Longrightarrow> c \<notin> set blanks \<and> c \<noteq> CHR ''='' \<and> c \<noteq> CHR ''#''" for c n
    using fmt_u_digits [of n] d by (simp add: list_all_iff)
  then show ?thesis
    by (auto simp: clean_word_def fmt_d_def fmt_u_nonempty blanks_def)
qed

lemma clean_show_bool [simp]: "clean_word (show_bool b)"
  by (simp add: clean_word_def show_bool_def blanks_def)

lemma bool_value_show [simp]: "bool_value (show_bool b) = b"
  by (simp add: bool_value_def show_bool_def)

lemma clean_no_newline: "clean_word s \<Longrightarrow> CHR 0x0A \<notin> set s"
  by (auto simp: clean_word_def blanks_def)

lemma getlines_print:
  "list_all (\<lambda>(k, v). clean_word k \<and> clean_word v) kvs \<Longrightarrow>
   getlines (concat (map (\<lambda>(k, v). k @ ''='' @ v @ [CHR 0x0A]) kvs)) =
     map (\<lambda>(k, v). k @ ''='' @ v) kvs"
proof (induction kvs)
  case Nil
  show ?case by (simp add: getlines_def)
next
  case (Cons kv kvs)
  obtain k v where kv: "kv = (k, v)" by (cases kv)
  then have "CHR 0x0A \<notin> set (k @ ''='' @ v)"
    using Cons.prems by (auto dest: clean_no_newline)
  from getlines_line [OF this] show ?case using Cons kv by simp
qed

lemma fold_config_lines:
  "list_all (\<lambda>(k, v). clean_word k \<and> clean_word v) kvs \<Longrightarrow>
   fold config_line (map (\<lambda>(k, v). k @ ''='' @ v) kvs) g = fold (\<lambda>(k, v). apply_option k v) kvs g"
  by (induction kvs arbitrary: g) (auto simp: config_line_key_value)

lemma option_lines_clean: "list_all (\<lambda>(k, v). clean_word k \<and> clean_word v) (option_lines g)"
  by (simp add: option_lines_def) (simp add: clean_word_def blanks_def)

text \<open>
  C32. Round trip: a configuration written out as \<open>key=value\<close> lines and loaded over any other
  one is read back, in every field the file can set; the three check intervals, which have no key,
  keep the values they had.
\<close>

theorem LoadConfig_print_config:
  "LoadConfig (Some (print_config g)) h =
     (True, g\<lparr>check_interval_active_sec := check_interval_active_sec h,
              check_interval_screen_off_sec := check_interval_screen_off_sec h,
              check_interval_deep_idle_sec := check_interval_deep_idle_sec h\<rparr>)"
proof -
  have "fold (\<lambda>(k, v). apply_option k v) (option_lines g) h =
      g\<lparr>check_interval_active_sec := check_interval_active_sec h,
        check_interval_screen_off_sec := check_interval_screen_off_sec h,
        check_interval_deep_idle_sec := check_interval_deep_idle_sec h\<rparr>"
    by (intro Configuration.equality) (simp_all add: option_lines_def apply_option_def)
  then show ?thesis
    using option_lines_clean [of g]
    by (simp only: LoadConfig_def print_config_def option.case getlines_print fold_config_lines)
qed

end
