(* ===== verification/World.thy ===== *)
theory World
  imports Filetree Config
begin

section \<open>The environment and the globals of the daemon\<close>

text \<open>
  \<open>env\<close> is everything outside \<open>src/\<close> that the daemon observes: the text of sysfs and
  procfs nodes, the output of shell commands, the clocks, failing system calls, the iteration order
  of \<open>std::unordered_map\<close>, the permutation \<open>std::sort\<close> chooses among equal elements and
  the padding bytes of structs, and how much of a write reaches the disk. Observations are indexed by a tick that every observation advances,
  so the screen, the battery or a clock can change between any two system calls.
  \<open>world\<close> holds the globals of all translation units, the file tree the cleaner works on, the
  daemon's own files under \<open>/data/adb/freshcore\<close>, the log files, and the trace of the effects
  on the device. The three groups of files are kept apart: \<open>fs\<close> is the file system without the
  daemon's own files, which are the log and its predecessor (\<open>log_files\<close>) and the state file and its
  temporary file (\<open>disk\<close>); what is claimed of deletions is claimed of all three.
\<close>

record statvfs =
  f_blocks :: u64
  f_bavail :: u64
  f_frsize :: u64

record env =
  e_text :: "nat \<Rightarrow> string \<Rightarrow> string option"
  e_pipe :: "nat \<Rightarrow> string \<Rightarrow> string option"
  e_mono :: "nat \<Rightarrow> timespec"
  e_real :: "nat \<Rightarrow> timespec"
  e_cpu :: "nat \<Rightarrow> timespec option"
  e_page_size :: u64
  e_statvfs :: "nat \<Rightarrow> string \<Rightarrow> statvfs option"
  e_dir :: "nat \<Rightarrow> string \<Rightarrow> string list option"
  e_fault :: "nat \<Rightarrow> string \<Rightarrow> bool"
  e_write :: "nat \<Rightarrow> string \<Rightarrow> bool"
  e_trim :: "nat \<Rightarrow> string \<Rightarrow> u64 option option"
  e_log_ok :: "nat \<Rightarrow> string \<Rightarrow> bool"
  e_wall :: "nat \<Rightarrow> int"
  e_localtime :: "nat \<Rightarrow> string"
  e_map_order :: "(u32 \<times> PackageState) list \<Rightarrow> (u32 \<times> PackageState) list"
  e_sort :: "(MaintenanceTarget \<Rightarrow> MaintenanceTarget \<Rightarrow> bool) \<Rightarrow> MaintenanceTarget list \<Rightarrow> MaintenanceTarget list"
  e_padding :: "nat \<Rightarrow> u8 list"
  e_written :: "nat \<Rightarrow> nat \<Rightarrow> nat"
  e_inotify :: "nat \<Rightarrow> bool"
  e_watch :: "nat \<Rightarrow> string \<Rightarrow> bool"

record log_state =
  log_open :: bool
  log_path :: string
  log_max_size :: nat
  log_files :: "string \<rightharpoonup> string \<times> int"
  log_clock :: nat

datatype effect =
    IdleEval IdleState          \<comment> \<open>a verdict of \<open>EvaluateIdleState\<close> (history)\<close>
  | Unlink string bool          \<comment> \<open>\<open>unlink\<close> and whether it succeeded\<close>
  | Rmdir string bool
  | Shell string                \<comment> \<open>\<open>std::system\<close>\<close>
  | Pipe string                 \<comment> \<open>\<open>popen\<close>\<close>
  | WriteNode string string bool
  | Fitrim string
  | Usleep nat
  | LogUnlink string bool       \<comment> \<open>\<open>unlink\<close> of the logger's purge of its own files\<close>
  | Setpriority int
  | Mixer string "string list"  \<comment> \<open>a control that a \<open>tinymix\<close> command has set (history)\<close>

datatype poll_thread = PollThread | AlsaThread

record world =
  tick :: nat
  g_config :: Configuration
  g_current_state :: EngineState
  g_backlight_path :: string
  g_screen_supported :: bool
  g_battery_capacity_path :: string
  g_battery_status_path :: string
  g_thermal_zones :: "string list"
  g_screen_off_time :: u64
  g_batch_start_time_ms :: u64
  g_total_files_processed_run :: i32
  g_total_bytes_freed_run :: u64
  g_states :: "(u32 \<times> PackageState) list"
  w_log :: log_state
  fs :: node
  disk :: "string \<rightharpoonup> u8 list"
  trace :: "effect list"
  g_running :: bool
  g_timer :: "u32 option"
  g_mic_running :: bool
  g_tinymix_path :: string
  g_poll_thread :: "poll_thread option"

type_synonym 'a io = "(world, 'a) state"

definition closed_log :: log_state where
  "closed_log = \<lparr>log_open = False, log_path = [], log_max_size = 0, log_files = Map.empty, log_clock = 0\<rparr>"

text \<open>The globals as the process starts with them.\<close>

definition boot_world :: "node \<Rightarrow> (string \<rightharpoonup> u8 list) \<Rightarrow> (string \<rightharpoonup> string \<times> int) \<Rightarrow> world" where
  "boot_world tree d logs = \<lparr>
     tick = 0, g_config = default_config, g_current_state = BOOT,
     g_backlight_path = [], g_screen_supported = True,
     g_battery_capacity_path = [], g_battery_status_path = [], g_thermal_zones = [],
     g_screen_off_time = 0, g_batch_start_time_ms = 0, g_total_files_processed_run = 0,
     g_total_bytes_freed_run = 0, g_states = [], w_log = closed_log\<lparr>log_files := logs\<rparr>,
     fs = tree, disk = d, trace = [],
     g_running = True, g_timer = None, g_mic_running = False,
     g_tinymix_path = ''tinymix'', g_poll_thread = None\<rparr>"

subsection \<open>Observations and effects\<close>

definition observe :: "(nat \<Rightarrow> 'a) \<Rightarrow> 'a io" where
  "observe f = do { w \<leftarrow> getS; modS (tick_update Suc); ret (f (tick w)) }"

definition emit :: "effect \<Rightarrow> unit io" where
  "emit e = modS (\<lambda>w. w\<lparr>trace := trace w @ [e]\<rparr>)"

definition read_text :: "env \<Rightarrow> string \<Rightarrow> string option io" where
  "read_text E p = observe (\<lambda>t. e_text E t p)"

definition run_pipe :: "env \<Rightarrow> string \<Rightarrow> string option io" where
  "run_pipe E cmd = do { emit (Pipe cmd); observe (\<lambda>t. e_pipe E t cmd) }"

definition run_system :: "string \<Rightarrow> unit io" where
  "run_system cmd = emit (Shell cmd)"

lemma run_observe [simp, run_simps]: "run_state (observe f) w = (f (tick w), w\<lparr>tick := Suc (tick w)\<rparr>)"
  by (simp add: observe_def)

lemma run_emit [simp, run_simps]: "run_state (emit e) w = ((), w\<lparr>trace := trace w @ [e]\<rparr>)"
  by (simp add: emit_def)

lemmas prim_defs [run_simps] = read_text_def run_pipe_def run_system_def

subsection \<open>What an operation may touch\<close>

text \<open>
  \<open>sans_log\<close> blanks the log; \<open>sans_sense\<close> also blanks the tick, the trace and what the
  sensor modules remember. \<open>keeps sans_log m\<close> says that \<open>m\<close> only writes the log,
  \<open>keeps sans_sense m\<close> that it only observes the device.
\<close>

definition sans_log :: "world \<Rightarrow> world" where
  "sans_log w = w\<lparr>w_log := closed_log\<rparr>"

definition sans_sense :: "world \<Rightarrow> world" where
  "sans_sense w = w\<lparr>w_log := closed_log, tick := 0, trace := [], g_screen_off_time := 0,
     g_backlight_path := [], g_screen_supported := True, g_battery_capacity_path := [],
     g_battery_status_path := [], g_thermal_zones := []\<rparr>"

lemma sans_sense_log: "sans_sense w = sans_sense (sans_log w)"
  by (simp add: sans_sense_def sans_log_def)

lemma keeps_log_sense: "keeps sans_log m \<Longrightarrow> keeps sans_sense m"
  by (erule keeps_comp) (rule sans_sense_log)

lemma sans_log_fields:
  assumes "sans_log w' = sans_log w"
  shows "tick w' = tick w" "g_config w' = g_config w" "g_current_state w' = g_current_state w"
    "g_backlight_path w' = g_backlight_path w" "g_screen_supported w' = g_screen_supported w"
    "g_battery_capacity_path w' = g_battery_capacity_path w"
    "g_battery_status_path w' = g_battery_status_path w" "g_thermal_zones w' = g_thermal_zones w"
    "g_screen_off_time w' = g_screen_off_time w" "g_batch_start_time_ms w' = g_batch_start_time_ms w"
    "g_total_files_processed_run w' = g_total_files_processed_run w"
    "g_total_bytes_freed_run w' = g_total_bytes_freed_run w" "g_states w' = g_states w"
    "fs w' = fs w" "disk w' = disk w" "trace w' = trace w"
    "g_running w' = g_running w" "g_timer w' = g_timer w"
    "g_mic_running w' = g_mic_running w" "g_tinymix_path w' = g_tinymix_path w"
    "g_poll_thread w' = g_poll_thread w"
  using assms by (simp_all add: sans_log_def) (cases w; cases w'; simp)+

lemma sans_sense_fields:
  assumes "sans_sense w' = sans_sense w"
  shows "g_config w' = g_config w" "g_current_state w' = g_current_state w"
    "g_batch_start_time_ms w' = g_batch_start_time_ms w"
    "g_total_files_processed_run w' = g_total_files_processed_run w"
    "g_total_bytes_freed_run w' = g_total_bytes_freed_run w" "g_states w' = g_states w"
    "fs w' = fs w" "disk w' = disk w"
    "g_running w' = g_running w" "g_timer w' = g_timer w"
  using assms by (simp_all add: sans_sense_def) (cases w; cases w'; simp)+

lemma keeps_fs: "keeps sans_sense m \<Longrightarrow> run_state m w = (r, w') \<Longrightarrow> fs w' = fs w"
  by (rule sans_sense_fields(7), drule (1) pres_run)

lemma keeps_config: "keeps sans_sense m \<Longrightarrow> run_state m w = (r, w') \<Longrightarrow> g_config w' = g_config w"
  by (rule sans_sense_fields(1), drule (1) pres_run)

lemma observe_keeps [frame_intros]: "(\<And>w t. f (w\<lparr>tick := t\<rparr>) = f w) \<Longrightarrow> keeps f (observe g)"
  by (simp add: pres_def)

lemma emit_keeps [frame_intros]: "(\<And>w t. f (w\<lparr>trace := t\<rparr>) = f w) \<Longrightarrow> keeps f (emit e)"
  by (simp add: pres_def)

lemma sans_sense_upd [simp]:
  "sans_sense (w\<lparr>tick := t\<rparr>) = sans_sense w" "sans_sense (w\<lparr>trace := tr\<rparr>) = sans_sense w"
  "sans_sense (w\<lparr>g_screen_off_time := x\<rparr>) = sans_sense w"
  "sans_sense (w\<lparr>g_backlight_path := p\<rparr>) = sans_sense w"
  "sans_sense (w\<lparr>g_screen_supported := b\<rparr>) = sans_sense w"
  "sans_sense (w\<lparr>g_battery_capacity_path := p\<rparr>) = sans_sense w"
  "sans_sense (w\<lparr>g_battery_status_path := p\<rparr>) = sans_sense w"
  "sans_sense (w\<lparr>g_thermal_zones := z\<rparr>) = sans_sense w"
  "sans_sense (w\<lparr>w_log := l\<rparr>) = sans_sense w"
  by (simp_all add: sans_sense_def)

lemma read_text_keeps [frame_intros]: "keeps sans_sense (read_text E p)"
  unfolding read_text_def by (intro frame_intros) simp

lemma run_pipe_keeps [frame_intros]: "keeps sans_sense (run_pipe E p)"
  unfolding run_pipe_def by (intro keep.p_rules frame_intros) simp_all

lemma mod_sense_keeps [frame_intros]:
  "(\<And>w. sans_sense (f w) = sans_sense w) \<Longrightarrow> keeps sans_sense (modS f)"
  by (simp add: pres_def)

end
