(* ===== verification/Logger.thy ===== *)
theory Logger
  imports World
begin

section \<open>logging/logger.cpp\<close>

text \<open>
  The mutex makes each call atomic. Messages are the text \<open>vfprintf\<close> produces. \<open>log_rotate\<close>
  is the size check with \<open>rename\<close> and reopening, \<open>log_append\<close> the three \<open>fprintf\<close> calls;
  a failed reopening leaves the logger closed.
\<close>

fun LevelToString :: "LogLevel \<Rightarrow> string" where
  "LevelToString DEBUG = ''DEBUG''"
| "LevelToString INFO = ''INFO ''"
| "LevelToString WARNING = ''WARN ''"
| "LevelToString ERROR = ''ERROR''"

definition old_path :: "string \<Rightarrow> string" where
  "old_path p = p @ ''.old''"

definition log_size :: "log_state \<Rightarrow> nat" where
  "log_size s = (case log_files s (log_path s) of None \<Rightarrow> 0 | Some (txt, _) \<Rightarrow> length txt)"

text \<open>\<open>fopen(path, "a")\<close>: an existing file keeps its content.\<close>

definition log_fopen :: "env \<Rightarrow> log_state \<Rightarrow> log_state" where
  "log_fopen E s =
     (if e_log_ok E (log_clock s) ''fopen''
      then s\<lparr>log_open := True,
             log_files := (case log_files s (log_path s) of
                 None \<Rightarrow> (log_files s)(log_path s \<mapsto> ([], e_wall E (log_clock s)))
               | Some _ \<Rightarrow> log_files s)\<rparr>
      else s\<lparr>log_open := False\<rparr>)"

definition purge_seconds :: int where
  "purge_seconds = 259200"

definition log_unlink :: "env \<Rightarrow> string \<Rightarrow> log_state \<Rightarrow> bool \<times> log_state" where
  "log_unlink E p s =
     (if log_files s p \<noteq> None \<and> e_log_ok E (log_clock s) (''unlink '' @ p)
      then (True, s\<lparr>log_files := (log_files s)(p := None)\<rparr>)
      else (False, s))"

text \<open>The purge: \<open>stat\<close>, and both files unlinked when the log was last written more than three days ago.
\<close>

definition log_purge :: "env \<Rightarrow> string \<Rightarrow> log_state \<Rightarrow> effect list \<times> log_state" where
  "log_purge E p s =
     (case log_files s p of
        None \<Rightarrow> ([], s)
      | Some (_, mtime) \<Rightarrow>
          if e_log_ok E (log_clock s) ''stat'' \<and> e_wall E (log_clock s) - mtime > purge_seconds
          then (let (ok1, s1) = log_unlink E p s; (ok2, s2) = log_unlink E (old_path p) s1
                in ([LogUnlink p ok1, LogUnlink (old_path p) ok2], s2))
          else ([], s))"

definition Initialize_log :: "env \<Rightarrow> string \<Rightarrow> nat \<Rightarrow> log_state \<Rightarrow> (bool \<times> effect list) \<times> log_state" where
  "Initialize_log E log_file_path max_size_bytes s0 =
    (if log_open s0 then ((True, []), s0)
     else
      (let s = s0\<lparr>log_path := log_file_path, log_max_size := max_size_bytes,
                  log_clock := Suc (log_clock s0)\<rparr>;
           (es, s) = log_purge E log_file_path s;
           s = log_fopen E s
       in ((log_open s, es), s)))"

definition Initialize :: "env \<Rightarrow> string \<Rightarrow> nat \<Rightarrow> bool io" where
  "Initialize E log_file_path max_size_bytes = do {
     w \<leftarrow> getS;
     let ((ok, es), s) = Initialize_log E log_file_path max_size_bytes (w_log w);
     modS (\<lambda>w. w\<lparr>w_log := s, trace := trace w @ es\<rparr>);
     ret ok
   }"

definition default_max_size :: nat where
  "default_max_size = 2 * 1024 * 1024"

definition Shutdown :: "unit io" where
  "Shutdown = modS (\<lambda>w. w\<lparr>w_log := (w_log w)\<lparr>log_open := False\<rparr>\<rparr>)"

definition log_rotate :: "env \<Rightarrow> log_state \<Rightarrow> log_state" where
  "log_rotate E s0 =
    (let s = s0\<lparr>log_clock := Suc (log_clock s0)\<rparr> in
     if e_log_ok E (log_clock s) ''fstat'' \<and> log_size s > log_max_size s
     then
       (let f = log_files s;
            s = (if e_log_ok E (log_clock s) ''rename'' \<and> f (log_path s) \<noteq> None
                 then s\<lparr>log_files := f(old_path (log_path s) := f (log_path s), log_path s := None)\<rparr>
                 else s)
        in log_fopen E s)
     else s)"

definition log_line :: "env \<Rightarrow> nat \<Rightarrow> LogLevel \<Rightarrow> string \<Rightarrow> string" where
  "log_line E t level msg =
     ''['' @ e_localtime E t @ ''] ['' @ LevelToString level @ ''] '' @ msg @ [CHR 0x0A]"

definition log_append :: "env \<Rightarrow> LogLevel \<Rightarrow> string \<Rightarrow> log_state \<Rightarrow> log_state" where
  "log_append E level msg s =
    (if log_open s
     then s\<lparr>log_files := (log_files s)(log_path s \<mapsto>
            ((case log_files s (log_path s) of None \<Rightarrow> [] | Some (txt, _) \<Rightarrow> txt)
               @ log_line E (log_clock s) level msg,
             e_wall E (log_clock s)))\<rparr>
     else s)"

definition Log :: "env \<Rightarrow> LogLevel \<Rightarrow> string \<Rightarrow> unit io" where
  "Log E level msg = do {
     w \<leftarrow> getS;
     if level = DEBUG \<and> \<not> logging_debug (g_config w) then ret ()
     else if \<not> log_open (w_log w) then ret ()
     else modS (\<lambda>w. w\<lparr>w_log := log_append E level msg (log_rotate E (w_log w))\<rparr>)
   }"

abbreviation LOGE :: "env \<Rightarrow> string \<Rightarrow> unit io" where
  "LOGE E \<equiv> Log E ERROR"

abbreviation LOGW :: "env \<Rightarrow> string \<Rightarrow> unit io" where
  "LOGW E \<equiv> Log E WARNING"

abbreviation LOGI :: "env \<Rightarrow> string \<Rightarrow> unit io" where
  "LOGI E \<equiv> Log E INFO"

abbreviation LOGD :: "env \<Rightarrow> string \<Rightarrow> unit io" where
  "LOGD E \<equiv> Log E DEBUG"

subsection \<open>Logging touches only the log\<close>

lemma Log_keeps [frame_intros]: "keeps sans_log (Log E l m)"
  unfolding Log_def pres_def by (simp add: sans_log_def)

lemma Log_keeps_sense [frame_intros]: "keeps sans_sense (Log E l m)"
  by (rule keeps_log_sense) (rule Log_keeps)

lemma run_Initialize:
  "run_state (Initialize E p n) w =
     (fst (fst (Initialize_log E p n (w_log w))),
      w\<lparr>w_log := snd (Initialize_log E p n (w_log w)), trace := trace w @ snd (fst (Initialize_log E p n (w_log w)))\<rparr>)"
  by (simp add: Initialize_def split: prod.splits)

lemma Shutdown_keeps [frame_intros]: "keeps sans_log Shutdown"
  unfolding Shutdown_def pres_def by (simp add: sans_log_def)

text \<open>Running a log call: the unit value, and a world that differs in the log at most.\<close>

definition logged :: "env \<Rightarrow> LogLevel \<Rightarrow> string \<Rightarrow> world \<Rightarrow> world" where
  "logged E l m w = snd (run_state (Log E l m) w)"

lemma run_Log [simp, run_simps]: "run_state (Log E l m) w = ((), logged E l m w)"
  by (cases "run_state (Log E l m) w") (simp add: logged_def)

lemma sans_log_logged: "sans_log (logged E l m w) = sans_log w"
  unfolding logged_def by (rule presD [OF Log_keeps])

lemmas logged_fields [simp] = sans_log_fields [OF sans_log_logged]

subsection \<open>Rotation\<close>

lemma old_path_neq [simp]: "old_path p \<noteq> p" "p \<noteq> old_path p"
  by (auto simp: old_path_def)

lemma log_rotate_keeps [simp]:
  "log_path (log_rotate E s) = log_path s" "log_max_size (log_rotate E s) = log_max_size s"
  by (simp_all add: log_rotate_def log_fopen_def Let_def)

lemma log_rotate_size:
  assumes "\<And>t op. e_log_ok E t op"
  shows "log_size (log_rotate E s) \<le> log_max_size s"
  using assms by (auto simp: log_rotate_def log_fopen_def log_size_def Let_def split: option.splits)

end
