(* ===== verification/Filesystem.thy ===== *)
theory Filesystem
  imports Logger
begin

section \<open>storage/filesystem.cpp\<close>

text \<open>
  The system calls of the file module (\<open>realpath\<close>, \<open>open\<close> with \<open>O_NOFOLLOW\<close> and
  \<open>readdir\<close>, \<open>lstat\<close>, \<open>unlink\<close>, \<open>rmdir\<close>) on the tree of the world, each of which
  may also fail as the environment says, and the four functions of the module over them.
  \<open>changes S\<close> is the frame of the cleaner: only deletions, and only at locations of \<open>S\<close>.
\<close>

definition faulty :: "env \<Rightarrow> string \<Rightarrow> bool io" where
  "faulty E p = observe (\<lambda>t. e_fault E t p)"

definition sys_realpath :: "env \<Rightarrow> string \<Rightarrow> string option io" where
  "sys_realpath E p = do {
     bad \<leftarrow> faulty E p; w \<leftarrow> getS;
     ret (if bad then None else map_option loc_str (resolve (fs w) True p))
   }"

definition sys_readdir :: "env \<Rightarrow> string \<Rightarrow> string list option io" where
  "sys_readdir E p = do {
     bad \<leftarrow> faulty E p; w \<leftarrow> getS;
     ret (if bad then None
          else (case resolve (fs w) False p of
              None \<Rightarrow> None
            | Some l \<Rightarrow> map_option (\<lambda>ns. ''.'' # ''..'' # ns) (child_names (fs w) l)))
   }"

definition sys_lstat :: "env \<Rightarrow> string \<Rightarrow> kind option io" where
  "sys_lstat E p = do {
     bad \<leftarrow> faulty E p; w \<leftarrow> getS;
     ret (if bad then None
          else (case resolve (fs w) False p of None \<Rightarrow> None | Some l \<Rightarrow> kind_at (fs w) l))
   }"

text \<open>\<open>st_size\<close>: the length of the target for a link; the size of a directory is not used.\<close>

fun st_size :: "kind \<Rightarrow> u64" where
  "st_size (KFile n) = n"
| "st_size (KLink tgt) = of_nat (length tgt)"
| "st_size KDir = 0"

definition can_unlink :: "node \<Rightarrow> string list \<Rightarrow> bool" where
  "can_unlink t l \<longleftrightarrow> l \<noteq> [] \<and> (case kind_at t l of None \<Rightarrow> False | Some k \<Rightarrow> k \<noteq> KDir)"

definition can_rmdir :: "node \<Rightarrow> string list \<Rightarrow> bool" where
  "can_rmdir t l \<longleftrightarrow> l \<noteq> [] \<and> child_names t l = Some []"

definition sys_remove :: "(node \<Rightarrow> string list \<Rightarrow> bool) \<Rightarrow> (string \<Rightarrow> bool \<Rightarrow> effect) \<Rightarrow> env \<Rightarrow> string \<Rightarrow> bool io" where
  "sys_remove can ev E p = do {
     bad \<leftarrow> faulty E p; w \<leftarrow> getS;
     case (if bad then None else resolve (fs w) False p) of
       None \<Rightarrow> do { emit (ev p False); ret False }
     | Some l \<Rightarrow>
         (if can (fs w) l then do { modS (\<lambda>w. w\<lparr>fs := remove_at l (fs w)\<rparr>); emit (ev p True); ret True }
          else do { emit (ev p False); ret False })
   }"

definition sys_unlink :: "env \<Rightarrow> string \<Rightarrow> bool io" where
  "sys_unlink = sys_remove can_unlink Unlink"

definition sys_rmdir :: "env \<Rightarrow> string \<Rightarrow> bool io" where
  "sys_rmdir = sys_remove can_rmdir Rmdir"

subsection \<open>The module\<close>

definition GetCanonicalPath :: "env \<Rightarrow> string \<Rightarrow> string io" where
  "GetCanonicalPath E path = do {
     resolved \<leftarrow> sys_realpath E path;
     ret (case resolved of Some res \<Rightarrow> res | None \<Rightarrow> [])
   }"

text \<open>\<open>None\<close> is the result \<open>false\<close>, \<open>Some\<close> carries \<open>out_children\<close>.\<close>

definition GetDirectoryChildren :: "env \<Rightarrow> string \<Rightarrow> string list option io" where
  "GetDirectoryChildren E dir_path = do {
     ents \<leftarrow> sys_readdir E dir_path;
     ret (map_option (filter (\<lambda>name. name \<noteq> ''.'' \<and> name \<noteq> ''..'')) ents)
   }"

definition SafeRemove :: "env \<Rightarrow> string \<Rightarrow> bool io" where
  "SafeRemove E path = do {
     st \<leftarrow> sys_lstat E path;
     (case st of
        None \<Rightarrow> ret False
      | Some k \<Rightarrow> if k = KDir then sys_rmdir E path else sys_unlink E path)
   }"

definition under_root :: "string \<Rightarrow> string \<Rightarrow> bool" where
  "under_root canon_path canon_root \<longleftrightarrow>
     length canon_path > length canon_root \<and>
     take (length canon_root) canon_path = canon_root \<and>
     canon_path ! length canon_root = CHR ''/''"

definition IsPathUnderRoot :: "env \<Rightarrow> string \<Rightarrow> string \<Rightarrow> bool io" where
  "IsPathUnderRoot E path root = do {
     canon_path \<leftarrow> GetCanonicalPath E path;
     canon_root \<leftarrow> GetCanonicalPath E root;
     ret (if canon_path = [] \<or> canon_root = [] then False
          else if under_root canon_path canon_root then True else False)
   }"

lemmas file_call_defs = faulty_def sys_realpath_def sys_readdir_def sys_lstat_def

subsection \<open>Frames\<close>

lemma file_reads_keep [frame_intros]:
  "keeps sans_sense (faulty E p)" "keeps sans_sense (sys_realpath E p)"
  "keeps sans_sense (sys_readdir E p)" "keeps sans_sense (sys_lstat E p)"
  unfolding file_call_defs by (intro keep.p_rules frame_intros; simp)+

lemma GetCanonicalPath_keeps [frame_intros]: "keeps sans_sense (GetCanonicalPath E p)"
  unfolding GetCanonicalPath_def by (intro keep.p_rules frame_intros)

lemma GetDirectoryChildren_keeps [frame_intros]: "keeps sans_sense (GetDirectoryChildren E p)"
  unfolding GetDirectoryChildren_def by (intro keep.p_rules frame_intros)

lemma IsPathUnderRoot_keeps [frame_intros]: "keeps sans_sense (IsPathUnderRoot E p r)"
  unfolding IsPathUnderRoot_def by (intro keep.p_rules frame_intros)

text \<open>\<open>sans_files\<close>: \<open>sans_sense\<close> with the tree blanked too.\<close>

definition sans_files :: "world \<Rightarrow> world" where
  "sans_files w = (sans_sense w)\<lparr>fs := Dir []\<rparr>"

lemma keeps_sense_files: "keeps sans_sense m \<Longrightarrow> keeps sans_files m"
  by (erule keeps_comp) (simp add: sans_files_def)

lemma sans_files_upd [simp]:
  "sans_files (w\<lparr>tick := t\<rparr>) = sans_files w" "sans_files (w\<lparr>trace := tr\<rparr>) = sans_files w"
  "sans_files (w\<lparr>fs := x\<rparr>) = sans_files w"
  by (simp_all add: sans_files_def sans_sense_def)

lemma sans_files_fields:
  assumes "sans_files w' = sans_files w"
  shows "g_config w' = g_config w" "g_current_state w' = g_current_state w"
    "g_states w' = g_states w" "disk w' = disk w"
    "g_total_bytes_freed_run w' = g_total_bytes_freed_run w"
    "g_batch_start_time_ms w' = g_batch_start_time_ms w"
    "g_total_files_processed_run w' = g_total_files_processed_run w"
  using assms by (simp_all add: sans_files_def sans_sense_def) (cases w; cases w'; simp)+

lemma sys_remove_keeps [frame_intros]: "keeps sans_files (sys_remove can ev E p)"
  unfolding sys_remove_def faulty_def
  by (intro keep.p_rules keep.p_mod observe_keeps emit_keeps) simp_all

lemma SafeRemove_keeps [frame_intros]: "keeps sans_files (SafeRemove E p)"
  unfolding SafeRemove_def sys_rmdir_def sys_unlink_def
  by (intro keep.p_rules keeps_sense_files frame_intros)

subsection \<open>Deleting only below a location\<close>

text \<open>\<open>changes S\<close>: only deletions, and only at locations of \<open>S\<close>.\<close>

definition changes :: "string list set \<Rightarrow> world \<Rightarrow> world \<Rightarrow> bool" where
  "changes S w w' \<longleftrightarrow> tree_below (fs w') (fs w) \<and>
     (\<forall>l. l \<notin> S \<longrightarrow> kind_at (fs w') l = kind_at (fs w) l)"

interpretation changes: step_order "changes S" for S
  by unfold_locales (auto simp: changes_def intro: tree_below_trans)

definition at_below :: "string list \<Rightarrow> string list set" where
  "at_below q = {l. prefix q l}"

definition strictly_below :: "string list \<Rightarrow> string list set" where
  "strictly_below q = {l. strict_prefix q l}"

abbreviation confined :: "string list \<Rightarrow> world \<Rightarrow> world \<Rightarrow> bool" where
  "confined q \<equiv> changes (at_below q)"

lemma confined_iff:
  "confined q w w' \<longleftrightarrow> tree_below (fs w') (fs w) \<and>
     (\<forall>l. \<not> prefix q l \<longrightarrow> kind_at (fs w') l = kind_at (fs w) l)"
  by (simp add: changes_def at_below_def)

lemma changes_same_fs: "fs w' = fs w \<Longrightarrow> changes S w w'"
  by (simp add: changes_def)

lemma changes_mono: "changes S w w' \<Longrightarrow> S \<subseteq> T \<Longrightarrow> changes T w w'"
  unfolding changes_def by blast

lemma at_below_mono: "prefix p q \<Longrightarrow> at_below q \<subseteq> at_below p"
  unfolding at_below_def by (auto intro: prefix_order.trans)

lemma at_below_child: "at_below (q @ [c]) \<subseteq> strictly_below q"
  unfolding at_below_def strictly_below_def by (auto simp: strict_prefix_def prefix_def)

lemma keeps_sense_changes [frame_intros]: "keeps sans_sense m \<Longrightarrow> pres (changes S) m"
  by (erule pres_mono) (auto dest: sans_sense_fields(7) intro: changes_same_fs)

lemma keeps_log_changes: "keeps sans_log m \<Longrightarrow> pres (changes S) m"
  by (intro keeps_sense_changes keeps_log_sense)

text \<open>The one place where the tree changes: the location removed is the one the path names.\<close>

lemma run_sys_remove:
  assumes "run_state (sys_remove can ev E p) w = (r, w')"
  shows "(\<not> r \<and> fs w' = fs w \<and> trace w' = trace w @ [ev p False]) \<or>
    (\<exists>l. r \<and> resolve (fs w) False p = Some l \<and> can (fs w) l \<and>
       fs w' = remove_at l (fs w) \<and> trace w' = trace w @ [ev p True])"
  using assms unfolding sys_remove_def faulty_def
  by (auto split: option.splits if_splits)

lemma SafeRemove_cases:
  assumes "run_state (SafeRemove E p) w = (r, w')"
  obtains (kept) "\<not> r" "fs w' = fs w"
  | (removed) l where "r" "resolve (fs w) False p = Some l" "l \<noteq> []"
      "can_unlink (fs w) l \<or> can_rmdir (fs w) l" "fs w' = remove_at l (fs w)"
proof -
  obtain st w1 where 1: "run_state (sys_lstat E p) w = (st, w1)" by fastforce
  have fs1: "fs w1 = fs w"
    using pres_run [OF file_reads_keep(4) 1] by (rule sans_sense_fields(7))
  show ?thesis
  proof (cases st)
    case None
    then show ?thesis using assms 1 fs1 kept by (simp add: SafeRemove_def)
  next
    case (Some k)
    then have "run_state (sys_remove (if k = KDir then can_rmdir else can_unlink)
        (if k = KDir then Rmdir else Unlink) E p) w1 = (r, w')"
      using assms 1 by (simp add: SafeRemove_def sys_unlink_def sys_rmdir_def split: if_splits)
    from run_sys_remove [OF this] show ?thesis
      using fs1 kept removed
      by (auto simp: can_unlink_def can_rmdir_def split: if_splits)
  qed
qed

lemma SafeRemove_confined:
  assumes "\<And>l. resolve (fs w) False p = Some l \<Longrightarrow> prefix q l"
    and "run_state (SafeRemove E p) w = (r, w')"
  shows "confined q w w'"
  using assms(2)
proof (cases rule: SafeRemove_cases)
  case kept
  then show ?thesis by (simp add: changes_same_fs)
next
  case (removed l)
  then have "prefix q l" using assms(1) by simp
  then show ?thesis
    using removed by (auto simp: confined_iff tree_below_remove kind_at_remove_at)
qed

subsection \<open>Path containment\<close>

definition wf_tree :: "node \<Rightarrow> bool" where
  "wf_tree t \<longleftrightarrow> kind_of t = KDir \<and> (\<forall>l. kind_at t l \<noteq> None \<longrightarrow> list_all plain_name l)"

text \<open>The same by recursion over the tree, to evaluate on concrete trees.\<close>

fun names_ok :: "node \<Rightarrow> bool" where
  "names_ok (Dir ch) = (\<forall>x\<in>set ch. plain_name (fst x) \<and> names_ok (snd x))"
| "names_ok t = True"

lemma names_ok_kind_at: "names_ok t \<Longrightarrow> kind_at t l \<noteq> None \<Longrightarrow> list_all plain_name l"
proof (induction t l rule: lookup.induct)
  case (2 ch c cs)
  then obtain x where x: "map_of ch c = Some x" by (auto simp: kind_at_def split: option.splits)
  then have "(c, x) \<in> set ch" by (rule map_of_SomeD)
  with 2 x show ?case by (fastforce simp: kind_at_def)
qed (auto simp: kind_at_def)

lemma wf_treeI: "kind_of t = KDir \<Longrightarrow> names_ok t \<Longrightarrow> wf_tree t"
  using names_ok_kind_at by (auto simp: wf_tree_def)

lemma wf_tree_below: "wf_tree t \<Longrightarrow> tree_below t' t \<Longrightarrow> wf_tree t'"
proof -
  assume t: "wf_tree t" and b: "tree_below t' t"
  have "Some (kind_of t') = Some (kind_of t)"
    using b kind_at_Nil unfolding tree_below_def by (metis option.distinct(1))
  moreover have "list_all plain_name l" if "kind_at t' l \<noteq> None" for l
    using that t b unfolding wf_tree_def tree_below_def by metis
  ultimately show "wf_tree t'" using t by (simp add: wf_tree_def)
qed

lemma resolve_wf: "wf_tree t \<Longrightarrow> resolve t f p = Some l \<Longrightarrow> list_all plain_name l \<and> kind_at t l \<noteq> None"
  using walk_exists [of t f max_links "[]" "split_path p" l]
  by (auto simp: wf_tree_def resolve_def split: if_splits)

lemma under_root_iff:
  "under_root cp cr \<longleftrightarrow> (\<exists>rest. cp = cr @ CHR ''/'' # rest)"
proof
  assume "under_root cp cr"
  then have "cp = cr @ CHR ''/'' # drop (Suc (length cr)) cp"
    unfolding under_root_def by (metis append_take_drop_id Cons_nth_drop_Suc)
  then show "\<exists>rest. cp = cr @ CHR ''/'' # rest" ..
qed (auto simp: under_root_def)

lemma under_root_loc:
  assumes a: "list_all plain_name a" and r: "list_all plain_name r"
  shows "under_root (loc_str a) (loc_str r) \<longleftrightarrow> strict_prefix r a \<and> r \<noteq> []"
proof
  assume "under_root (loc_str a) (loc_str r)"
  then obtain rest where e: "loc_str a = loc_str r @ CHR ''/'' # rest"
    by (auto simp: under_root_iff)
  have ane: "a \<noteq> []" using e by (cases r) (auto simp: loc_str_def split: if_splits)
  have s: "split_path (loc_str a) = split_path (loc_str r) @ split_path rest"
    using e by (simp add: split_path_append)
  show "strict_prefix r a \<and> r \<noteq> []"
  proof (cases "r = []")
    case True
    then have "a = [] # split_path rest"
      using s split_path_loc [OF a ane] by (simp add: loc_str_def [of "[]"])
    then show ?thesis using a by (simp add: plain_name_def)
  next
    case False
    then have "a = r @ split_path rest"
      using s split_path_loc [OF a ane] split_path_loc [OF r False] by simp
    with False show ?thesis by (simp add: strict_prefix_def)
  qed
next
  assume "strict_prefix r a \<and> r \<noteq> []"
  then obtain c m where "a = r @ c # m" "r \<noteq> []" by (auto elim: strict_prefixE')
  then show "under_root (loc_str a) (loc_str r)"
    by (auto simp: under_root_iff loc_str_def)
qed

lemma run_GetCanonicalPath:
  assumes "run_state (GetCanonicalPath E p) w = (c, w')" "c \<noteq> []"
  shows "\<exists>l. resolve (fs w) True p = Some l \<and> c = loc_str l"
  using assms unfolding GetCanonicalPath_def sys_realpath_def faulty_def
  by (auto split: option.splits if_splits)

lemma IsPathUnderRoot_sound:
  assumes "wf_tree (fs w)" "run_state (IsPathUnderRoot E p root) w = (True, w')"
  shows "\<exists>lp lr. resolve (fs w) True p = Some lp \<and> resolve (fs w) True root = Some lr \<and>
    strict_prefix lr lp \<and> lr \<noteq> []"
proof -
  obtain cp w1 where 1: "run_state (GetCanonicalPath E p) w = (cp, w1)" by fastforce
  obtain cr w2 where 2: "run_state (GetCanonicalPath E root) w1 = (cr, w2)" by fastforce
  have fs1: "fs w1 = fs w"
    using pres_run [OF GetCanonicalPath_keeps 1] by (rule sans_sense_fields(7))
  have c: "cp \<noteq> []" "cr \<noteq> []" "under_root cp cr"
    using assms(2) 1 2 by (auto simp: IsPathUnderRoot_def split: if_splits)
  obtain lp lr where l: "resolve (fs w) True p = Some lp" "cp = loc_str lp"
    "resolve (fs w) True root = Some lr" "cr = loc_str lr"
    using run_GetCanonicalPath [OF 1 c(1)] run_GetCanonicalPath [OF 2 c(2)] fs1 by auto
  then have "strict_prefix lr lp \<and> lr \<noteq> []"
    using c(3) under_root_loc resolve_wf [OF assms(1)] by blast
  with l show ?thesis by blast
qed

end
