(* ===== verification/Device.thy ===== *)
theory Device
  imports Filesystem
begin

section \<open>android/: screen, foreground activity, packages\<close>

text \<open>
  \<open>power_state.cpp\<close>: the backlight node is looked for once and remembered; without a readable
  brightness the answer comes from \<open>dumpsys power\<close>, and is "on" when that says nothing.
  \<open>activity_state.cpp\<close> matches the focused window against a list of names.
  \<open>package_manager.cpp\<close> parses \<open>packages.list\<close>. \<open>binder_interface.cpp\<close> is a stub.
\<close>

abbreviation (input) quoted :: "string \<Rightarrow> string" where
  "quoted s \<equiv> CHR 0x27 # s @ [CHR 0x27]"

subsection \<open>power\_state.cpp\<close>

definition screen_nodes :: "string list" where
  "screen_nodes =
     [''/sys/class/backlight/panel0-backlight/brightness'',
      ''/sys/class/leds/lcd-backlight/brightness'',
      ''/sys/class/backlight/intel_backlight/brightness'',
      ''/sys/class/backlight/acpi_video0/brightness'']"

definition DetectScreenNode :: "env \<Rightarrow> unit io" where
  "DetectScreenNode E = do {
     r \<leftarrow> loop (\<lambda>path (_ :: unit). do {
         file \<leftarrow> read_text E path;
         if file \<noteq> None
         then do {
           modS (\<lambda>w. w\<lparr>g_backlight_path := path\<rparr>);
           LOGI E (''Screen state fallback node found: '' @ path);
           ret (Inr ())
         }
         else ret (Inl ())
       }) screen_nodes ();
     (case r of
        Inr _ \<Rightarrow> ret ()
      | Inl _ \<Rightarrow> do {
          LOGW E ''No known screen brightness sysfs node found. Screen detection may be unsupported.'';
          modS (\<lambda>w. w\<lparr>g_screen_supported := False\<rparr>)
        })
   }"

definition wakefulness_cmd :: string where
  "wakefulness_cmd = ''dumpsys power 2>/dev/null | grep -m 1 '' @ quoted ''mWakefulness=''"

text \<open>The first line a pipe delivers into a 128 byte buffer, empty without one.\<close>

definition pipe_line :: "string option \<Rightarrow> string option" where
  "pipe_line p = (case p of None \<Rightarrow> None | Some out \<Rightarrow> map_option fst (fgets 128 out))"

definition brightness_on :: "string option \<Rightarrow> bool option" where
  "brightness_on file = (case file of
       None \<Rightarrow> None
     | Some txt \<Rightarrow> map_option (\<lambda>(brightness, _). sint brightness > 0) (read_int txt))"

definition wakefulness_on :: "string option \<Rightarrow> bool" where
  "wakefulness_on p =
     (let result = (case pipe_line p of None \<Rightarrow> [] | Some b \<Rightarrow> b)
      in if contains result ''Asleep'' \<or> contains result ''Dozing'' then False else True)"

definition IsScreenOn :: "env \<Rightarrow> bool io" where
  "IsScreenOn E = do {
     w \<leftarrow> getS;
     whenS (g_backlight_path w = [] \<and> g_screen_supported w) (DetectScreenNode E);
     w \<leftarrow> getS;
     direct \<leftarrow> (if g_backlight_path w \<noteq> []
               then do { file \<leftarrow> read_text E (g_backlight_path w); ret (brightness_on file) }
               else ret None);
     (case direct of
        Some on \<Rightarrow> ret on
      | None \<Rightarrow> do { p \<leftarrow> run_pipe E wakefulness_cmd; ret (wakefulness_on p) })
   }"

subsection \<open>activity\_state.cpp\<close>

definition focus_cmd :: string where
  "focus_cmd = ''dumpsys window | grep -m 1 '' @ quoted ''mCurrentFocus''"

definition heavy_apps :: "string list" where
  "heavy_apps =
     [''whatsapp'', ''facebook'', ''instagram'', ''tiktok'', ''snapchat'',
      ''telegram'', ''youtube'', ''camera'', ''pubg'', ''callofduty'',
      ''genshin'', ''discord'', ''netflix'', ''maps'', ''chrome'', ''viber'']"

definition IsPackageForeground :: "env \<Rightarrow> string \<Rightarrow> bool io" where
  "IsPackageForeground E package_name = do {
     pipe \<leftarrow> run_pipe E focus_cmd;
     ret (case pipe_line pipe of None \<Rightarrow> False | Some current_focus \<Rightarrow> contains current_focus package_name)
   }"

definition IsHeavyForegroundActivity :: "env \<Rightarrow> bool io" where
  "IsHeavyForegroundActivity E = do {
     on \<leftarrow> IsScreenOn E;
     if \<not> on then ret False
     else do {
       pipe \<leftarrow> run_pipe E focus_cmd;
       ret (case pipe_line pipe of
              None \<Rightarrow> False
            | Some current_focus \<Rightarrow> list_ex (contains current_focus) heavy_apps)
     }
   }"

subsection \<open>package\_manager.cpp\<close>

definition parse_package :: "string \<Rightarrow> PackageInfo option" where
  "parse_package line =
     (case read_token line of None \<Rightarrow> None | Some (name, s1) \<Rightarrow>
     (case read_int s1 of None \<Rightarrow> None | Some (uid, s2) \<Rightarrow>
     (case read_token s2 of None \<Rightarrow> None | Some (debuggable, s3) \<Rightarrow>
     (case read_token s3 of None \<Rightarrow> None | Some (data_dir, s4) \<Rightarrow>
        Some (default_PackageInfo\<lparr>pi_name := name, pi_uid := uid, pi_data_dir := data_dir,
              pi_is_system := sint uid < 10000\<rparr>)))))"

definition packages_of :: "string \<Rightarrow> PackageInfo list" where
  "packages_of text = concat (map (\<lambda>line. case parse_package line of
       None \<Rightarrow> [] | Some info \<Rightarrow> [info]) (getlines text))"

definition GetInstalledPackages :: "env \<Rightarrow> PackageInfo list io" where
  "GetInstalledPackages E = do {
     list_file \<leftarrow> read_text E ''/data/system/packages.list'';
     ret (case list_file of None \<Rightarrow> [] | Some text \<Rightarrow> packages_of text)
   }"

subsection \<open>binder\_interface.cpp\<close>

definition InitBinder :: "unit io" where
  "InitBinder = ret ()"

definition IsDeviceInteractive :: "bool io" where
  "IsDeviceInteractive = ret True"

subsection \<open>Frames\<close>

lemma DetectScreenNode_keeps [frame_intros]: "keeps sans_sense (DetectScreenNode E)"
  unfolding DetectScreenNode_def by (intro keep.p_rules frame_intros) simp_all

lemma IsScreenOn_keeps [frame_intros]: "keeps sans_sense (IsScreenOn E)"
  unfolding IsScreenOn_def by (intro keep.p_rules frame_intros)

lemma IsHeavyForegroundActivity_keeps [frame_intros]: "keeps sans_sense (IsHeavyForegroundActivity E)"
  unfolding IsHeavyForegroundActivity_def by (intro keep.p_rules frame_intros)

lemma GetInstalledPackages_keeps [frame_intros]: "keeps sans_sense (GetInstalledPackages E)"
  unfolding GetInstalledPackages_def by (intro keep.p_rules frame_intros)

subsection \<open>What the trace of a sensor can hold\<close>

text \<open>Sensors open pipes; they remove nothing and run no command for its effect.\<close>

definition sensor_effect :: "effect \<Rightarrow> bool" where
  "sensor_effect e \<longleftrightarrow> (case e of Pipe _ \<Rightarrow> True | IdleEval _ \<Rightarrow> True | _ \<Rightarrow> False)"

definition pipe_effect :: "effect \<Rightarrow> bool" where
  "pipe_effect e \<longleftrightarrow> (case e of Pipe _ \<Rightarrow> True | _ \<Rightarrow> False)"

abbreviation traces :: "(effect \<Rightarrow> bool) \<Rightarrow> 'a io \<Rightarrow> bool" where
  "traces P \<equiv> pres (grows trace P)"

named_theorems trace_intros \<open>what each operation may add to the trace\<close>

lemma same_trace_grows: "trace w' = trace w \<Longrightarrow> grows trace P w w'"
  unfolding grows_def by (rule exI [of _ "[]"]) simp

lemma keeps_log_traces: "keeps sans_log m \<Longrightarrow> traces P m"
  by (erule pres_mono) (auto dest: sans_log_fields(16) intro: same_trace_grows)

lemma Log_traces [trace_intros]: "traces P (Log E l m)"
  by (intro keeps_log_traces frame_intros)

lemma observe_traces [trace_intros]: "traces P (observe f)"
  by (simp add: pres_def same_trace_grows)

lemma emit_traces [trace_intros]: "P e \<Longrightarrow> traces P (emit e)"
  by (simp add: pres_def grows_def)

lemma mod_traces [trace_intros]: "(\<And>w. trace (f w) = trace w) \<Longrightarrow> traces P (modS f)"
  by (simp add: pres_def same_trace_grows)

lemma read_text_traces [trace_intros]: "traces P (read_text E p)"
  unfolding read_text_def by (intro trace_intros)

lemma run_pipe_traces [trace_intros]: "traces pipe_effect (run_pipe E p)"
  unfolding run_pipe_def by (intro grow.p_rules trace_intros) (simp add: pipe_effect_def)

lemma pipe_sensor [trace_intros]: "traces pipe_effect m \<Longrightarrow> traces sensor_effect m"
  by (erule pres_mono) (erule grows_mono, simp add: pipe_effect_def sensor_effect_def split: effect.splits)

lemma IsScreenOn_traces [trace_intros]: "traces pipe_effect (IsScreenOn E)"
  unfolding IsScreenOn_def DetectScreenNode_def
  by (intro grow.p_rules trace_intros) simp_all

lemma IsHeavyForegroundActivity_traces [trace_intros]:
  "traces pipe_effect (IsHeavyForegroundActivity E)"
  unfolding IsHeavyForegroundActivity_def by (intro grow.p_rules trace_intros)

end
