(* ===== verification/Floats.thy ===== *)
theory Floats
  imports Prelude Complex_Main "HOL-Library.Log_Nat"
begin

section \<open>Rounding to binary floating point\<close>

text \<open>
  IEEE rounding to nearest, ties to even, as a function on rationals: \<open>f32\<close> keeps 24 significant
  bits and the exponents of \<open>float\<close>, \<open>f64\<close> keeps 53 and those of \<open>double\<close>. Infinities and NaN
  are not represented; the values of the program stay in range. Rounding is monotone and does not
  pass a number that can be represented.
\<close>

subsection \<open>\<open>float\<close> and \<open>double\<close>\<close>

definition round_even :: "rat \<Rightarrow> int" where
  "round_even x =
     (let f = \<lfloor>x\<rfloor>; d = x - of_int f
      in if d < 1 / 2 then f else if d > 1 / 2 then f + 1 else if even f then f else f + 1)"

text \<open>The exponent \<open>e\<close> with \<open>2 ^ e \<le> x < 2 ^ (e + 1)\<close> of a positive number.\<close>

definition binary_exp :: "rat \<Rightarrow> int" where
  "binary_exp x =
     (let (p, q) = quotient_of x; k = int (floorlog 2 (nat p)) - int (floorlog 2 (nat q))
      in if 2 powi k \<le> x then k else k - 1)"

definition f32 :: "rat \<Rightarrow> rat" where
  "f32 x =
     (if x = 0 then 0
      else (let u = 2 powi (max (- 149) (binary_exp \<bar>x\<bar> - 23))
            in of_int (round_even (x / u)) * u))"

definition f64 :: "rat \<Rightarrow> rat" where
  "f64 x =
     (if x = 0 then 0
      else (let u = 2 powi (max (- 1074) (binary_exp \<bar>x\<bar> - 52))
            in of_int (round_even (x / u)) * u))"

subsection \<open>Rounding\<close>

lemma round_even_bounds: "of_int (round_even x) \<le> x + 1 / 2" "x - 1 / 2 \<le> of_int (round_even x)"
proof -
  have f: "of_int \<lfloor>x\<rfloor> \<le> x" "x < of_int \<lfloor>x\<rfloor> + 1" by linarith+
  show "of_int (round_even x) \<le> x + 1 / 2" "x - 1 / 2 \<le> of_int (round_even x)"
    using f unfolding round_even_def Let_def
    by (cases "x - of_int \<lfloor>x\<rfloor> < 1 / 2"; cases "x - of_int \<lfloor>x\<rfloor> > 1 / 2"; simp; linarith)+
qed

lemma powi_floorlog:
  assumes "0 < (n :: nat)"
  shows "2 powi (int (floorlog 2 n) - 1) \<le> (of_nat n :: rat)" "(of_nat n :: rat) < 2 powi (int (floorlog 2 n))"
proof -
  have l: "floorlog 2 n > 0" using assms by (simp add: floorlog_def)
  have "2 ^ (floorlog 2 n - 1) \<le> n" "n < 2 ^ floorlog 2 n"
    using floorlog_bounds [of n 2] assms by auto
  then have "(2 :: rat) ^ (floorlog 2 n - 1) \<le> of_nat n" "(of_nat n :: rat) < 2 ^ floorlog 2 n"
    by (metis of_nat_le_iff of_nat_numeral of_nat_power, metis of_nat_less_iff of_nat_numeral of_nat_power)
  moreover have "(2 :: rat) powi (int (floorlog 2 n) - 1) = 2 ^ (floorlog 2 n - 1)"
    using l by (simp add: power_int_def nat_diff_distrib)
  ultimately show "2 powi (int (floorlog 2 n) - 1) \<le> (of_nat n :: rat)"
    "(of_nat n :: rat) < 2 powi (int (floorlog 2 n))"
    by simp_all
qed

lemma binary_exp_le: assumes "0 < x" shows "2 powi binary_exp x \<le> x"
proof -
  obtain p q where pq: "quotient_of x = (p, q)" by fastforce
  have q: "0 < q" using quotient_of_denom_pos [OF pq] .
  have x: "x = of_int p / of_int q" using quotient_of_div [OF pq] .
  have p: "0 < p" using assms x q by (simp add: zero_less_divide_iff)
  let ?a = "int (floorlog 2 (nat p))" and ?b = "int (floorlog 2 (nat q))"
  have a: "2 powi (?a - 1) \<le> (of_int p :: rat)"
    using powi_floorlog(1) [of "nat p"] p by simp
  have b: "(of_int q :: rat) < 2 powi ?b"
    using powi_floorlog(2) [of "nat q"] q by simp
  have "?a - ?b - 1 = (?a - 1) - ?b" by simp
  then have "2 powi (?a - ?b - 1) = 2 powi (?a - 1) / (2 powi ?b :: rat)"
    using power_int_diff [of "2 :: rat" "?a - 1" ?b] by (simp only:) simp
  also have "\<dots> \<le> of_int p / of_int q"
    using a b p q by (intro frac_le) auto
  finally have "2 powi (?a - ?b - 1) \<le> x" using x by simp
  then show ?thesis using pq by (simp add: binary_exp_def Let_def)
qed

lemma round_even_int [simp]: "round_even (of_int n) = n"
  by (simp add: round_even_def)

lemma round_even_mono: "x \<le> y \<Longrightarrow> round_even x \<le> round_even y"
proof -
  assume xy: "x \<le> y"
  have f: "\<lfloor>x\<rfloor> \<le> \<lfloor>y\<rfloor>" using xy by (rule floor_mono)
  show ?thesis
  proof (cases "\<lfloor>x\<rfloor> = \<lfloor>y\<rfloor>")
    case True
    then show ?thesis using xy by (auto simp: round_even_def Let_def)
  next
    case False
    with f have "\<lfloor>x\<rfloor> + 1 \<le> \<lfloor>y\<rfloor>" by simp
    moreover have "round_even x \<le> \<lfloor>x\<rfloor> + 1" "\<lfloor>y\<rfloor> \<le> round_even y"
      by (auto simp: round_even_def Let_def)
    ultimately show ?thesis by linarith
  qed
qed

lemma binary_exp_less: assumes "0 < x" shows "x < 2 powi (binary_exp x + 1)"
proof -
  obtain p q where pq: "quotient_of x = (p, q)" by fastforce
  have q: "0 < q" using quotient_of_denom_pos [OF pq] .
  have x: "x = of_int p / of_int q" using quotient_of_div [OF pq] .
  have p: "0 < p" using assms x q by (simp add: zero_less_divide_iff)
  let ?a = "int (floorlog 2 (nat p))" and ?b = "int (floorlog 2 (nat q))"
  have a: "(of_int p :: rat) < 2 powi ?a" using powi_floorlog(2) [of "nat p"] p by simp
  have b: "2 powi (?b - 1) \<le> (of_int q :: rat)" using powi_floorlog(1) [of "nat q"] q by simp
  have "x < 2 powi ?a / 2 powi (?b - 1)"
    unfolding x using a b p by (intro frac_less) auto
  also have "2 powi ?a / 2 powi (?b - 1) = (2 powi (?a - ?b + 1) :: rat)"
    using power_int_diff [of "2 :: rat" ?a "?b - 1"] by (simp add: algebra_simps)
  finally show ?thesis using pq by (auto simp: binary_exp_def Let_def not_le)
qed

text \<open>A power of two that is not below the last place is a multiple of it.\<close>

lemma powi_multiple:
  assumes "m \<le> n" obtains k where "(2 :: rat) powi n / 2 powi m = of_int k"
proof -
  have "(2 :: rat) powi n / 2 powi m = of_int (2 ^ nat (n - m))"
    using assms power_int_diff [of "2 :: rat" n m] by (simp add: power_int_nonneg_exp)
  then show thesis by (rule that)
qed

text \<open>A number \<open>c\<close> that is a multiple of the last place is not passed by rounding.\<close>

lemma round_multiple:
  assumes "0 < u" "c / u = of_int k"
  shows "x \<le> c \<Longrightarrow> of_int (round_even (x / u)) * u \<le> c" "c \<le> x \<Longrightarrow> c \<le> of_int (round_even (x / u)) * u"
proof -
  have c: "c = of_int k * u" using assms by (simp add: field_simps)
  { assume "x \<le> c"
    then have "x / u \<le> of_int k" using assms by (metis divide_right_mono less_imp_le)
    from round_even_mono [OF this] show "of_int (round_even (x / u)) * u \<le> c"
      unfolding c using assms(1) by (intro mult_right_mono) auto }
  { assume "c \<le> x"
    then have "of_int k \<le> x / u" using assms by (metis divide_right_mono less_imp_le)
    from round_even_mono [OF this] show "c \<le> of_int (round_even (x / u)) * u"
      unfolding c using assms(1) by (intro mult_right_mono) auto }
qed

lemma f64_binade:
  assumes "0 < x" "- 1022 \<le> binary_exp x"
  shows "2 powi binary_exp x \<le> f64 x" "f64 x \<le> 2 powi (binary_exp x + 1)"
proof -
  let ?e = "binary_exp x"
  let ?u = "2 powi (?e - 52) :: rat"
  have f: "f64 x = of_int (round_even (x / ?u)) * ?u" using assms by (simp add: f64_def Let_def)
  have u: "0 < ?u" by simp
  obtain k1 where k1: "2 powi ?e / ?u = of_int k1" by (rule powi_multiple [of "?e - 52" ?e]) simp_all
  obtain k2 where k2: "2 powi (?e + 1) / ?u = of_int k2" by (rule powi_multiple [of "?e - 52" "?e + 1"]) simp_all
  show "2 powi ?e \<le> f64 x"
    unfolding f by (rule round_multiple(2) [OF u k1]) (rule binary_exp_le [OF assms(1)])
  show "f64 x \<le> 2 powi (?e + 1)"
    unfolding f by (rule round_multiple(1) [OF u k2]) (use binary_exp_less [OF assms(1)] in simp)
qed

lemma powi_less: "(2 :: rat) powi m < 2 powi n \<Longrightarrow> m < n"
  using power_int_increasing [of n m "2 :: rat"] by (force simp flip: not_le)

lemma binary_exp_mono: assumes "0 < x" "x \<le> y" shows "binary_exp x \<le> binary_exp y"
proof -
  have "2 powi binary_exp x \<le> x" using assms(1) by (rule binary_exp_le)
  also note assms(2)
  also have "y < 2 powi (binary_exp y + 1)" using assms by (intro binary_exp_less) simp
  finally have "binary_exp x < binary_exp y + 1" by (rule powi_less)
  then show ?thesis by simp
qed

lemma f64_mono: assumes "0 < x" "x \<le> y" "- 1022 \<le> binary_exp x" shows "f64 x \<le> f64 y"
proof (cases "binary_exp x = binary_exp y")
  case True
  let ?u = "2 powi (binary_exp y - 52) :: rat"
  have "f64 z = of_int (round_even (z / ?u)) * ?u" if "z \<in> {x, y}" for z
    using that assms True by (auto simp: f64_def Let_def)
  moreover have "x / ?u \<le> y / ?u" using assms(2) by (intro divide_right_mono) simp_all
  ultimately show ?thesis using round_even_mono by (simp add: mult_right_mono)
next
  case False
  with binary_exp_mono [OF assms(1,2)] have e: "binary_exp x + 1 \<le> binary_exp y" by simp
  have "f64 x \<le> 2 powi (binary_exp x + 1)" by (rule f64_binade) fact+
  also have "\<dots> \<le> 2 powi binary_exp y" using e by (rule power_int_increasing) simp
  also have "\<dots> \<le> f64 y" using assms e by (intro f64_binade) simp_all
  finally show ?thesis .
qed

lemma binary_exp_ge: assumes "2 powi n \<le> x" shows "n \<le> binary_exp x"
proof -
  have p: "(0 :: rat) < 2 powi n" by simp
  have x: "0 < x" using p assms by (rule less_le_trans)
  have "(2 :: rat) powi n < 2 powi (binary_exp x + 1)"
    using assms binary_exp_less [OF x] by (rule le_less_trans)
  then have "n < binary_exp x + 1" by (rule powi_less)
  then show ?thesis by simp
qed

lemma f64_1: "f64 1 = 1" and f64_100: "f64 100 = 100"
  by code_simp+

lemma f64_ge:
  assumes "2 powi n \<le> x" "- 1022 \<le> n"
  shows "2 powi n \<le> f64 x"
proof -
  have p: "(0 :: rat) < 2 powi n" by simp
  have x: "0 < x" using p assms(1) by (rule less_le_trans)
  have e: "n \<le> binary_exp x" using assms(1) by (rule binary_exp_ge)
  then have "(2 :: rat) powi n \<le> 2 powi binary_exp x" by (rule power_int_increasing) simp
  also have "\<dots> \<le> f64 x" using x e assms(2) by (intro f64_binade) simp_all
  finally show ?thesis .
qed

lemma f64_word:
  fixes n :: u64
  assumes "0 < n"
  shows "1 \<le> f64 (of_nat (unat n))" "f64 (of_nat (unat n)) \<le> 2 powi 64" "n \<le> d \<Longrightarrow> f64 (of_nat (unat n)) \<le> f64 (of_nat (unat d))"
proof -
  have n: "1 \<le> (of_nat (unat n) :: rat)"
  proof -
    have "1 \<le> unat n" using assms by (simp add: word_less_nat_alt)
    then show ?thesis by (metis of_nat_1 of_nat_mono)
  qed
  then show "1 \<le> f64 (of_nat (unat n))" using f64_ge [of 0] by simp
  have e: "0 \<le> binary_exp (of_nat (unat n))" using n by (intro binary_exp_ge) simp
  have "unat n < 2 ^ 64" using unsigned_less [of n, where ?'a = nat] by simp
  then have "(of_nat (unat n) :: rat) < of_nat (2 ^ 64)" by (rule of_nat_less_iff [THEN iffD2])
  then have "(of_nat (unat n) :: rat) < 2 powi 64" by simp
  with binary_exp_le [of "of_nat (unat n)"] n have "(2 :: rat) powi binary_exp (of_nat (unat n)) < 2 powi 64" by simp
  then have "binary_exp (of_nat (unat n)) < 64" by (rule powi_less)
  then have "binary_exp (of_nat (unat n)) + 1 \<le> 64" by simp
  then have "(2 :: rat) powi (binary_exp (of_nat (unat n)) + 1) \<le> 2 powi 64" by (rule power_int_increasing) simp
  moreover have "f64 (of_nat (unat n)) \<le> 2 powi (binary_exp (of_nat (unat n)) + 1)"
    using n e by (intro f64_binade) simp_all
  ultimately show "f64 (of_nat (unat n)) \<le> 2 powi 64" by (rule order.trans [rotated])
  show "f64 (of_nat (unat n)) \<le> f64 (of_nat (unat d))" if "n \<le> d"
  proof -
    have "unat n \<le> unat d" using that by (simp add: word_le_nat_alt)
    then have "(of_nat (unat n) :: rat) \<le> of_nat (unat d)" by (rule of_nat_mono)
    moreover have "(0 :: rat) < of_nat (unat n)" using n by linarith
    ultimately show ?thesis using e by (intro f64_mono) simp_all
  qed
qed

end
