(* ===== verification/Memory.thy ===== *)
theory Memory
  imports Device Floats
begin

section \<open>memory/: pressure, zram and available memory\<close>

text \<open>
  \<open>psi_monitor.cpp\<close> reads \<open>%f\<close> into a \<open>float\<close>: a decimal number is parsed exactly and
  rounded to 24 significant bits, to nearest, ties to even (\<open>f32\<close>). Infinities, NaN, hexadecimal
  numbers and values beyond the range of \<open>float\<close> are not part of the model; the kernel prints
  percentages with two decimals. \<open>memory_monitor.cpp\<close> and \<open>zram_monitor.cpp\<close> read integers.
\<close>

subsection \<open>Decimal numbers\<close>

definition read_float :: "string \<Rightarrow> rat option" where
  "read_float s =
     (let (neg, t) = read_sign (dropWhile is_space s);
          ip = takeWhile is_digit t;
          r = dropWhile is_digit t;
          (fp, r) = (case r of
              [] \<Rightarrow> ([], r)
            | c # r' \<Rightarrow> (if c = CHR ''.'' then (takeWhile is_digit r', dropWhile is_digit r') else ([], r)));
          ex = (case r of
              [] \<Rightarrow> 0
            | c # r' \<Rightarrow>
                (if c = CHR ''e'' \<or> c = CHR ''E''
                 then (let (eneg, e) = read_sign r'; ds = takeWhile is_digit e
                       in if eneg then - int (dec_val ds) else int (dec_val ds))
                 else 0));
          m = of_nat (dec_val (ip @ fp)) / 10 ^ length fp * 10 powi ex
      in if ip @ fp = [] then None else Some (f32 (if neg then - m else m)))"

text \<open>\<open>%.2f\<close> of a \<open>float\<close>\<close>

definition fmt_2f :: "rat \<Rightarrow> string" where
  "fmt_2f x =
     (let c = nat \<bar>round_even (x * 100)\<bar>
      in (if x < 0 then ''-'' else []) @ fmt_u (c div 100) @ ''.'' @
         [digit_char (c mod 100 div 10), digit_char (c mod 10)])"

subsection \<open>psi\_monitor.cpp\<close>

record PSIStats =
  some_avg10 :: rat
  full_avg10 :: rat
  is_supported :: bool

definition default_PSIStats :: PSIStats where
  "default_PSIStats = \<lparr>some_avg10 = 0, full_avg10 = 0, is_supported = False\<rparr>"

text \<open>\<open>sscanf(line, "<word> avg10=%f", &x)\<close>: the blank of the format matches any white space.\<close>

definition scan_avg10 :: "string \<Rightarrow> string \<Rightarrow> rat option" where
  "scan_avg10 word line =
     (if take (length word) line = word
      then (let r = dropWhile is_space (drop (length word) line)
            in if take 6 r = ''avg10='' then read_float (drop 6 r) else None)
      else None)"

definition psi_line :: "string \<Rightarrow> PSIStats \<Rightarrow> PSIStats" where
  "psi_line line stats =
     (if take 4 line = ''some'' then
        (case scan_avg10 ''some'' line of None \<Rightarrow> stats | Some x \<Rightarrow> stats\<lparr>some_avg10 := x\<rparr>)
      else if take 4 line = ''full'' then
        (case scan_avg10 ''full'' line of None \<Rightarrow> stats | Some x \<Rightarrow> stats\<lparr>full_avg10 := x\<rparr>)
      else stats)"

definition psi_of :: "string option \<Rightarrow> PSIStats" where
  "psi_of file = (case file of
       None \<Rightarrow> default_PSIStats
     | Some text \<Rightarrow> fold psi_line (getlines text) (default_PSIStats\<lparr>is_supported := True\<rparr>))"

definition GetMemoryPSI :: "env \<Rightarrow> PSIStats io" where
  "GetMemoryPSI E = do { psi_mem \<leftarrow> read_text E ''/proc/pressure/memory''; ret (psi_of psi_mem) }"

definition psi_safe :: "PSIStats \<Rightarrow> bool" where
  "psi_safe stats \<longleftrightarrow> \<not> is_supported stats \<or> \<not> some_avg10 stats > 15"

definition IsMemoryPressureSafe :: "env \<Rightarrow> bool io" where
  "IsMemoryPressureSafe E = do {
     stats \<leftarrow> GetMemoryPSI E;
     if \<not> is_supported stats then ret True
     else if some_avg10 stats > 15 then do {
       LOGD E (''Memory pressure high (some avg10 = '' @ fmt_2f (some_avg10 stats) @ '')'');
       ret False
     }
     else ret True
   }"

subsection \<open>memory\_monitor.cpp and zram\_monitor.cpp\<close>

text \<open>\<open>sscanf(line, "MemAvailable: %llu kB", &kb) == 1\<close>: the first number decides.\<close>

fun mem_available :: "string list \<Rightarrow> u64" where
  "mem_available [] = 0"
| "mem_available (line # lines) =
     (if take 13 line = ''MemAvailable:'' then
        (case scan_llu (drop 13 line) of Some kb \<Rightarrow> kb | None \<Rightarrow> mem_available lines)
      else mem_available lines)"

definition GetAvailableMemoryKB :: "env \<Rightarrow> u64 io" where
  "GetAvailableMemoryKB E = do {
     meminfo \<leftarrow> read_text E ''/proc/meminfo'';
     ret (case meminfo of None \<Rightarrow> 0 | Some text \<Rightarrow> mem_available (getlines text))
   }"

definition zram_of :: "string option \<Rightarrow> ZramStats" where
  "zram_of mm_stat =
     (let stats = \<lparr>mem_used_total = 0, orig_data_size = 0\<rparr> in
      case mm_stat of None \<Rightarrow> stats | Some text \<Rightarrow>
      (case read_u64 text of None \<Rightarrow> stats | Some (orig_data, s1) \<Rightarrow>
      (case read_u64 s1 of None \<Rightarrow> stats | Some (compr_data, s2) \<Rightarrow>
      (case read_u64 s2 of None \<Rightarrow> stats | Some (mem_used, _) \<Rightarrow>
         stats\<lparr>orig_data_size := orig_data, mem_used_total := mem_used\<rparr>))))"

definition GetZramStats :: "env \<Rightarrow> ZramStats io" where
  "GetZramStats E = do { mm_stat \<leftarrow> read_text E ''/sys/block/zram0/mm_stat''; ret (zram_of mm_stat) }"

subsection \<open>Frames and traces\<close>

lemma GetMemoryPSI_keeps [frame_intros]: "keeps sans_sense (GetMemoryPSI E)"
  unfolding GetMemoryPSI_def by (intro keep.p_rules frame_intros)

lemma IsMemoryPressureSafe_keeps [frame_intros]: "keeps sans_sense (IsMemoryPressureSafe E)"
  unfolding IsMemoryPressureSafe_def by (intro keep.p_rules frame_intros)

lemma IsMemoryPressureSafe_traces [trace_intros]: "traces P (IsMemoryPressureSafe E)"
  unfolding IsMemoryPressureSafe_def GetMemoryPSI_def by (intro grow.p_rules trace_intros)

lemma run_IsMemoryPressureSafe:
  "run_state (IsMemoryPressureSafe E) w = (r, w') \<Longrightarrow>
     r = psi_safe (psi_of (e_text E (tick w) ''/proc/pressure/memory'')) \<and> tick w' = Suc (tick w)"
  by (auto simp: IsMemoryPressureSafe_def GetMemoryPSI_def read_text_def psi_safe_def split: if_splits)

subsection \<open>The 15 percent limit\<close>

text \<open>Above 15.01 the rounded value is still above 15; up to 15 it stays there.\<close>

lemma f32_above: assumes "15.01 \<le> x" shows "15 < f32 x"
proof -
  let ?u = "2 powi (max (- 149) (binary_exp x - 23)) :: rat"
  have x: "0 < x" using assms by simp
  have u: "0 < ?u" by simp
  have "2 powi (binary_exp x - 23) = 2 powi binary_exp x / (2 ^ 23 :: rat)"
    by (simp add: power_int_diff)
  also have "\<dots> \<le> x / 2 ^ 23" using binary_exp_le [OF x] by (intro divide_right_mono) auto
  finally have u1: "2 powi (binary_exp x - 23) \<le> x / 2 ^ 23" .
  have "(2 :: rat) powi (- 149) \<le> 2 powi (- 23)" by (rule power_int_increasing) simp_all
  also have "(2 :: rat) powi (- 23) = 1 / 2 ^ 23" by (simp add: power_int_def power_divide)
  also have "(1 :: rat) / 2 ^ 23 \<le> x / 2 ^ 23" using assms by (intro divide_right_mono) simp_all
  finally have u2: "2 powi (- 149) \<le> x / 2 ^ 23" .
  have ux: "?u \<le> x / 2 ^ 23" using u1 u2 by (simp add: max_def)
  have "(x / ?u - 1 / 2) * ?u \<le> of_int (round_even (x / ?u)) * ?u"
    using round_even_bounds(2) [of "x / ?u"] u by (intro mult_right_mono) auto
  moreover have "(x / ?u - 1 / 2) * ?u = x - ?u / 2" using u by (simp add: field_simps)
  ultimately have "x - ?u / 2 \<le> f32 x" using x by (simp add: f32_def Let_def)
  then show ?thesis using ux assms by simp
qed

lemma f32_below: assumes "0 \<le> x" "x \<le> 15" shows "f32 x \<le> 15"
proof (cases "x = 0")
  case False
  with assms have x: "0 < x" by simp
  let ?e = "max (- 149) (binary_exp x - 23)"
  have "2 powi binary_exp x \<le> x" by (rule binary_exp_le [OF x])
  also have "\<dots> < (2 :: rat) powi 4" using assms by simp
  finally have "binary_exp x < 4" by (rule powi_less)
  then have "?e \<le> 0" by simp
  then obtain k where "1 / 2 powi ?e = (of_int k :: rat)" by (metis powi_multiple power_int_0_right)
  then have "15 / 2 powi ?e = (of_int (15 * k) :: rat)" by (simp add: field_simps)
  from round_multiple(1) [OF _ this assms(2)] show ?thesis using x by (simp add: f32_def Let_def)
qed (simp add: f32_def)

end
