(* ===== verification/Idle.thy ===== *)
theory Idle
  imports Memory
begin

section \<open>power/: battery, temperature and the idle verdict\<close>

text \<open>
  \<open>battery_monitor.cpp\<close> and \<open>thermal_monitor.cpp\<close> find their nodes once and fail safe;
  \<open>idle_detector.cpp\<close> combines the screen, the idle delay and the four gates. Every verdict
  is also recorded in the trace, so that a property can speak of the verdict before an effect.
\<close>

subsection \<open>battery\_monitor.cpp\<close>

definition battery_bases :: "string list" where
  "battery_bases =
     [''/sys/class/power_supply/battery'',
      ''/sys/class/power_supply/bms'',
      ''/sys/class/power_supply/main'']"

definition DetectBatteryNodes :: "env \<Rightarrow> unit io" where
  "DetectBatteryNodes E = do {
     r \<leftarrow> loop (\<lambda>base (_ :: unit). do {
         file \<leftarrow> read_text E (base @ ''/capacity'');
         if file \<noteq> None
         then do {
           modS (\<lambda>w. w\<lparr>g_battery_capacity_path := base @ ''/capacity''\<rparr>);
           modS (\<lambda>w. w\<lparr>g_battery_status_path := base @ ''/status''\<rparr>);
           LOGI E (''Battery nodes found at: '' @ base);
           ret (Inr ())
         }
         else ret (Inl ())
       }) battery_bases ();
     (case r of
        Inr _ \<Rightarrow> ret ()
      | Inl _ \<Rightarrow> LOGW E ''No known battery sysfs node found.'')
   }"

definition charging_status :: "string option \<Rightarrow> bool" where
  "charging_status stat_file = (case stat_file of
       None \<Rightarrow> False
     | Some text \<Rightarrow> (case read_token text of
           None \<Rightarrow> False
         | Some (status, _) \<Rightarrow> status = ''Charging'' \<or> status = ''Full''))"

definition read_capacity :: "string option \<Rightarrow> i32 option" where
  "read_capacity cap_file = (case cap_file of
       None \<Rightarrow> None | Some text \<Rightarrow> map_option fst (read_int text))"

definition IsBatterySafe :: "env \<Rightarrow> bool io" where
  "IsBatterySafe E = do {
     w \<leftarrow> getS;
     whenS (g_battery_capacity_path w = []) (DetectBatteryNodes E);
     w \<leftarrow> getS;
     if g_battery_capacity_path w = [] then ret False
     else do {
       stat_file \<leftarrow> read_text E (g_battery_status_path w);
       if charging_status stat_file then ret True
       else do {
         cap_file \<leftarrow> read_text E (g_battery_capacity_path w);
         (case read_capacity cap_file of
            None \<Rightarrow> ret False
          | Some capacity \<Rightarrow>
              if sint capacity > sint (minimum_battery_percent (g_config w)) then ret True
              else do {
                LOGW E (''Aborting: Battery at '' @ fmt_d (sint capacity) @
                        ''%, below minimum threshold of '' @
                        fmt_d (sint (minimum_battery_percent (g_config w))) @ ''%.'');
                ret False
              })
       }
     }
   }"

subsection \<open>thermal\_monitor.cpp\<close>

definition DetectThermalZones :: "env \<Rightarrow> unit io" where
  "DetectThermalZones E = do {
     dir \<leftarrow> observe (\<lambda>t. e_dir E t ''/sys/class/thermal'');
     (case dir of
        None \<Rightarrow> ret ()
      | Some names \<Rightarrow> do {
          (_ :: unit + unit) \<leftarrow> loop (\<lambda>name (_ :: unit).
              if str_find name ''thermal_zone'' = Some 0 then do {
                let path = ''/sys/class/thermal/'' @ name @ ''/temp'';
                file \<leftarrow> read_text E path;
                whenS (file \<noteq> None) (modS (\<lambda>w. w\<lparr>g_thermal_zones := g_thermal_zones w @ [path]\<rparr>));
                ret (Inl ())
              }
              else ret (Inl ())) names ();
          w \<leftarrow> getS;
          LOGI E (''Detected '' @ fmt_u (length (g_thermal_zones w)) @ '' thermal zones.'')
        })
   }"

text \<open>The reading of one zone in degrees: values above 1000 are millidegrees; C++ division.\<close>

definition zone_degrees :: "i32 \<Rightarrow> int" where
  "zone_degrees temp = (if sint temp > 1000 then sint temp div 1000 else sint temp)"

definition zone_hot :: "string option \<Rightarrow> bool" where
  "zone_hot file = (case read_capacity file of
       None \<Rightarrow> False | Some temp \<Rightarrow> zone_degrees temp > 45)"

definition IsThermalSafe :: "env \<Rightarrow> bool io" where
  "IsThermalSafe E = do {
     w \<leftarrow> getS;
     if \<not> thermal_protection (g_config w) then ret True
     else do {
       whenS (g_thermal_zones w = []) (DetectThermalZones E);
       w \<leftarrow> getS;
       if g_thermal_zones w = [] then ret False
       else do {
         r \<leftarrow> loop (\<lambda>path (_ :: unit). do {
             file \<leftarrow> read_text E path;
             ret (if zone_hot file then Inr () else Inl ())
           }) (g_thermal_zones w) ();
         ret (case r of Inr _ \<Rightarrow> False | Inl _ \<Rightarrow> True)
       }
     }
   }"

subsection \<open>idle\_detector.cpp\<close>

definition GetMonotonicTimeSec :: "env \<Rightarrow> u64 io" where
  "GetMonotonicTimeSec E = observe (\<lambda>t. tv_sec (e_mono E t))"

text \<open>
  \<open>uint64_t required = idle_delay_minutes * 60\<close>: an \<open>int\<close> product (taken to wrap; overflow
  is undefined in C++), sign-extended to 64 bits.
\<close>

definition required_delay :: "Configuration \<Rightarrow> u64" where
  "required_delay g = scast (idle_delay_minutes g * 60)"

definition gates :: "env \<Rightarrow> IdleState io" where
  "gates E = do {
     battery \<leftarrow> IsBatterySafe E;
     if \<not> battery then ret Is_SCREEN_OFF
     else do {
       thermal \<leftarrow> IsThermalSafe E;
       if \<not> thermal then ret Is_SCREEN_OFF
       else do {
         memory \<leftarrow> IsMemoryPressureSafe E;
         if \<not> memory then ret Is_SCREEN_OFF
         else do {
           heavy \<leftarrow> IsHeavyForegroundActivity E;
           if heavy then ret Is_SCREEN_OFF else ret Is_IDLE_CANDIDATE
         }
       }
     }
   }"

definition idle_verdict :: "env \<Rightarrow> IdleState io" where
  "idle_verdict E = do {
     on \<leftarrow> IsScreenOn E;
     if on then do {
       modS (\<lambda>w. w\<lparr>g_screen_off_time := 0\<rparr>);
       ret Is_NOT_IDLE
     }
     else do {
       now \<leftarrow> GetMonotonicTimeSec E;
       w \<leftarrow> getS;
       whenS (g_screen_off_time w = 0) (modS (\<lambda>w. w\<lparr>g_screen_off_time := now\<rparr>));
       w \<leftarrow> getS;
       if now - g_screen_off_time w < required_delay (g_config w)
       then ret Is_SCREEN_OFF
       else gates E
     }
   }"

definition EvaluateIdleState :: "env \<Rightarrow> IdleState io" where
  "EvaluateIdleState E = do { s \<leftarrow> idle_verdict E; emit (IdleEval s); ret s }"

subsection \<open>Frames and traces\<close>

lemma DetectBatteryNodes_keeps [frame_intros]: "keeps sans_sense (DetectBatteryNodes E)"
  unfolding DetectBatteryNodes_def by (intro keep.p_rules frame_intros) simp_all

lemma IsBatterySafe_keeps [frame_intros]: "keeps sans_sense (IsBatterySafe E)"
  unfolding IsBatterySafe_def by (intro keep.p_rules frame_intros)

lemma DetectThermalZones_keeps [frame_intros]: "keeps sans_sense (DetectThermalZones E)"
  unfolding DetectThermalZones_def Let_def by (intro keep.p_rules frame_intros) simp_all

lemma IsThermalSafe_keeps [frame_intros]: "keeps sans_sense (IsThermalSafe E)"
  unfolding IsThermalSafe_def by (intro keep.p_rules frame_intros)

lemma gates_keeps [frame_intros]: "keeps sans_sense (gates E)"
  unfolding gates_def by (intro keep.p_rules frame_intros)

lemma idle_verdict_keeps [frame_intros]: "keeps sans_sense (idle_verdict E)"
  unfolding idle_verdict_def GetMonotonicTimeSec_def
  by (intro keep.p_rules frame_intros) simp_all

lemma EvaluateIdleState_keeps [frame_intros]: "keeps sans_sense (EvaluateIdleState E)"
  unfolding EvaluateIdleState_def by (intro keep.p_rules frame_intros) simp_all

lemma IsBatterySafe_traces [trace_intros]: "traces P (IsBatterySafe E)"
  unfolding IsBatterySafe_def DetectBatteryNodes_def
  by (intro grow.p_rules trace_intros) simp_all

lemma IsThermalSafe_traces [trace_intros]: "traces P (IsThermalSafe E)"
  unfolding IsThermalSafe_def DetectThermalZones_def Let_def
  by (intro grow.p_rules trace_intros) simp_all

lemma idle_verdict_traces: "traces pipe_effect (idle_verdict E)"
  unfolding idle_verdict_def gates_def GetMonotonicTimeSec_def
  by (intro grow.p_rules trace_intros) simp_all

lemma EvaluateIdleState_traces [trace_intros]: "traces sensor_effect (EvaluateIdleState E)"
  unfolding EvaluateIdleState_def
  by (intro grow.p_rules trace_intros idle_verdict_traces) (simp add: sensor_effect_def)

end
