(* ===== verification/Diagnostics.thy ===== *)
theory Diagnostics
  imports Idle
begin

section \<open>diagnostics/diagnostics.cpp\<close>

text \<open>
  Accounting of the cleanup batches. The totals of a run are globals that only grow: no function
  of the program resets them.
\<close>

definition GetMonotonicTimeMs :: "env \<Rightarrow> u64 io" where
  "GetMonotonicTimeMs E = observe (\<lambda>t. timespec_ms (e_mono E t))"

definition statm_rss_kb :: "u64 \<Rightarrow> string option \<Rightarrow> u64 option" where
  "statm_rss_kb page_size statm =
     (case statm of None \<Rightarrow> None | Some text \<Rightarrow>
     (case read_u64 text of None \<Rightarrow> None | Some (vm_pages, s1) \<Rightarrow>
     (case read_u64 s1 of None \<Rightarrow> None | Some (resident, _) \<Rightarrow>
        Some ((resident * page_size) div 1024))))"

definition GetCurrentUsage :: "env \<Rightarrow> ResourceUsage io" where
  "GetCurrentUsage E = do {
     let usage = \<lparr>cpu_time_ms = 0, rss_kb = 0\<rparr>;
     ts \<leftarrow> observe (e_cpu E);
     let usage = (case ts of None \<Rightarrow> usage | Some ts \<Rightarrow> usage\<lparr>cpu_time_ms := timespec_ms ts\<rparr>);
     statm \<leftarrow> read_text E ''/proc/self/statm'';
     ret (case statm_rss_kb (e_page_size E) statm of
            None \<Rightarrow> usage | Some kb \<Rightarrow> usage\<lparr>rss_kb := kb\<rparr>)
   }"

definition CheckSelfLimits :: "env \<Rightarrow> bool io" where
  "CheckSelfLimits E = do {
     usage \<leftarrow> GetCurrentUsage E;
     if rss_kb usage > 50 * 1024 then do {
       LOGE E (''Self-Limit exceeded: RSS is '' @ fmt_u (unat (rss_kb usage)) @ '' KB. Aborting.'');
       ret False
     }
     else ret True
   }"

definition StartBatch :: "env \<Rightarrow> unit io" where
  "StartBatch E = do {
     now \<leftarrow> GetMonotonicTimeMs E;
     modS (\<lambda>w. w\<lparr>g_batch_start_time_ms := now\<rparr>)
   }"

text \<open>\<open>(uint64_t)config::g_config.max_cleanup_mb_per_run * 1024 * 1024\<close>: sign-extended first.\<close>

definition cleanup_limit :: "Configuration \<Rightarrow> u64" where
  "cleanup_limit g = scast (max_cleanup_mb_per_run g) * 1024 * 1024"

definition EndBatch :: "env \<Rightarrow> i32 \<Rightarrow> u64 \<Rightarrow> bool io" where
  "EndBatch E files_processed bytes_freed = do {
     end_time \<leftarrow> GetMonotonicTimeMs E;
     w \<leftarrow> getS;
     let batch_duration = end_time - g_batch_start_time_ms w;
     modS (\<lambda>w. w\<lparr>g_total_files_processed_run := g_total_files_processed_run w + files_processed\<rparr>);
     modS (\<lambda>w. w\<lparr>g_total_bytes_freed_run := g_total_bytes_freed_run w + bytes_freed\<rparr>);
     whenS (batch_duration > scast (max_batch_time_ms (g_config w)))
       (LOGW E (''Batch took too long: '' @ fmt_u (unat batch_duration) @ '' ms''));
     w \<leftarrow> getS;
     if g_total_bytes_freed_run w > cleanup_limit (g_config w) then do {
       LOGI E ''Reached max cleanup MB for this run.'';
       ret False
     }
     else CheckSelfLimits E
   }"

subsection \<open>Frames and traces\<close>

text \<open>\<open>sans_batch\<close>: \<open>sans_sense\<close> with the batch accounting blanked too.\<close>

definition sans_batch :: "world \<Rightarrow> world" where
  "sans_batch w = (sans_sense w)\<lparr>g_batch_start_time_ms := 0, g_total_files_processed_run := 0,
     g_total_bytes_freed_run := 0\<rparr>"

lemma keeps_sense_batch [frame_intros]: "keeps sans_sense m \<Longrightarrow> keeps sans_batch m"
  by (erule keeps_comp) (simp add: sans_batch_def)

lemma sans_batch_upd [simp]:
  "sans_batch (w\<lparr>g_batch_start_time_ms := a\<rparr>) = sans_batch w"
  "sans_batch (w\<lparr>g_total_files_processed_run := b\<rparr>) = sans_batch w"
  "sans_batch (w\<lparr>g_total_bytes_freed_run := c\<rparr>) = sans_batch w"
  by (simp_all add: sans_batch_def sans_sense_def)

lemma sans_batch_fields:
  assumes "sans_batch w' = sans_batch w"
  shows "g_config w' = g_config w" "g_current_state w' = g_current_state w"
    "g_states w' = g_states w" "fs w' = fs w" "disk w' = disk w"
  using assms by (simp_all add: sans_batch_def sans_sense_def) (cases w; cases w'; simp)+

lemma mod_batch_keeps: "(\<And>w. sans_batch (f w) = sans_batch w) \<Longrightarrow> keeps sans_batch (modS f)"
  by (simp add: pres_def)

lemma GetCurrentUsage_keeps [frame_intros]: "keeps sans_sense (GetCurrentUsage E)"
  unfolding GetCurrentUsage_def Let_def by (intro keep.p_rules frame_intros) simp

lemma CheckSelfLimits_keeps [frame_intros]: "keeps sans_sense (CheckSelfLimits E)"
  unfolding CheckSelfLimits_def by (intro keep.p_rules frame_intros)

lemma GetMonotonicTimeMs_keeps [frame_intros]: "keeps sans_sense (GetMonotonicTimeMs E)"
  unfolding GetMonotonicTimeMs_def by (intro frame_intros) simp

lemma StartBatch_keeps: "keeps sans_batch (StartBatch E)"
  unfolding StartBatch_def by (intro keep.p_rules keeps_sense_batch [OF GetMonotonicTimeMs_keeps] mod_batch_keeps) simp

lemma EndBatch_keeps: "keeps sans_batch (EndBatch E n b)"
  unfolding EndBatch_def Let_def
  by (intro keep.p_rules mod_batch_keeps keeps_sense_batch [OF GetMonotonicTimeMs_keeps]
      keeps_sense_batch [OF CheckSelfLimits_keeps] keeps_sense_batch [OF Log_keeps_sense]) simp_all

lemma CheckSelfLimits_traces [trace_intros]: "traces P (CheckSelfLimits E)"
  unfolding CheckSelfLimits_def GetCurrentUsage_def Let_def by (intro grow.p_rules trace_intros)

lemma StartBatch_traces [trace_intros]: "traces P (StartBatch E)"
  unfolding StartBatch_def GetMonotonicTimeMs_def by (intro grow.p_rules trace_intros) simp

lemma EndBatch_traces [trace_intros]: "traces P (EndBatch E n b)"
  unfolding EndBatch_def GetMonotonicTimeMs_def Let_def by (intro grow.p_rules trace_intros) simp_all

subsection \<open>The budget of a run\<close>

lemma run_EndBatch:
  obtains v where "tick v = Suc (tick w)" "g_config v = g_config w"
    "g_total_bytes_freed_run v = g_total_bytes_freed_run w + b"
    "run_state (EndBatch E n b) w =
      (if g_total_bytes_freed_run w + b > cleanup_limit (g_config w)
       then (False, logged E INFO ''Reached max cleanup MB for this run.'' v)
       else run_state (CheckSelfLimits E) v)"
proof
  let ?d = "timespec_ms (e_mono E (tick w)) - g_batch_start_time_ms w"
  let ?w1 = "w\<lparr>tick := Suc (tick w),
      g_total_files_processed_run := g_total_files_processed_run w + n,
      g_total_bytes_freed_run := g_total_bytes_freed_run w + b\<rparr>"
  let ?v = "snd (run_state (whenS (?d > scast (max_batch_time_ms (g_config w)))
      (LOGW E (''Batch took too long: '' @ fmt_u (unat ?d) @ '' ms''))) ?w1)"
  show "tick ?v = Suc (tick w)" "g_config ?v = g_config w"
    "g_total_bytes_freed_run ?v = g_total_bytes_freed_run w + b"
    by (simp_all add: run_whenS)
  show "run_state (EndBatch E n b) w =
      (if g_total_bytes_freed_run w + b > cleanup_limit (g_config w)
       then (False, logged E INFO ''Reached max cleanup MB for this run.'' ?v)
       else run_state (CheckSelfLimits E) ?v)"
    unfolding EndBatch_def GetMonotonicTimeMs_def Let_def
    by (simp add: run_whenS)
qed

end
