(* ===== verification/State_Storage.thy ===== *)
theory State_Storage
  imports Diagnostics "HOL-Library.AList" "HOL-Library.Multiset"
begin

unbundle bit_operations_syntax

section \<open>cache/state\_storage.cpp\<close>

text \<open>
  The per-package state, kept in a map from the 32-bit hash of the package name and saved as a
  24 byte header and an array of 40 byte records in the memory layout of the ARM64 build: little
  endian, four padding bytes after the hash. The hash map is an association list with distinct
  keys; the order in which it is iterated comes from the environment, as do the padding bytes.
  Allocation of the record array is taken to succeed.
\<close>

definition STATE_FILE :: string where
  "STATE_FILE = ''/data/adb/freshcore/state.bin''"

definition STATE_FILE_TMP :: string where
  "STATE_FILE_TMP = ''/data/adb/freshcore/state.tmp''"

definition STATE_MAGIC :: u32 where
  "STATE_MAGIC = 0x46525348"

definition STATE_VERSION :: u32 where
  "STATE_VERSION = 1"

record StateHeader =
  sh_magic :: u32
  sh_version :: u32
  sh_timestamp :: u64
  sh_entry_count :: u32
  sh_checksum :: u32

text \<open>FNV-1a\<close>

definition HashPackageName :: "string \<Rightarrow> u32" where
  "HashPackageName pkg_name = fold (\<lambda>c hash. (hash XOR of_char c) * 16777619) pkg_name 2166136261"

subsection \<open>Object representation\<close>

definition pad4 :: "u8 list \<Rightarrow> u8 list" where
  "pad4 bs = take 4 (bs @ replicate 4 0)"

definition state_bytes :: "u8 list \<Rightarrow> PackageState \<Rightarrow> u8 list" where
  "state_bytes pad s =
     le_bytes 4 (unat (ps_hash s)) @ pad4 pad @
     le_bytes 8 (unat (ps_last_scan_ms s)) @ le_bytes 8 (unat (ps_last_cleanup_ms s)) @
     le_bytes 8 (unat (ps_last_size_bytes s)) @
     le_bytes 4 (unat (ps_cleanup_count s)) @ le_bytes 4 (unat (ps_growth_rate s))"

definition sizeof_PackageState :: nat where
  "sizeof_PackageState = 40"

fun vector_bytes :: "(nat \<Rightarrow> u8 list) \<Rightarrow> nat \<Rightarrow> PackageState list \<Rightarrow> u8 list" where
  "vector_bytes pad i [] = []"
| "vector_bytes pad i (s # ss) = state_bytes (pad i) s @ vector_bytes pad (Suc i) ss"

definition bytes_state :: "u8 list \<Rightarrow> PackageState" where
  "bytes_state bs = \<lparr>
     ps_hash = of_nat (le_val (take 4 bs)),
     ps_last_scan_ms = of_nat (le_val (take 8 (drop 8 bs))),
     ps_last_cleanup_ms = of_nat (le_val (take 8 (drop 16 bs))),
     ps_last_size_bytes = of_nat (le_val (take 8 (drop 24 bs))),
     ps_cleanup_count = of_nat (le_val (take 4 (drop 32 bs))),
     ps_growth_rate = of_nat (le_val (take 4 (drop 36 bs)))\<rparr>"

fun bytes_vector :: "nat \<Rightarrow> u8 list \<Rightarrow> PackageState list" where
  "bytes_vector 0 bs = []"
| "bytes_vector (Suc n) bs =
     bytes_state (take sizeof_PackageState bs) # bytes_vector n (drop sizeof_PackageState bs)"

definition header_bytes :: "StateHeader \<Rightarrow> u8 list" where
  "header_bytes h =
     le_bytes 4 (unat (sh_magic h)) @ le_bytes 4 (unat (sh_version h)) @
     le_bytes 8 (unat (sh_timestamp h)) @ le_bytes 4 (unat (sh_entry_count h)) @
     le_bytes 4 (unat (sh_checksum h))"

definition bytes_header :: "u8 list \<Rightarrow> StateHeader" where
  "bytes_header bs = \<lparr>
     sh_magic = of_nat (le_val (take 4 bs)),
     sh_version = of_nat (le_val (take 4 (drop 4 bs))),
     sh_timestamp = of_nat (le_val (take 8 (drop 8 bs))),
     sh_entry_count = of_nat (le_val (take 4 (drop 16 bs))),
     sh_checksum = of_nat (le_val (take 4 (drop 20 bs)))\<rparr>"

definition sizeof_StateHeader :: nat where
  "sizeof_StateHeader = 24"

text \<open>The sum of all bytes of the array, over its object representation.\<close>

definition CalculateChecksum :: "u8 list \<Rightarrow> u32" where
  "CalculateChecksum bytes = fold (\<lambda>b sum. sum + ucast b) bytes 0"

subsection \<open>Operations\<close>

text \<open>\<open>None\<close>: the file cannot be opened.\<close>

definition read_disk :: "env \<Rightarrow> string \<Rightarrow> u8 list option io" where
  "read_disk E p = do { bad \<leftarrow> faulty E p; w \<leftarrow> getS; ret (if bad then None else disk w p) }"

definition InitializeStateStorage :: "env \<Rightarrow> unit io" where
  "InitializeStateStorage E = do {
     file \<leftarrow> read_disk E STATE_FILE;
     (case file of
        None \<Rightarrow> LOGD E ''No existing state file found.''
      | Some bs \<Rightarrow>
          if length bs < sizeof_StateHeader then ret ()
          else do {
            let header = bytes_header bs;
            if sh_magic header \<noteq> STATE_MAGIC \<or> sh_version header \<noteq> STATE_VERSION
            then LOGW E ''State file magic/version mismatch, ignoring.''
            else do {
              let n = unat (sh_entry_count header);
              let rest = drop sizeof_StateHeader bs;
              if length rest < n * sizeof_PackageState then LOGW E ''State file truncated.''
              else do {
                let payload = take (n * sizeof_PackageState) rest;
                if CalculateChecksum payload \<noteq> sh_checksum header
                then LOGE E ''State file checksum mismatch! Corruption detected.''
                else do {
                  modS (\<lambda>w. w\<lparr>g_states :=
                    fold (\<lambda>st m. AList.update (ps_hash st) st m) (bytes_vector n payload) (g_states w)\<rparr>);
                  LOGI E (''Loaded '' @ fmt_u n @ '' package states.'')
                }
              }
            }
          })
   }"

definition default_state :: "u32 \<Rightarrow> PackageState" where
  "default_state hash = \<lparr>ps_hash = hash, ps_last_scan_ms = 0, ps_last_cleanup_ms = 0,
     ps_last_size_bytes = 0, ps_cleanup_count = 0, ps_growth_rate = 0\<rparr>"

definition state_of :: "(u32 \<times> PackageState) list \<Rightarrow> string \<Rightarrow> PackageState" where
  "state_of m pkg_name =
     (let hash = HashPackageName pkg_name
      in case map_of m hash of Some st \<Rightarrow> st | None \<Rightarrow> default_state hash)"

definition GetPackageState :: "string \<Rightarrow> PackageState io" where
  "GetPackageState pkg_name = do { w \<leftarrow> getS; ret (state_of (g_states w) pkg_name) }"

definition UpdatePackageState :: "string \<Rightarrow> PackageState \<Rightarrow> unit io" where
  "UpdatePackageState pkg_name state =
     (let hash = HashPackageName pkg_name
      in modS (\<lambda>w. w\<lparr>g_states := AList.update hash state (g_states w)\<rparr>))"

definition save_image :: "env \<Rightarrow> u64 \<Rightarrow> (u32 \<times> PackageState) list \<Rightarrow> u8 list" where
  "save_image E timestamp states =
     (let state_vec = map snd (e_map_order E states);
          payload = vector_bytes (e_padding E) 0 state_vec;
          header = \<lparr>sh_magic = STATE_MAGIC, sh_version = STATE_VERSION, sh_timestamp = timestamp,
                    sh_entry_count = of_nat (length state_vec),
                    sh_checksum = CalculateChecksum payload\<rparr>
      in header_bytes header @ payload)"

text \<open>The results of \<open>fwrite\<close>, \<open>fflush\<close> and \<open>fsync\<close> are not looked at: what reached the disk is renamed.\<close>

definition SaveStateAtomic :: "env \<Rightarrow> unit io" where
  "SaveStateAtomic E = do {
     ts \<leftarrow> observe (e_real E);
     w \<leftarrow> getS;
     let image = save_image E (timespec_ms ts) (g_states w);
     fopen_bad \<leftarrow> faulty E STATE_FILE_TMP;
     if fopen_bad then LOGE E (''Failed to open '' @ STATE_FILE_TMP @ '' for writing.'')
     else do {
       n \<leftarrow> observe (\<lambda>t. e_written E t (length image));
       modS (\<lambda>w. w\<lparr>disk := (disk w)(STATE_FILE_TMP \<mapsto> take n image)\<rparr>);
       rename_bad \<leftarrow> faulty E STATE_FILE;
       if rename_bad then LOGE E ''Failed to rename temporary state file.''
       else modS (\<lambda>w. w\<lparr>disk := (disk w)(STATE_FILE := disk w STATE_FILE_TMP, STATE_FILE_TMP := None)\<rparr>)
     }
   }"

subsection \<open>Frames\<close>

text \<open>\<open>sans_state\<close>: \<open>sans_sense\<close> with the package states and their files blanked too.\<close>

definition sans_state :: "world \<Rightarrow> world" where
  "sans_state w = (sans_sense w)\<lparr>g_states := [], disk := Map.empty\<rparr>"

lemma keeps_sense_state: "keeps sans_sense m \<Longrightarrow> keeps sans_state m"
  by (erule keeps_comp) (simp add: sans_state_def)

lemma sans_state_upd [simp]:
  "sans_state (w\<lparr>g_states := a\<rparr>) = sans_state w" "sans_state (w\<lparr>disk := b\<rparr>) = sans_state w"
  by (simp_all add: sans_state_def sans_sense_def)

lemma sans_state_fields:
  assumes "sans_state w' = sans_state w"
  shows "g_config w' = g_config w" "g_current_state w' = g_current_state w" "fs w' = fs w"
    "g_total_bytes_freed_run w' = g_total_bytes_freed_run w"
  using assms by (simp_all add: sans_state_def sans_sense_def) (cases w; cases w'; simp)+

lemma mod_state_keeps: "(\<And>w. sans_state (f w) = sans_state w) \<Longrightarrow> keeps sans_state (modS f)"
  by (simp add: pres_def)

lemma GetPackageState_keeps [frame_intros]: "keeps f (GetPackageState p)"
  unfolding GetPackageState_def by (intro keep.p_rules)

lemma UpdatePackageState_keeps: "keeps sans_state (UpdatePackageState p s)"
  unfolding UpdatePackageState_def Let_def by (intro mod_state_keeps) simp

lemma SaveStateAtomic_keeps: "keeps sans_state (SaveStateAtomic E)"
  unfolding SaveStateAtomic_def Let_def
  by (intro keep.p_rules mod_state_keeps keeps_sense_state [OF Log_keeps_sense]
      keeps_sense_state [OF file_reads_keep(1)] keeps_sense_state [OF observe_keeps]) simp_all

lemma GetPackageState_traces [trace_intros]: "traces P (GetPackageState p)"
  unfolding GetPackageState_def by (intro grow.p_rules)

lemma UpdatePackageState_traces [trace_intros]: "traces P (UpdatePackageState p s)"
  unfolding UpdatePackageState_def Let_def by (intro trace_intros) simp

lemma faulty_traces [trace_intros]: "traces P (faulty E p)"
  unfolding faulty_def by (intro trace_intros)

lemma SaveStateAtomic_traces [trace_intros]: "traces P (SaveStateAtomic E)"
  unfolding SaveStateAtomic_def Let_def by (intro grow.p_rules trace_intros) simp_all

subsection \<open>Codec laws\<close>

lemma length_pad4 [simp]: "length (pad4 bs) = 4"
  by (simp add: pad4_def)

lemma length_state_bytes [simp]: "length (state_bytes pad s) = 40"
  by (simp add: state_bytes_def)

lemma length_header_bytes [simp]: "length (header_bytes h) = 24"
  by (simp add: header_bytes_def)

lemma length_vector_bytes [simp]: "length (vector_bytes pad i ss) = 40 * length ss"
  by (induction ss arbitrary: i) simp_all

lemma bytes_state_bytes: "bytes_state (state_bytes pad s) = s"
  by (intro PackageState.equality)
    (simp_all add: bytes_state_def state_bytes_def le_val_u32 le_val_u64)

lemma bytes_header_bytes: "bytes_header (header_bytes h @ rest) = h"
  by (intro StateHeader.equality)
    (simp_all add: bytes_header_def header_bytes_def le_val_u32 le_val_u64)

lemma bytes_vector_bytes: "bytes_vector (length ss) (vector_bytes pad i ss) = ss"
  by (induction ss arbitrary: i) (simp_all add: sizeof_PackageState_def bytes_state_bytes)

subsection \<open>The map\<close>

definition keyed :: "(u32 \<times> PackageState) list \<Rightarrow> bool" where
  "keyed m \<longleftrightarrow> distinct (map fst m) \<and> (\<forall>(k, s)\<in>set m. ps_hash s = k)"

lemma keyed_Nil [simp]: "keyed []"
  by (simp add: keyed_def)

lemma set_update_cases: "x \<in> set (AList.update k v m) \<Longrightarrow> x = (k, v) \<or> x \<in> set m"
  by (induction m) (auto split: if_splits)

lemma keyed_update: "keyed m \<Longrightarrow> ps_hash s = k \<Longrightarrow> keyed (AList.update k s m)"
  unfolding keyed_def by (auto simp: distinct_update dest!: set_update_cases)

lemma ps_hash_state_of: "keyed m \<Longrightarrow> ps_hash (state_of m pkg) = HashPackageName pkg"
  by (auto simp: state_of_def default_state_def keyed_def Let_def split: option.splits dest: map_of_SomeD)

lemma state_of_update [simp]:
  "HashPackageName p = h \<Longrightarrow> state_of (AList.update h s m) p = s"
  by (simp add: state_of_def update_conv Let_def)

lemma state_of_update_other [simp]:
  "HashPackageName q \<noteq> h \<Longrightarrow> state_of (AList.update h s m) q = state_of m q"
  by (simp add: state_of_def update_conv Let_def)

lemma map_of_fold_update:
  "distinct (map ps_hash ss) \<Longrightarrow>
   map_of (fold (\<lambda>st m. AList.update (ps_hash st) st m) ss m) k =
     (case map_of (map (\<lambda>s. (ps_hash s, s)) ss) k of Some s \<Rightarrow> Some s | None \<Rightarrow> map_of m k)"
proof (induction ss arbitrary: m)
  case (Cons s ss)
  have "map_of (map (\<lambda>s. (ps_hash s, s)) ss) (ps_hash s) = None"
    using Cons.prems by (simp add: map_of_eq_None_iff image_image)
  then show ?case
    using Cons by (cases "k = ps_hash s") (simp_all add: update_conv split: option.split)
qed simp

lemma keyed_pairs: "keyed m \<Longrightarrow> map (\<lambda>s. (ps_hash s, s)) (map snd m) = m"
  by (induction m) (auto simp: keyed_def)

lemma keyed_perm: "keyed m \<Longrightarrow> mset m' = mset m \<Longrightarrow> keyed m' \<and> map_of m' = map_of m"
proof -
  assume m: "keyed m" and p: "mset m' = mset m"
  have "distinct (map fst m')"
    using m p unfolding keyed_def by (metis mset_map mset_eq_imp_distinct_iff)
  moreover have "set m' = set m" using p by (rule mset_eq_setD)
  ultimately show ?thesis
    using m by (metis (no_types, lifting) keyed_def map_of_inject_set)
qed

end
