(* ===== verification/Scanner.thy ===== *)
theory Scanner
  imports State_Storage
begin

section \<open>cache/cache\_policy.cpp and cache/package\_scanner.cpp\<close>

text \<open>
  Which directories count as caches, and how large they are. \<open>dir_size\<close> is the recursion of
  \<open>GetDirectorySize\<close> with fuel (\<open>None\<close> when it runs out); \<open>GetDirectorySize\<close> gives it
  one unit more than the height of the tree, and \<open>dir_size_enough\<close> shows that this never
  runs out on a well-formed tree.
\<close>

subsection \<open>Policy\<close>

definition allowed_name :: "string \<Rightarrow> bool" where
  "allowed_name dir_name \<longleftrightarrow> dir_name = ''cache'' \<or> dir_name = ''code_cache''"

definition IsValidCachePath :: "env \<Rightarrow> string \<Rightarrow> string \<Rightarrow> bool io" where
  "IsValidCachePath E path package_data_dir = do {
     under \<leftarrow> IsPathUnderRoot E path package_data_dir;
     if \<not> under then ret False
     else do {
       canon \<leftarrow> GetCanonicalPath E path;
       ret (if canon = [] then False
            else (case find_last_of canon (CHR ''/'') of
                None \<Rightarrow> False
              | Some last_slash \<Rightarrow> allowed_name (drop (last_slash + 1) canon)))
     }
   }"

text \<open>\<open>(unsigned long long)config::g_config.cache_threshold_mb * 1024 * 1024\<close>\<close>

definition threshold_bytes :: "Configuration \<Rightarrow> u64" where
  "threshold_bytes g = scast (cache_threshold_mb g) * 1024 * 1024"

definition ShouldCleanCache :: "Configuration \<Rightarrow> u64 \<Rightarrow> bool" where
  "ShouldCleanCache g cache_size_bytes \<longleftrightarrow> cache_size_bytes \<ge> threshold_bytes g"

subsection \<open>Sizes\<close>

definition size_step ::
  "env \<Rightarrow> (string \<Rightarrow> u64 option io) \<Rightarrow> string \<Rightarrow> string \<Rightarrow> u64 \<Rightarrow> (u64 + unit) io" where
  "size_step E rec dir_path child acc = do {
     let child_path = dir_path @ ''/'' @ child;
     st \<leftarrow> sys_lstat E child_path;
     (case st of
        None \<Rightarrow> ret (Inl acc)
      | Some k \<Rightarrow>
          if k = KDir then do {
            r \<leftarrow> rec child_path;
            ret (case r of None \<Rightarrow> Inr () | Some n \<Rightarrow> Inl (acc + n))
          }
          else ret (Inl (acc + st_size k)))
   }"

primrec dir_size :: "env \<Rightarrow> nat \<Rightarrow> string \<Rightarrow> u64 option io" where
  "dir_size E 0 dir_path = ret None"
| "dir_size E (Suc fuel) dir_path = do {
     children \<leftarrow> GetDirectoryChildren E dir_path;
     (case children of
        None \<Rightarrow> ret (Some 0)
      | Some names \<Rightarrow> do {
          r \<leftarrow> loop (size_step E (dir_size E fuel) dir_path) names 0;
          ret (case r of Inl acc \<Rightarrow> Some acc | Inr _ \<Rightarrow> None)
        })
   }"

definition GetDirectorySize :: "env \<Rightarrow> string \<Rightarrow> u64 io" where
  "GetDirectorySize E dir_path = do {
     w \<leftarrow> getS;
     r \<leftarrow> dir_size E (Suc (height (fs w))) dir_path;
     ret (case r of Some n \<Rightarrow> n | None \<Rightarrow> 0)
   }"

definition CalculateCacheSize :: "env \<Rightarrow> CacheDirInfo \<Rightarrow> CacheDirInfo io" where
  "CalculateCacheSize E info =
     (if \<not> cd_size_calculated info then do {
        n \<leftarrow> GetDirectorySize E (cd_path info);
        ret (info\<lparr>cd_size_bytes := n, cd_size_calculated := True\<rparr>)
      }
      else ret info)"

subsection \<open>Scanning a package\<close>

definition external_root :: string where
  "external_root = ''/sdcard/Android/data/''"

definition cache_candidates :: "Configuration \<Rightarrow> PackageInfo \<Rightarrow> string list" where
  "cache_candidates g pkg =
     [pi_data_dir pkg @ ''/cache'', pi_data_dir pkg @ ''/code_cache''] @
     (if include_external_cache g then [external_root @ pi_name pkg @ ''/cache''] else [])"

definition scan_step :: "env \<Rightarrow> PackageInfo \<Rightarrow> string \<Rightarrow> CacheDirInfo list \<Rightarrow> (CacheDirInfo list + unit) io" where
  "scan_step E pkg cand cache_dirs = do {
     valid \<leftarrow> IsValidCachePath E cand (pi_data_dir pkg);
     if valid \<or> str_find cand external_root = Some 0 then do {
       st \<leftarrow> sys_lstat E cand;
       ret (Inl (if st = Some KDir
            then cache_dirs @ [\<lparr>cd_path = cand, cd_pkg_name = pi_name pkg,
                                cd_size_bytes = 0, cd_size_calculated = False\<rparr>]
            else cache_dirs))
     }
     else ret (Inl cache_dirs)
   }"

definition ScanPackageCache :: "env \<Rightarrow> PackageInfo \<Rightarrow> CacheDirInfo list io" where
  "ScanPackageCache E pkg = do {
     w \<leftarrow> getS;
     if pi_is_system pkg \<and> \<not> include_system_apps (g_config w) then ret []
     else if \<not> pi_is_system pkg \<and> \<not> include_user_apps (g_config w) then ret []
     else do {
       r \<leftarrow> loop (scan_step E pkg) (cache_candidates (g_config w) pkg) [];
       ret (case r of Inl cache_dirs \<Rightarrow> cache_dirs | Inr _ \<Rightarrow> [])
     }
   }"

subsection \<open>Frames and traces\<close>

lemma IsValidCachePath_keeps [frame_intros]: "keeps sans_sense (IsValidCachePath E p d)"
  unfolding IsValidCachePath_def by (intro keep.p_rules frame_intros)

lemma size_step_keeps:
  "(\<And>p. keeps sans_sense (rec p)) \<Longrightarrow> keeps sans_sense (size_step E rec d c n)"
  unfolding size_step_def Let_def by (intro keep.p_rules frame_intros)

lemma dir_size_keeps [frame_intros]: "keeps sans_sense (dir_size E n p)"
proof (induction n arbitrary: p)
  case 0
  show ?case by (simp add: keep.p_return)
next
  case (Suc n)
  then show ?case
    unfolding dir_size.simps by (intro keep.p_rules frame_intros size_step_keeps)
qed

lemma GetDirectorySize_keeps [frame_intros]: "keeps sans_sense (GetDirectorySize E p)"
  unfolding GetDirectorySize_def by (intro keep.p_rules frame_intros)

lemma CalculateCacheSize_keeps [frame_intros]: "keeps sans_sense (CalculateCacheSize E i)"
  unfolding CalculateCacheSize_def by (intro keep.p_rules frame_intros)

lemma ScanPackageCache_keeps [frame_intros]: "keeps sans_sense (ScanPackageCache E pkg)"
  unfolding ScanPackageCache_def scan_step_def by (intro keep.p_rules frame_intros)

lemma file_reads_traces [trace_intros]:
  "traces P (sys_realpath E p)" "traces P (sys_readdir E p)" "traces P (sys_lstat E p)"
  "traces P (GetCanonicalPath E p)" "traces P (GetDirectoryChildren E p)" "traces P (IsPathUnderRoot E p r)"
  unfolding IsPathUnderRoot_def GetCanonicalPath_def GetDirectoryChildren_def file_call_defs
  by (intro grow.p_rules trace_intros)+

lemma dir_size_traces [trace_intros]: "traces P (dir_size E n p)"
proof (induction n arbitrary: p)
  case 0
  show ?case by (simp add: grow.p_return)
next
  case (Suc n)
  then show ?case
    unfolding dir_size.simps size_step_def Let_def by (intro grow.p_rules trace_intros)
qed

lemma CalculateCacheSize_traces [trace_intros]: "traces P (CalculateCacheSize E i)"
  unfolding CalculateCacheSize_def GetDirectorySize_def by (intro grow.p_rules trace_intros)

lemma ScanPackageCache_traces [trace_intros]: "traces P (ScanPackageCache E pkg)"
  unfolding ScanPackageCache_def scan_step_def IsValidCachePath_def
  by (intro grow.p_rules trace_intros)

subsection \<open>Reading a directory\<close>

lemma run_GetDirectoryChildren:
  assumes "run_state (GetDirectoryChildren E p) w = (Some names, w')" "wf_tree (fs w)"
  shows "fs w' = fs w \<and> (\<exists>l. resolve (fs w) False p = Some l \<and> kind_at (fs w) l = Some KDir \<and>
    child_names (fs w) l = Some names \<and> (\<forall>c\<in>set names. plain_name c \<and> kind_at (fs w) (l @ [c]) \<noteq> None))"
proof -
  have w: "fs w' = fs w" using GetDirectoryChildren_keeps assms(1) by (rule keeps_fs)
  obtain l ns where l: "resolve (fs w) False p = Some l" "child_names (fs w) l = Some ns"
    and names: "names = filter (\<lambda>n. n \<noteq> ''.'' \<and> n \<noteq> ''..'') ns"
    using assms(1) by (auto simp: GetDirectoryChildren_def sys_readdir_def faulty_def
        split: option.splits if_splits)
  have kd: "kind_at (fs w) l = Some KDir" using l(2) child_names_iff [of "fs w" l] by simp
  have pl: "plain_name c \<and> kind_at (fs w) (l @ [c]) \<noteq> None" if "c \<in> set ns" for c
  proof -
    have "kind_at (fs w) (l @ [c]) \<noteq> None" using that child_names_mem [OF l(2)] by blast
    moreover from this have "list_all plain_name (l @ [c])"
      using assms(2) unfolding wf_tree_def by blast
    ultimately show ?thesis by simp
  qed
  have "filter (\<lambda>n. n \<noteq> ''.'' \<and> n \<noteq> ''..'') ns = ns"
    using pl by (intro filter_True) (auto simp: plain_name_def)
  then show ?thesis using w l kd pl names by auto
qed

lemma run_lstat:
  assumes "run_state (sys_lstat E p) w = (Some k, w')"
  shows "\<exists>l. resolve (fs w) False p = Some l \<and> kind_at (fs w) l = Some k"
  using assms unfolding sys_lstat_def faulty_def by (auto split: option.splits if_splits)

subsection \<open>The fuel of the size recursion is enough\<close>

text \<open>
  \<open>deep_enough t n p\<close>: below the location \<open>p\<close> names there are fewer than \<open>n\<close> levels.
\<close>

definition deep_enough :: "node \<Rightarrow> nat \<Rightarrow> string \<Rightarrow> bool" where
  "deep_enough t n p \<longleftrightarrow> 0 < n \<and>
     (\<forall>l m. resolve t False p = Some l \<longrightarrow> kind_at t (l @ m) \<noteq> None \<longrightarrow> length m < n)"

lemma deep_enough_height: "deep_enough t (Suc (height t)) p"
  unfolding deep_enough_def using kind_at_height by fastforce

lemma deep_enough_below: "deep_enough t n p \<Longrightarrow> tree_below t' t \<Longrightarrow> deep_enough t' n p"
  unfolding deep_enough_def tree_below_def [of t' t]
  by (metis resolve_mono tree_below_def)

lemma deep_enough_child:
  assumes "deep_enough t (Suc n) p" "resolve t False p = Some l" "kind_at t l = Some KDir"
    "plain_name c" "kind_at t (l @ [c]) = Some k"
  shows "deep_enough t n (p @ ''/'' @ c)"
proof -
  have d: "length m < Suc n" if "kind_at t (l @ m) \<noteq> None" for m
    using assms(1,2) that by (auto simp: deep_enough_def)
  have "0 < n" using d [of "[c]"] assms(5) by simp
  moreover have "length m < n" if "kind_at t ((l @ [c]) @ m) \<noteq> None" for m
    using d [of "c # m"] that by simp
  moreover have "resolve t False (p @ ''/'' @ c) = Some (l @ [c])"
    using resolve_child [OF assms(2-4)] assms(5) by simp
  ultimately show ?thesis by (simp add: deep_enough_def)
qed

lemma size_step_enough:
  fixes w :: world
  assumes deep: "deep_enough (fs w) (Suc n) p"
    and l: "resolve (fs w) False p = Some l" "kind_at (fs w) l = Some KDir" and c: "plain_name c"
    and enough: "\<And>v q. fs v = fs w \<Longrightarrow> deep_enough (fs w) n q \<Longrightarrow> fst (run_state (dir_size E n q) v) \<noteq> None"
  shows "hoare (\<lambda>v. fs v = fs w) (size_step E (dir_size E n) p c acc)
    (\<lambda>r v. case r of Inl _ \<Rightarrow> fs v = fs w | Inr _ \<Rightarrow> False)"
proof (rule hoareI)
  fix v r v'
  assume v: "fs v = fs w" and r: "run_state (size_step E (dir_size E n) p c acc) v = (r, v')"
  have v': "fs v' = fs w"
    using keeps_fs [OF size_step_keeps [OF dir_size_keeps] r] v by simp
  obtain st v1 where st: "run_state (sys_lstat E (p @ ''/'' @ c)) v = (st, v1)" by fastforce
  have v1: "fs v1 = fs w"
    using keeps_fs [OF file_reads_keep(4) st] v by simp
  have "fst (run_state (dir_size E n (p @ ''/'' @ c)) v1) \<noteq> None" if "st = Some KDir"
  proof -
    have "kind_at (fs w) (l @ [c]) = Some KDir"
      using run_lstat [OF st [unfolded that]] v resolve_child [OF l c] by (auto split: if_splits)
    then show ?thesis by (intro enough v1 deep_enough_child [OF deep l c])
  qed
  then show "case r of Inl _ \<Rightarrow> fs v' = fs w | Inr _ \<Rightarrow> False"
    using r st v' by (auto simp: size_step_def Let_def split: option.splits if_splits prod.splits)
qed

lemma dir_size_enough:
  "wf_tree (fs w) \<Longrightarrow> deep_enough (fs w) n p \<Longrightarrow> fst (run_state (dir_size E n p) w) \<noteq> None"
proof (induction n arbitrary: p w)
  case 0
  then show ?case by (simp add: deep_enough_def)
next
  case (Suc n)
  obtain ch w1 where 1: "run_state (GetDirectoryChildren E p) w = (ch, w1)" by fastforce
  show ?case
  proof (cases ch)
    case None
    then show ?thesis using 1 by simp
  next
    case (Some names)
    obtain l where l: "fs w1 = fs w" "resolve (fs w) False p = Some l" "kind_at (fs w) l = Some KDir"
      "\<And>c. c \<in> set names \<Longrightarrow> plain_name c"
      using run_GetDirectoryChildren [OF 1 [unfolded Some] Suc.prems(1)] by blast
    have step: "hoare (\<lambda>v. fs v = fs w) (size_step E (dir_size E n) p c acc)
        (\<lambda>r v. case r of Inl _ \<Rightarrow> fs v = fs w | Inr _ \<Rightarrow> False)" if "c \<in> set names" for c acc
      by (rule size_step_enough [OF Suc.prems(2) l(2,3) l(4) [OF that]]) (use Suc.IH Suc.prems(1) in simp)
    have loop_ok: "hoare (\<lambda>v. fs v = fs w) (loop (size_step E (dir_size E n) p) names 0)
        (\<lambda>r v. case r of Inl _ \<Rightarrow> fs v = fs w | Inr _ \<Rightarrow> False)"
      using step by (rule hoare_loop)
    obtain r w2 where 2: "run_state (loop (size_step E (dir_size E n) p) names 0) w1 = (r, w2)"
      by fastforce
    from hoareD [OF loop_ok l(1) 2] obtain t where "r = Inl t" by (cases r) auto
    then show ?thesis using 1 2 Some by simp
  qed
qed

end
