(* ===== verification/Analyzer.thy ===== *)
theory Analyzer
  imports Scanner
begin

section \<open>cache/cache\_analyzer.cpp\<close>

text \<open>
  One pass over the scanned directories: cooldown, size, growth rate, threshold, priority. The
  vector is sorted by the environment's \<open>std::sort\<close> under the comparator \<open>by_priority\<close>; only what
  the standard promises for any comparator is assumed of it (\<open>sort_spec\<close>).
\<close>

definition GetCurrentTimeMs :: "env \<Rightarrow> u64 io" where
  "GetCurrentTimeMs E = observe (\<lambda>t. timespec_ms (e_real E t))"

definition MIN_CLEANUP_INTERVAL_MS :: u64 where
  "MIN_CLEANUP_INTERVAL_MS = 6 * 60 * 60 * 1000"

definition in_cooldown :: "u64 \<Rightarrow> PackageState \<Rightarrow> bool" where
  "in_cooldown now state \<longleftrightarrow>
     (now > ps_last_cleanup_ms state \<and> now - ps_last_cleanup_ms state < MIN_CLEANUP_INTERVAL_MS) \<and>
     (ucast (ps_growth_rate state) :: u64) < 500 * 1024 * 1024"

text \<open>
  The growth rate is a 64-bit quotient stored into a 32-bit field; the scan time and size are
  recorded for the package, whichever of its directories was measured.
\<close>

definition scanned_state :: "u64 \<Rightarrow> u64 \<Rightarrow> PackageState \<Rightarrow> PackageState" where
  "scanned_state now bytes state =
     (let time_diff_ms = (if now > ps_last_scan_ms state then now - ps_last_scan_ms state else 0);
          time_diff_days = time_diff_ms div (24 * 60 * 60 * 1000);
          state = (if time_diff_days > 0 \<and> bytes > ps_last_size_bytes state
                   then state\<lparr>ps_growth_rate :=
                          ucast ((bytes - ps_last_size_bytes state) div time_diff_days)\<rparr>
                   else state)
      in state\<lparr>ps_last_scan_ms := now, ps_last_size_bytes := bytes\<rparr>)"

definition target_priority :: "u64 \<Rightarrow> PackageState \<Rightarrow> i32" where
  "target_priority bytes state =
     1 + (if bytes > 1024 * 1024 * 1024 then 2 else if bytes > 500 * 1024 * 1024 then 1 else 0)
       + (if (ucast (ps_growth_rate state) :: u64) > 250 * 1024 * 1024 then 1 else 0)"

definition analyze_step ::
  "env \<Rightarrow> u64 \<Rightarrow> CacheDirInfo \<Rightarrow> MaintenanceTarget list \<Rightarrow> (MaintenanceTarget list + unit) io" where
  "analyze_step E now dir targets = do {
     state \<leftarrow> GetPackageState (cd_pkg_name dir);
     if in_cooldown now state then ret (Inl targets)
     else do {
       dir \<leftarrow> CalculateCacheSize E dir;
       let state = scanned_state now (cd_size_bytes dir) state;
       UpdatePackageState (cd_pkg_name dir) state;
       w \<leftarrow> getS;
       ret (Inl (if ShouldCleanCache (g_config w) (cd_size_bytes dir)
            then targets @ [\<lparr>mt_cache_dir = dir, mt_priority = target_priority (cd_size_bytes dir) state\<rparr>]
            else targets))
     }
   }"

text \<open>The comparator: \<open>a.priority > b.priority\<close>.\<close>

definition by_priority :: "MaintenanceTarget \<Rightarrow> MaintenanceTarget \<Rightarrow> bool" where
  "by_priority a b \<longleftrightarrow> sint (mt_priority a) > sint (mt_priority b)"

definition AnalyzeCaches :: "env \<Rightarrow> CacheDirInfo list \<Rightarrow> MaintenanceTarget list io" where
  "AnalyzeCaches E scanned_dirs = do {
     now \<leftarrow> GetCurrentTimeMs E;
     r \<leftarrow> loop (analyze_step E now) scanned_dirs [];
     SaveStateAtomic E;
     ret (e_sort E by_priority (case r of Inl targets \<Rightarrow> targets | Inr _ \<Rightarrow> []))
   }"

text \<open>
  What the standard promises of \<open>std::sort\<close>: for a comparator that is a strict weak ordering the
  result is a rearrangement in which no element comes before an earlier one.
\<close>

definition strict_weak :: "('a \<Rightarrow> 'a \<Rightarrow> bool) \<Rightarrow> bool" where
  "strict_weak before \<longleftrightarrow> (\<forall>x. \<not> before x x) \<and> (\<forall>x y z. before x y \<longrightarrow> before y z \<longrightarrow> before x z) \<and>
     (\<forall>x y z. \<not> before x y \<longrightarrow> \<not> before y x \<longrightarrow> \<not> before y z \<longrightarrow> \<not> before z y \<longrightarrow> \<not> before x z \<and> \<not> before z x)"

definition sort_spec :: "((MaintenanceTarget \<Rightarrow> MaintenanceTarget \<Rightarrow> bool) \<Rightarrow> MaintenanceTarget list \<Rightarrow> MaintenanceTarget list) \<Rightarrow> bool" where
  "sort_spec f \<longleftrightarrow> (\<forall>before ts. strict_weak before \<longrightarrow>
     mset (f before ts) = mset ts \<and> sorted_wrt (\<lambda>a b. \<not> before b a) (f before ts))"

lemma strict_weak_by_priority: "strict_weak by_priority"
  by (auto simp: strict_weak_def by_priority_def)

lemma sorted_targets:
  assumes "sort_spec f"
  shows "mset (f by_priority ts) = mset ts" "set (f by_priority ts) = set ts"
    "sorted_wrt (\<lambda>a b. sint (mt_priority a) \<ge> sint (mt_priority b)) (f by_priority ts)"
proof -
  have *: "mset (f by_priority ts) = mset ts \<and> sorted_wrt (\<lambda>a b. \<not> by_priority b a) (f by_priority ts)"
    using assms strict_weak_by_priority unfolding sort_spec_def by blast
  then show "mset (f by_priority ts) = mset ts" by blast
  then show "set (f by_priority ts) = set ts" by (rule mset_eq_setD)
  from * show "sorted_wrt (\<lambda>a b. sint (mt_priority a) \<ge> sint (mt_priority b)) (f by_priority ts)"
    by (simp add: by_priority_def not_less)
qed

subsection \<open>Frames and traces\<close>

lemma analyze_step_keeps: "keeps sans_state (analyze_step E now dir ts)"
  unfolding analyze_step_def Let_def
  by (intro keep.p_rules GetPackageState_keeps UpdatePackageState_keeps
      keeps_sense_state [OF CalculateCacheSize_keeps])

lemma AnalyzeCaches_keeps: "keeps sans_state (AnalyzeCaches E dirs)"
  unfolding AnalyzeCaches_def GetCurrentTimeMs_def
  by (intro keep.p_rules analyze_step_keeps SaveStateAtomic_keeps keeps_sense_state [OF observe_keeps]) simp

lemma AnalyzeCaches_traces [trace_intros]: "traces P (AnalyzeCaches E dirs)"
  unfolding AnalyzeCaches_def GetCurrentTimeMs_def analyze_step_def Let_def
  by (intro grow.p_rules trace_intros)

end
