(* ===== verification/Cleaner.thy ===== *)
theory Cleaner
  imports Analyzer
begin

section \<open>cache/cache\_cleaner.cpp\<close>

text \<open>
  The recursive removal in batches, the cleaning of one cache directory and the system sweeps.
  \<open>remove_rec\<close> is \<open>RemoveRecursiveBatched\<close> with fuel; \<open>RemoveRecursiveBatched\<close> gives it
  one unit more than the height of the tree, which is enough (\<open>remove_rec_enough\<close>).
\<close>

subsection \<open>Removal\<close>

text \<open>One entry: a directory is removed recursively, anything else is unlinked and counted.\<close>

definition remove_entry ::
  "env \<Rightarrow> (string \<Rightarrow> bool option io) \<Rightarrow> string \<Rightarrow> i32 \<Rightarrow> u64 \<Rightarrow> ((i32 \<times> u64) + bool option) io" where
  "remove_entry E rec child_path files_removed bytes_freed = do {
     st \<leftarrow> sys_lstat E child_path;
     (case st of
        None \<Rightarrow> ret (Inl (files_removed, bytes_freed))
      | Some k \<Rightarrow>
          if k = KDir then do {
            r \<leftarrow> rec child_path;
            ret (if r = Some True then Inl (files_removed, bytes_freed) else Inr r)
          }
          else do {
            ok \<leftarrow> SafeRemove E child_path;
            ret (Inl (if ok then (files_removed + 1, bytes_freed + st_size k)
                      else (files_removed, bytes_freed)))
          })
   }"

text \<open>The batch check at the end of each turn.\<close>

definition batch_check :: "env \<Rightarrow> i32 \<Rightarrow> u64 \<Rightarrow> ((i32 \<times> u64) + bool option) io" where
  "batch_check E files_removed bytes_freed = do {
     w \<leftarrow> getS;
     if sint files_removed \<ge> sint (max_files_per_batch (g_config w)) then do {
       ok \<leftarrow> EndBatch E files_removed bytes_freed;
       if \<not> ok then ret (Inr (Some False))
       else do {
         emit (Usleep 10000);
         StartBatch E;
         ret (Inl (0, 0))
       }
     }
     else ret (Inl (files_removed, bytes_freed))
   }"

definition remove_step ::
  "env \<Rightarrow> (string \<Rightarrow> bool option io) \<Rightarrow> string \<Rightarrow> string \<Rightarrow> i32 \<times> u64 \<Rightarrow> ((i32 \<times> u64) + bool option) io" where
  "remove_step E rec path child counts = do {
     idle \<leftarrow> EvaluateIdleState E;
     if idle = Is_NOT_IDLE then do {
       LOGW E ''Aborting cleanup: device is no longer idle.'';
       ret (Inr (Some False))
     }
     else do {
       r \<leftarrow> remove_entry E rec (path @ ''/'' @ child) (fst counts) (snd counts);
       (case r of
          Inr v \<Rightarrow> ret (Inr v)
        | Inl counts' \<Rightarrow> batch_check E (fst counts') (snd counts'))
     }
   }"

text \<open>The body of \<open>RemoveRecursiveBatched\<close>, with the recursive call as a parameter.\<close>

definition remove_body :: "env \<Rightarrow> (string \<Rightarrow> bool option io) \<Rightarrow> string \<Rightarrow> bool option io" where
  "remove_body E rec path = do {
     children \<leftarrow> GetDirectoryChildren E path;
     (case children of
        None \<Rightarrow> ret (Some False)
      | Some names \<Rightarrow> do {
          StartBatch E;
          r \<leftarrow> loop (remove_step E rec path) names (0, 0);
          (case r of
             Inr v \<Rightarrow> ret v
           | Inl counts \<Rightarrow> do {
               _ \<leftarrow> EndBatch E (fst counts) (snd counts);
               _ \<leftarrow> SafeRemove E path;
               ret (Some True)
             })
        })
   }"

primrec remove_rec :: "env \<Rightarrow> nat \<Rightarrow> string \<Rightarrow> bool option io" where
  "remove_rec E 0 path = ret None"
| "remove_rec E (Suc fuel) path = remove_body E (remove_rec E fuel) path"

definition RemoveRecursiveBatched :: "env \<Rightarrow> string \<Rightarrow> bool io" where
  "RemoveRecursiveBatched E path = do {
     w \<leftarrow> getS;
     r \<leftarrow> remove_rec E (Suc (height (fs w))) path;
     ret (r = Some True)
   }"

subsection \<open>Cleaning one cache directory\<close>

definition cleaned_state :: "u64 \<Rightarrow> PackageState \<Rightarrow> PackageState" where
  "cleaned_state now state = state\<lparr>ps_last_cleanup_ms := now,
     ps_cleanup_count := ps_cleanup_count state + 1, ps_last_size_bytes := 0\<rparr>"

definition CleanDirectorySafely :: "env \<Rightarrow> CacheDirInfo \<Rightarrow> bool io" where
  "CleanDirectorySafely E target_dir = do {
     LOGI E (''Starting safe clean of: '' @ cd_path target_dir);
     children \<leftarrow> GetDirectoryChildren E (cd_path target_dir);
     (case children of
        None \<Rightarrow> ret True
      | Some names \<Rightarrow> do {
          r \<leftarrow> loop (\<lambda>child (_ :: unit). do {
              ok \<leftarrow> RemoveRecursiveBatched E (cd_path target_dir @ ''/'' @ child);
              if \<not> ok then do {
                LOGW E (''Cleanup aborted for: '' @ cd_path target_dir);
                ret (Inr False)
              }
              else ret (Inl ())
            }) names ();
          (case r of
             Inr v \<Rightarrow> ret v
           | Inl _ \<Rightarrow> do {
               LOGI E (''Completed clean of: '' @ cd_path target_dir);
               state \<leftarrow> GetPackageState (cd_pkg_name target_dir);
               now \<leftarrow> GetCurrentTimeMs E;
               UpdatePackageState (cd_pkg_name target_dir) (cleaned_state now state);
               SaveStateAtomic E;
               ret True
             })
        })
   }"

subsection \<open>System sweeps\<close>

definition NativeFstrim :: "env \<Rightarrow> string \<Rightarrow> unit io" where
  "NativeFstrim E path = do {
     idle \<leftarrow> EvaluateIdleState E;
     if idle = Is_NOT_IDLE then ret ()
     else do {
       fd \<leftarrow> observe (\<lambda>t. e_trim E t path);
       (case fd of
          None \<Rightarrow> ret ()
        | Some result \<Rightarrow> do {
            LOGI E (''Running native fstrim on '' @ path @ ''...'');
            emit (Fitrim path);
            (case result of
               None \<Rightarrow> ret ()
             | Some len \<Rightarrow> LOGI E (''fstrim completed on '' @ path @ '': '' @ fmt_u (unat len) @ '' bytes trimmed''))
          })
     }
   }"

definition paths_to_sweep :: "string list" where
  "paths_to_sweep = [''/data/tombstones'', ''/data/system/dropbox'', ''/data/local/tmp'']"

definition sweep_path :: "env \<Rightarrow> string \<Rightarrow> unit \<Rightarrow> (unit + unit) io" where
  "sweep_path E path _ = do {
     idle \<leftarrow> EvaluateIdleState E;
     if idle = Is_NOT_IDLE then do {
       LOGW E ''System sweeps aborted due to wake up.'';
       ret (Inr ())
     }
     else do {
       children \<leftarrow> GetDirectoryChildren E path;
       (case children of
          None \<Rightarrow> ret (Inl ())
        | Some names \<Rightarrow> do {
            (_ :: unit + unit) \<leftarrow> loop (\<lambda>child (_ :: unit).
                if contains child ''freshcore.log'' then ret (Inl ())
                else do {
                  _ \<leftarrow> RemoveRecursiveBatched E (path @ ''/'' @ child);
                  ret (Inl ())
                }) names ();
            ret (Inl ())
          })
     }
   }"

definition RunSystemMaintenanceSweeps :: "env \<Rightarrow> unit io" where
  "RunSystemMaintenanceSweeps E = do {
     LOGI E ''Starting native system maintenance sweeps...'';
     NativeFstrim E ''/data'';
     NativeFstrim E ''/cache'';
     r \<leftarrow> loop (sweep_path E) paths_to_sweep ();
     (case r of
        Inr _ \<Rightarrow> ret ()
      | Inl _ \<Rightarrow> LOGI E ''System maintenance sweeps completed.'')
   }"

subsection \<open>What a removal may touch\<close>

text \<open>\<open>sans_removal\<close>: everything but the tree, the batch accounting and what sensors write.\<close>

definition sans_removal :: "world \<Rightarrow> world" where
  "sans_removal w = (sans_batch w)\<lparr>fs := Dir []\<rparr>"

lemma keeps_batch_removal: "keeps sans_batch m \<Longrightarrow> keeps sans_removal m"
  by (erule keeps_comp) (simp add: sans_removal_def)

lemma keeps_files_removal: "keeps sans_files m \<Longrightarrow> keeps sans_removal m"
  by (erule keeps_comp [where h = "\<lambda>w. w\<lparr>g_batch_start_time_ms := 0, g_total_files_processed_run := 0,
        g_total_bytes_freed_run := 0\<rparr>"]) (simp add: sans_removal_def sans_files_def sans_batch_def sans_sense_def)

lemma keeps_sense_removal: "keeps sans_sense m \<Longrightarrow> keeps sans_removal m"
  by (intro keeps_files_removal keeps_sense_files)

lemma sans_removal_fields:
  assumes "sans_removal w' = sans_removal w"
  shows "g_config w' = g_config w" "g_current_state w' = g_current_state w"
    "g_states w' = g_states w" "disk w' = disk w"
    "g_running w' = g_running w" "g_timer w' = g_timer w"
  using assms by (simp_all add: sans_removal_def sans_batch_def sans_sense_def) (cases w; cases w'; simp)+

lemma emit_keeps_removal: "keeps sans_removal (emit e)"
  by (intro keeps_sense_removal emit_keeps) simp

lemma remove_step_keeps:
  "(\<And>p. keeps sans_removal (rec p)) \<Longrightarrow> keeps sans_removal (remove_step E rec path c n)"
  unfolding remove_step_def remove_entry_def batch_check_def
  by (intro keep.p_rules emit_keeps_removal keeps_batch_removal [OF StartBatch_keeps]
      keeps_batch_removal [OF EndBatch_keeps] keeps_files_removal [OF SafeRemove_keeps]
      keeps_sense_removal [OF EvaluateIdleState_keeps] keeps_sense_removal [OF file_reads_keep(4)]
      keeps_sense_removal [OF Log_keeps_sense]) auto

lemma remove_rec_keeps: "keeps sans_removal (remove_rec E n p)"
proof (induction n arbitrary: p)
  case 0
  show ?case by (simp add: keep.p_return)
next
  case (Suc n)
  then show ?case
    unfolding remove_rec.simps remove_body_def
    by (intro keep.p_rules remove_step_keeps keeps_batch_removal [OF StartBatch_keeps]
        keeps_batch_removal [OF EndBatch_keeps] keeps_files_removal [OF SafeRemove_keeps]
        keeps_sense_removal [OF GetDirectoryChildren_keeps])
qed

lemma RemoveRecursiveBatched_keeps: "keeps sans_removal (RemoveRecursiveBatched E p)"
  unfolding RemoveRecursiveBatched_def by (intro keep.p_rules remove_rec_keeps)

end
