(* ===== verification/Samples.thy ===== *)
theory Samples
  imports World
begin

section \<open>Concrete environments and worlds\<close>

text \<open>
  A small device on which the properties are instantiated: the screen is dark, the charger is
  plugged in, one thermal zone is cool, the clock runs ten seconds per observation and no system
  call fails. \<open>lit_env\<close> is the same device with the screen on.
\<close>

definition sample_text :: "string \<Rightarrow> string \<Rightarrow> string option" where
  "sample_text brightness p =
     (if p = ''/sys/class/backlight/panel0-backlight/brightness'' then Some brightness
      else if p = ''/sys/class/power_supply/battery/capacity'' then Some ''80''
      else if p = ''/sys/class/power_supply/battery/status'' then Some ''Charging''
      else if p = ''/sys/class/thermal/thermal_zone0/temp'' then Some ''31000''
      else None)"

text \<open>A sort for any comparator.\<close>

fun place :: "('a \<Rightarrow> 'a \<Rightarrow> bool) \<Rightarrow> 'a \<Rightarrow> 'a list \<Rightarrow> 'a list" where
  "place before x [] = [x]"
| "place before x (y # ys) = (if before y x then y # place before x ys else x # y # ys)"

definition sort_by :: "('a \<Rightarrow> 'a \<Rightarrow> bool) \<Rightarrow> 'a list \<Rightarrow> 'a list" where
  "sort_by before xs = foldr (place before) xs []"

definition sample_env :: "string \<Rightarrow> env" where
  "sample_env brightness = \<lparr>
     e_text = (\<lambda>_. sample_text brightness), e_pipe = (\<lambda>_ _. None),
     e_mono = (\<lambda>t. \<lparr>tv_sec = 10 * of_nat t, tv_nsec = 0\<rparr>),
     e_real = (\<lambda>t. \<lparr>tv_sec = 10 * of_nat t, tv_nsec = 0\<rparr>),
     e_cpu = (\<lambda>_. None), e_page_size = 4096,
     e_statvfs = (\<lambda>_ _. Some \<lparr>f_blocks = 1000, f_bavail = 250, f_frsize = 4096\<rparr>),
     e_dir = (\<lambda>_ p. if p = ''/sys/class/thermal'' then Some [''thermal_zone0''] else None),
     e_fault = (\<lambda>_ _. False), e_write = (\<lambda>_ _. True), e_trim = (\<lambda>_ _. None),
     e_log_ok = (\<lambda>_ _. True), e_wall = (\<lambda>t. 10 * int t), e_localtime = (\<lambda>_. ''2024-01-01 00:00:00''),
     e_map_order = (\<lambda>xs. xs), e_sort = sort_by, e_padding = (\<lambda>_. [0, 0, 0, 0]),
     e_written = (\<lambda>_ n. n), e_inotify = (\<lambda>_. True), e_watch = (\<lambda>_ _. True)\<rparr>"

definition dark_env :: env where
  "dark_env = sample_env ''0''"

definition lit_env :: env where
  "lit_env = sample_env ''120''"

text \<open>An application with one file in a subdirectory of its cache, and a link out of it.\<close>

definition sample_tree :: node where
  "sample_tree = Dir
     [(''data'', Dir
        [(''app'', Dir
           [(''cache'', Dir
              [(''img'', Dir [(''a'', File 10), (''up'', Link ''/data'')])]),
            (''db'', File 7)])])]"

definition sample_world :: world where
  "sample_world = boot_world sample_tree Map.empty Map.empty"

end
