(* ===== verification/Cleaner_Correct.thy ===== *)
theory Cleaner_Correct
  imports Cleaner Samples
begin

section \<open>Correctness of the removal\<close>

text \<open>
  The removal stays below the directory it is called on, and its fuel is enough: it satisfies the
  recursion equation of the source.
\<close>

lemma loop_cong_inv:
  assumes "\<And>x c s. x \<in> set xs \<Longrightarrow> I s \<Longrightarrow> run_state (b1 x c) s = run_state (b2 x c) s"
    and "\<And>x c. x \<in> set xs \<Longrightarrow> hoare I (b1 x c) (\<lambda>_. I)"
  shows "I s \<Longrightarrow> run_state (loop b1 xs c) s = run_state (loop b2 xs c) s"
  using assms
proof (induction xs arbitrary: c s)
  case Nil
  show ?case by simp
next
  case (Cons x xs)
  obtain r s' where 1: "run_state (b1 x c) s = (r, s')" by fastforce
  have "run_state (b2 x c) s = (r, s')" using Cons.prems(1,2) 1 by force
  moreover have "I s'" using hoareD [OF Cons.prems(3) Cons.prems(1) 1] by simp
  ultimately show ?case using 1 Cons.IH [of s'] Cons.prems(2,3) by (simp split: sum.split)
qed

subsection \<open>Containment\<close>

text \<open>Operations that leave the tree alone change no location.\<close>

lemma keeps_batch_changes: "keeps sans_batch m \<Longrightarrow> pres (changes S) m"
  by (erule pres_mono) (auto dest: sans_batch_fields(4) intro: changes_same_fs)

lemma keeps_state_changes: "keeps sans_state m \<Longrightarrow> pres (changes S) m"
  by (erule pres_mono) (auto dest: sans_state_fields(3) intro: changes_same_fs)

lemmas quiet_changes =
  keeps_batch_changes [OF StartBatch_keeps] keeps_batch_changes [OF EndBatch_keeps]
  keeps_sense_changes [OF EvaluateIdleState_keeps] keeps_sense_changes [OF file_reads_keep(4)]
  keeps_sense_changes [OF Log_keeps_sense] keeps_sense_changes [OF GetDirectoryChildren_keeps]
  keeps_sense_changes [OF emit_keeps] keeps_state_changes [OF UpdatePackageState_keeps]
  keeps_state_changes [OF SaveStateAtomic_keeps]

text \<open>
  \<open>stays w R m\<close>: from any later state of \<open>w\<close> (a tree with fewer entries), \<open>m\<close> moves along \<open>R\<close>.
  The rules hold for every preorder that only shrinks the tree.
\<close>

definition stays :: "world \<Rightarrow> (world \<Rightarrow> world \<Rightarrow> bool) \<Rightarrow> 'a io \<Rightarrow> bool" where
  "stays w R m \<longleftrightarrow> (\<forall>v. tree_below (fs v) (fs w) \<longrightarrow> R v (snd (run_state m v)))"

lemma stays_run:
  "stays w R m \<Longrightarrow> run_state m w = (r, w') \<Longrightarrow> R w w'"
  unfolding stays_def by (metis snd_conv tree_below_refl)

lemma stays_mono: "stays w R m \<Longrightarrow> (\<And>s t. R s t \<Longrightarrow> T s t) \<Longrightarrow> stays w T m"
  unfolding stays_def by blast

lemma stays_below: "stays w R m \<Longrightarrow> tree_below (fs w') (fs w) \<Longrightarrow> stays w' R m"
  unfolding stays_def by (blast intro: tree_below_trans)

locale shrink_order = step_order R for R :: "world \<Rightarrow> world \<Rightarrow> bool" +
  assumes R_shrinks: "R s t \<Longrightarrow> tree_below (fs t) (fs s)"
begin

lemma s_pres: "pres R m \<Longrightarrow> stays w R m"
  by (simp add: stays_def pres_def)

lemma s_return: "stays w R (ret x)"
  by (simp add: stays_def R_refl)

lemma s_bind: "stays w R m \<Longrightarrow> (\<And>x. stays w R (f x)) \<Longrightarrow> stays w R (State_Monad.bind m f)"
  unfolding stays_def
proof (intro allI impI)
  fix v :: world
  assume m: "\<forall>v. tree_below (fs v) (fs w) \<longrightarrow> R v (snd (run_state m v))"
    and f: "\<And>x. \<forall>v. tree_below (fs v) (fs w) \<longrightarrow> R v (snd (run_state (f x) v))"
    and v: "tree_below (fs v) (fs w)"
  obtain x v1 where 1: "run_state m v = (x, v1)" by fastforce
  with m v have w1: "R v v1" by (metis snd_conv)
  then have "tree_below (fs v1) (fs w)" using v by (blast dest: R_shrinks intro: tree_below_trans)
  with f have "R v1 (snd (run_state (f x) v1))" by blast
  with w1 1 show "R v (snd (run_state (State_Monad.bind m f) v))"
    by (auto intro: R_trans)
qed

lemma s_if: "(b \<Longrightarrow> stays w R m) \<Longrightarrow> (\<not> b \<Longrightarrow> stays w R n) \<Longrightarrow> stays w R (if b then m else n)"
  by simp

lemma s_sum: "(\<And>x. stays w R (f x)) \<Longrightarrow> (\<And>x. stays w R (g x)) \<Longrightarrow>
    stays w R (case y of Inl x \<Rightarrow> f x | Inr x \<Rightarrow> g x)"
  by (cases y) simp_all

lemma s_option: "stays w R m \<Longrightarrow> (\<And>x. y = Some x \<Longrightarrow> stays w R (f x)) \<Longrightarrow>
    stays w R (case y of None \<Rightarrow> m | Some x \<Rightarrow> f x)"
  by (cases y) simp_all

lemma s_get: "stays w R getS"
  by (rule s_pres) (rule p_get)

lemma s_when: "(b \<Longrightarrow> stays w R m) \<Longrightarrow> stays w R (whenS b m)"
  by (simp add: whenS_def s_return)

lemma s_loop: "(\<And>x c. x \<in> set xs \<Longrightarrow> stays w R (body x c)) \<Longrightarrow> stays w R (loop body xs c)"
proof (induction xs arbitrary: c)
  case Nil
  show ?case by (simp add: s_return)
next
  case (Cons x xs)
  then show ?case by (auto intro!: s_bind s_sum s_return)
qed

lemmas s_rules = s_return s_get s_bind s_if s_when s_sum s_option s_loop

end

interpretation changes: shrink_order "changes S" for S
  by unfold_locales (simp add: changes_def)

lemma stays_SafeRemove:
  assumes "\<And>l. resolve (fs w) False p = Some l \<Longrightarrow> prefix q l"
  shows "stays w (confined q) (SafeRemove E p)"
  unfolding stays_def
proof (intro allI impI)
  fix v :: world assume v: "tree_below (fs v) (fs w)"
  obtain r v' where r: "run_state (SafeRemove E p) v = (r, v')" by fastforce
  have "confined q v v'"
    using resolve_mono [OF _ v] assms by (intro SafeRemove_confined [OF _ r]) blast
  then show "confined q v (snd (run_state (SafeRemove E p) v))" using r by simp
qed

text \<open>The children of a directory, as paths, name locations below it.\<close>

lemma child_resolves_below:
  assumes "resolve t False p = Some q" "kind_at t q = Some KDir" "plain_name c"
    "resolve t False (p @ ''/'' @ c) = Some l"
  shows "l = q @ [c]"
  using resolve_child [OF assms(1-3)] assms(4) by (auto split: if_splits)

lemma remove_step_stays:
  assumes "\<And>p. p = path @ ''/'' @ c \<Longrightarrow> stays w (confined q) (rec p)"
    and "\<And>l. resolve (fs w) False (path @ ''/'' @ c) = Some l \<Longrightarrow> prefix q l"
  shows "stays w (confined q) (remove_step E rec path c n)"
  unfolding remove_step_def remove_entry_def batch_check_def
  by (intro changes.s_rules assms changes.s_pres quiet_changes stays_SafeRemove; simp add: assms(2) changes.p_get)

text \<open>Where the path names nothing, nothing is removed; else only at or below the location.\<close>

lemma remove_rec_stays:
  assumes "wf_tree (fs w)" "\<And>l. resolve (fs w) False p = Some l \<Longrightarrow> prefix q l"
  shows "stays w (confined q) (remove_rec E n p)"
  using assms
proof (induction n arbitrary: p w q)
  case 0
  show ?case by (simp add: changes.s_return)
next
  case (Suc n)
  show ?case
    unfolding stays_def
  proof (intro allI impI)
    fix v :: world assume v: "tree_below (fs v) (fs w)"
    have wf: "wf_tree (fs v)" using Suc.prems(1) v by (rule wf_tree_below)
    obtain ch v1 where 1: "run_state (GetDirectoryChildren E p) v = (ch, v1)" by fastforce
    have fs1: "fs v1 = fs v" using GetDirectoryChildren_keeps 1 by (rule keeps_fs)
    show "confined q v (snd (run_state (remove_rec E (Suc n) p) v))"
    proof (cases ch)
      case None
      then show ?thesis using 1 fs1 by (simp add: remove_body_def changes_same_fs)
    next
      case (Some names)
      from run_GetDirectoryChildren [OF 1 [unfolded Some] wf]
      obtain l where l: "resolve (fs v) False p = Some l" "kind_at (fs v) l = Some KDir"
        and names: "\<And>c. c \<in> set names \<Longrightarrow> plain_name c" by blast
      have ql: "prefix q l" using Suc.prems(2) resolve_mono [OF l(1) v] .
      have res: "prefix q m" if "c \<in> set names" "resolve (fs v1) False (p @ ''/'' @ c) = Some m" for c m
        using child_resolves_below [OF l names [OF that(1)]] that(2) fs1 ql by simp
      have step: "stays v1 (confined q) (remove_step E (remove_rec E n) p c k)" if c: "c \<in> set names" for c k
      proof (rule remove_step_stays)
        show "stays v1 (confined q) (remove_rec E n p')" if "p' = p @ ''/'' @ c" for p'
          using Suc.IH [of v1] wf fs1 res [OF c] that by simp
        show "prefix q m" if "resolve (fs v1) False (p @ ''/'' @ c) = Some m" for m
          using res [OF c that] .
      qed
      have fin: "stays v1 (confined q) (SafeRemove E p)" using l(1) fs1 ql by (intro stays_SafeRemove) simp
      have "stays v1 (confined q) (do {
          StartBatch E;
          r \<leftarrow> loop (remove_step E (remove_rec E n) p) names (0, 0);
          (case r of Inr v \<Rightarrow> ret v | Inl counts \<Rightarrow> do {
             _ \<leftarrow> EndBatch E (fst counts) (snd counts); _ \<leftarrow> SafeRemove E p; ret (Some True) }) })"
        by (intro changes.s_rules step fin changes.s_pres quiet_changes)
      then have "confined q v1 (snd (run_state (remove_rec E (Suc n) p) v))"
        using 1 Some unfolding stays_def by (simp add: remove_body_def split: prod.splits)
      moreover have "confined q v v1" using fs1 by (rule changes_same_fs)
      ultimately show ?thesis by (blast intro: changes.R_trans)
    qed
  qed
qed

lemma RemoveRecursiveBatched_stays:
  assumes "wf_tree (fs w)" "\<And>l. resolve (fs w) False p = Some l \<Longrightarrow> prefix q l"
  shows "stays w (confined q) (RemoveRecursiveBatched E p)"
  unfolding RemoveRecursiveBatched_def
  by (intro changes.s_rules remove_rec_stays assms changes.s_pres changes.p_get)

lemma remove_nowhere:
  assumes "wf_tree (fs w)" "resolve (fs w) False p = None"
    "run_state (RemoveRecursiveBatched E p) w = (r, w')"
  shows "\<not> r \<and> fs w' = fs w"
proof -
  obtain ch w1 where 1: "run_state (GetDirectoryChildren E p) w = (ch, w1)" by fastforce
  have "ch = None"
    using run_GetDirectoryChildren [of E p w _ w1] 1 assms(1,2) by (cases ch) auto
  then show ?thesis
    using assms(3) 1 keeps_fs [OF GetDirectoryChildren_keeps 1]
    by (simp add: RemoveRecursiveBatched_def remove_body_def)
qed

text \<open>
  C5. Containment: a removal changes the file tree only by deleting, and only at or below the
  location its path names, whatever the environment does, whether it completes, is interrupted by the
  screen, or runs into failing system calls; links below that location are not followed.
\<close>

theorem RemoveRecursiveBatched_contained:
  assumes "wf_tree (fs w)"
    and "run_state (RemoveRecursiveBatched E path) w = (r, w')"
  shows "case resolve (fs w) False path of
      None \<Rightarrow> \<not> r \<and> fs w' = fs w
    | Some q \<Rightarrow> tree_below (fs w') (fs w) \<and>
        (\<forall>l. \<not> prefix q l \<longrightarrow> kind_at (fs w') l = kind_at (fs w) l)"
proof (cases "resolve (fs w) False path")
  case None
  then show ?thesis using remove_nowhere [OF assms(1) None assms(2)] by simp
next
  case (Some q)
  have "confined q w w'"
    using stays_run [OF RemoveRecursiveBatched_stays assms(2)] assms(1) Some by simp
  with Some show ?thesis by (simp add: confined_iff)
qed

lemma wf_sample_tree: "wf_tree (fs sample_world)"
  by (rule wf_treeI; code_simp)

theorem RemoveRecursiveBatched_contained_witness:
  "kind_at (fs (snd (run_state (RemoveRecursiveBatched dark_env ''/data/app/cache/img'') sample_world)))
     [''data'', ''app'', ''db''] = Some (KFile 7)"
proof -
  have res: "resolve (fs sample_world) False ''/data/app/cache/img'' = Some [''data'', ''app'', ''cache'', ''img'']"
    by code_simp
  have db: "kind_at (fs sample_world) [''data'', ''app'', ''db''] = Some (KFile 7)" by code_simp
  show ?thesis
    using RemoveRecursiveBatched_contained [OF wf_sample_tree prod.collapse [symmetric], of dark_env "''/data/app/cache/img''"] res db
    by simp
qed

subsection \<open>The fuel is enough\<close>

lemma remove_step_shrinks:
  fixes w :: world
  assumes "wf_tree (fs w)"
  shows "hoare (\<lambda>s. tree_below (fs s) (fs w)) (remove_step E (remove_rec E n) p c k)
    (\<lambda>_ s. tree_below (fs s) (fs w))"
proof -
  have "stays w (confined []) (remove_step E (remove_rec E n) p c k)"
    by (intro remove_step_stays remove_rec_stays assms) simp_all
  then show ?thesis
    unfolding hoare_def stays_def confined_iff by (blast intro: tree_below_trans)
qed

lemma remove_step_cong:
  assumes "\<And>v' l. fs v' = fs v \<Longrightarrow> resolve (fs v) False (path @ ''/'' @ child) = Some l \<Longrightarrow>
      kind_at (fs v) l = Some KDir \<Longrightarrow>
      run_state (r1 (path @ ''/'' @ child)) v' = run_state (r2 (path @ ''/'' @ child)) v'"
  shows "run_state (remove_step E r1 path child n) v = run_state (remove_step E r2 path child n) v"
proof -
  obtain i v1 where 1: "run_state (EvaluateIdleState E) v = (i, v1)" by fastforce
  have f1: "fs v1 = fs v" using EvaluateIdleState_keeps 1 by (rule keeps_fs)
  obtain st v2 where 2: "run_state (sys_lstat E (path @ ''/'' @ child)) v1 = (st, v2)" by fastforce
  have f2: "fs v2 = fs v" using keeps_fs [OF file_reads_keep(4) 2] f1 by simp
  have "run_state (r1 (path @ ''/'' @ child)) v2 = run_state (r2 (path @ ''/'' @ child)) v2"
    if "st = Some KDir"
    using run_lstat [OF 2 [unfolded that]] f1 assms [OF f2] by auto
  then have "run_state (remove_entry E r1 (path @ ''/'' @ child) a b) v1 =
      run_state (remove_entry E r2 (path @ ''/'' @ child) a b) v1" for a b
    using 2 by (simp add: remove_entry_def split: option.split)
  then show ?thesis using 1 by (simp add: remove_step_def)
qed

text \<open>Where the directory of a removal is, and what its children are, while entries disappear.\<close>

lemma child_dir_below:
  assumes "wf_tree t" "resolve t False p = Some l" "kind_at t l = Some KDir" "plain_name c"
    and "tree_below s t" "resolve s False (p @ ''/'' @ c) = Some m" "kind_at s m = Some k"
  shows "m = l @ [c]" "kind_at t (l @ [c]) = Some k"
proof -
  show "m = l @ [c]"
    using child_resolves_below [OF assms(2-4) resolve_mono [OF assms(6,5)]] .
  with assms(5,7) show "kind_at t (l @ [c]) = Some k" by (blast dest: tree_belowD)
qed

lemma remove_loop_cong:
  fixes w s :: world
  assumes wf: "wf_tree (fs w)" and s: "tree_below (fs s) (fs w)"
    and l: "resolve (fs w) False p = Some l" "kind_at (fs w) l = Some KDir"
    and names: "\<And>c. c \<in> set names \<Longrightarrow> plain_name c"
    and deep: "deep_enough (fs w) (Suc n) p"
    and rec: "\<And>c v. c \<in> set names \<Longrightarrow> tree_below (fs v) (fs w) \<Longrightarrow>
      deep_enough (fs w) n (p @ ''/'' @ c) \<Longrightarrow>
      run_state (remove_rec E n (p @ ''/'' @ c)) v = run_state (rec (p @ ''/'' @ c)) v"
  shows "run_state (loop (remove_step E (remove_rec E n) p) names k) s =
    run_state (loop (remove_step E rec p) names k) s"
  using s
proof (rule loop_cong_inv [where I = "\<lambda>s. tree_below (fs s) (fs w)", rotated 2])
  show "hoare (\<lambda>s. tree_below (fs s) (fs w)) (remove_step E (remove_rec E n) p x c)
      (\<lambda>_ s. tree_below (fs s) (fs w))" for x c
    by (rule remove_step_shrinks [OF wf])
next
  fix c k and v :: world assume c: "c \<in> set names" and v: "tree_below (fs v) (fs w)"
  show "run_state (remove_step E (remove_rec E n) p c k) v = run_state (remove_step E rec p c k) v"
  proof (rule remove_step_cong)
    fix v' :: world and m
    assume v': "fs v' = fs v"
      and m: "resolve (fs v) False (p @ ''/'' @ c) = Some m" "kind_at (fs v) m = Some KDir"
    have "deep_enough (fs w) n (p @ ''/'' @ c)"
      by (rule deep_enough_child [OF deep l names [OF c] child_dir_below(2) [OF wf l names [OF c] v m]])
    then show "run_state (remove_rec E n (p @ ''/'' @ c)) v' = run_state (rec (p @ ''/'' @ c)) v'"
      using rec [OF c, of v'] v v' by simp
  qed
qed

lemma remove_body_cong:
  assumes wf: "wf_tree (fs w)" and deep: "deep_enough (fs w) (Suc n) p"
    and rec: "\<And>q v. tree_below (fs v) (fs w) \<Longrightarrow> deep_enough (fs w) n q \<Longrightarrow>
      run_state (remove_rec E n q) v = run_state (rec q) v"
  shows "run_state (remove_body E (remove_rec E n) p) w = run_state (remove_body E rec p) w"
proof -
  obtain ch w1 where 1: "run_state (GetDirectoryChildren E p) w = (ch, w1)" by fastforce
  show ?thesis
  proof (cases ch)
    case None
    then show ?thesis using 1 by (simp add: remove_body_def)
  next
    case (Some names)
    obtain l where l: "fs w1 = fs w" "resolve (fs w) False p = Some l" "kind_at (fs w) l = Some KDir"
      "\<And>c. c \<in> set names \<Longrightarrow> plain_name c"
      using run_GetDirectoryChildren [OF 1 [unfolded Some] wf] by blast
    obtain w2 where 2: "run_state (StartBatch E) w1 = ((), w2)"
      by (cases "run_state (StartBatch E) w1") auto
    have f2: "fs w2 = fs w"
      using sans_batch_fields(4) [OF pres_run [OF StartBatch_keeps 2]] l(1) by simp
    have "run_state (loop (remove_step E (remove_rec E n) p) names (0, 0)) w2 =
        run_state (loop (remove_step E rec p) names (0, 0)) w2"
      by (rule remove_loop_cong [OF wf _ l(2,3) l(4) deep rec]) (simp_all add: f2)
    then show ?thesis using 1 2 Some by (simp add: remove_body_def)
  qed
qed

lemma remove_rec_more_fuel:
  "wf_tree (fs w) \<Longrightarrow> deep_enough (fs w) n p \<Longrightarrow>
     run_state (remove_rec E n p) w = run_state (remove_rec E (n + k) p) w"
proof (induction n arbitrary: p w)
  case 0
  then show ?case by (simp add: deep_enough_def)
next
  case (Suc n)
  have "run_state (remove_body E (remove_rec E n) p) w =
      run_state (remove_body E (remove_rec E (n + k)) p) w"
  proof (rule remove_body_cong [OF Suc.prems])
    fix q and v :: world assume "tree_below (fs v) (fs w)" "deep_enough (fs w) n q"
    then show "run_state (remove_rec E n q) v = run_state (remove_rec E (n + k) q) v"
      using Suc.IH [of v q] Suc.prems(1) by (blast intro: wf_tree_below deep_enough_below)
  qed
  then show ?case by simp
qed

lemma remove_rec_fuel:
  assumes "wf_tree (fs w)" "deep_enough (fs w) n p" "deep_enough (fs w) m p"
  shows "run_state (remove_rec E n p) w = run_state (remove_rec E m p) w"
  using remove_rec_more_fuel [OF assms(1,2), of E "m - n"]
    remove_rec_more_fuel [OF assms(1,3), of E "n - m"]
  by (metis le_add_diff_inverse nat_le_linear)

text \<open>With enough fuel the recursion never runs out of it.\<close>

lemma remove_entry_answers:
  assumes "\<And>v' l. fs v' = fs v \<Longrightarrow> resolve (fs v) False p = Some l \<Longrightarrow>
      kind_at (fs v) l = Some KDir \<Longrightarrow> fst (run_state (rec p) v') \<noteq> None"
  shows "fst (run_state (remove_entry E rec p a b) v) \<noteq> Inr None"
proof -
  obtain st v2 where 2: "run_state (sys_lstat E p) v = (st, v2)" by fastforce
  have f2: "fs v2 = fs v" using file_reads_keep(4) 2 by (rule keeps_fs)
  have "fst (run_state (rec p) v2) \<noteq> None" if "st = Some KDir"
    using run_lstat [OF 2 [unfolded that]] assms [OF f2] by auto
  then show ?thesis
    using 2 by (auto simp: remove_entry_def split: option.split prod.splits)
qed

lemma batch_check_answers: "fst (run_state (batch_check E a b) v) \<noteq> Inr None"
proof (cases "sint a \<ge> sint (max_files_per_batch (g_config v))")
  case True
  obtain ok v1 where "run_state (EndBatch E a b) v = (ok, v1)" by fastforce
  then show ?thesis using True by (cases ok) (simp_all add: batch_check_def split: prod.split)
qed (simp add: batch_check_def)

lemma remove_step_answers:
  assumes "\<And>v' l. fs v' = fs v \<Longrightarrow> resolve (fs v) False (path @ ''/'' @ child) = Some l \<Longrightarrow>
      kind_at (fs v) l = Some KDir \<Longrightarrow> fst (run_state (rec (path @ ''/'' @ child)) v') \<noteq> None"
  shows "fst (run_state (remove_step E rec path child n) v) \<noteq> Inr None"
proof -
  obtain i v1 where 1: "run_state (EvaluateIdleState E) v = (i, v1)" by fastforce
  have f1: "fs v1 = fs v" using EvaluateIdleState_keeps 1 by (rule keeps_fs)
  have "fst (run_state (remove_entry E rec (path @ ''/'' @ child) a b) v1) \<noteq> Inr None" for a b
    using f1 assms by (intro remove_entry_answers) auto
  from this [of "fst n" "snd n"] show ?thesis
    using 1 batch_check_answers
    by (auto simp: remove_step_def split: prod.splits sum.splits)
qed

lemma remove_step_enough:
  fixes w :: world
  assumes wf: "wf_tree (fs w)" and deep: "deep_enough (fs w) (Suc n) p"
    and l: "resolve (fs w) False p = Some l" "kind_at (fs w) l = Some KDir" and c: "plain_name c"
    and enough: "\<And>v q. wf_tree (fs v) \<Longrightarrow> deep_enough (fs v) n q \<Longrightarrow> fst (run_state (remove_rec E n q) v) \<noteq> None"
  shows "hoare (\<lambda>s. tree_below (fs s) (fs w)) (remove_step E (remove_rec E n) p c k)
    (\<lambda>r s. case r of Inl _ \<Rightarrow> tree_below (fs s) (fs w) | Inr v \<Rightarrow> v \<noteq> None)"
proof (rule hoare_conseq [OF hoare_conj [OF remove_step_shrinks [OF wf] hoareI]])
  fix s r and s' :: world
  assume s: "tree_below (fs s) (fs w)" and r: "run_state (remove_step E (remove_rec E n) p c k) s = (r, s')"
  have "fst (run_state (remove_rec E n (p @ ''/'' @ c)) v) \<noteq> None"
    if v: "fs v = fs s" and m: "resolve (fs s) False (p @ ''/'' @ c) = Some m" "kind_at (fs s) m = Some KDir" for v m
  proof (rule enough)
    show "wf_tree (fs v)" using wf s v by (simp add: wf_tree_below)
    show "deep_enough (fs v) n (p @ ''/'' @ c)"
      using deep_enough_child [OF deep l c child_dir_below(2) [OF wf l c s m]] s v
      by (simp add: deep_enough_below)
  qed
  from remove_step_answers [of s p c "remove_rec E n" E k, OF this] r
  show "r \<noteq> Inr None" by simp
qed (auto split: sum.split)

lemma remove_rec_enough:
  "wf_tree (fs w) \<Longrightarrow> deep_enough (fs w) n p \<Longrightarrow> fst (run_state (remove_rec E n p) w) \<noteq> None"
proof (induction n arbitrary: p w)
  case 0
  then show ?case by (simp add: deep_enough_def)
next
  case (Suc n)
  obtain ch w1 where 1: "run_state (GetDirectoryChildren E p) w = (ch, w1)" by fastforce
  show ?case
  proof (cases ch)
    case None
    then show ?thesis using 1 by (simp add: remove_body_def)
  next
    case (Some names)
    obtain l where l: "fs w1 = fs w" "resolve (fs w) False p = Some l" "kind_at (fs w) l = Some KDir"
      "\<And>c. c \<in> set names \<Longrightarrow> plain_name c"
      using run_GetDirectoryChildren [OF 1 [unfolded Some] Suc.prems(1)] by blast
    obtain w2 where 2: "run_state (StartBatch E) w1 = ((), w2)"
      by (cases "run_state (StartBatch E) w1") auto
    have f2: "fs w2 = fs w"
      using sans_batch_fields(4) [OF pres_run [OF StartBatch_keeps 2]] l(1) by simp
    let ?I = "\<lambda>s :: world. tree_below (fs s) (fs w)"
    have step: "hoare ?I (remove_step E (remove_rec E n) p c k)
        (\<lambda>r s. case r of Inl _ \<Rightarrow> ?I s | Inr v \<Rightarrow> v \<noteq> None)" if "c \<in> set names" for c k
      by (rule remove_step_enough [OF Suc.prems l(2,3) l(4) [OF that] Suc.IH])
    obtain r w3 where 3: "run_state (loop (remove_step E (remove_rec E n) p) names (0, 0)) w2 = (r, w3)"
      by fastforce
    have "case r of Inl _ \<Rightarrow> ?I w3 | Inr v \<Rightarrow> v \<noteq> None"
      by (rule hoareD [OF hoare_loop [where I = "\<lambda>_. ?I", OF step] _ 3]) (simp_all add: f2)
    then show ?thesis
      using 1 2 3 Some by (cases r) (auto simp: remove_body_def split: prod.splits)
  qed
qed

text \<open>
  C22. Termination and the recursion equation: the removal with the fuel the model gives it is the
  function of the source, whose recursive calls are full removals again; it returns in every
  well-formed tree, whatever the environment answers.
\<close>

theorem RemoveRecursiveBatched_unfold:
  assumes "wf_tree (fs w)"
  shows "run_state (remove_body E (\<lambda>p. do { ok \<leftarrow> RemoveRecursiveBatched E p; ret (Some ok) }) path) w =
    run_state (do { ok \<leftarrow> RemoveRecursiveBatched E path; ret (Some ok) }) w"
proof -
  let ?H = "height (fs w)"
  have some: "run_state (do { ok \<leftarrow> RemoveRecursiveBatched E p; ret (Some ok) }) v =
      run_state (remove_rec E (Suc (height (fs v))) p) v" if "wf_tree (fs v)" for p v
    using remove_rec_enough [OF that deep_enough_height, of E p]
    by (auto simp: RemoveRecursiveBatched_def simp del: remove_rec.simps split: prod.splits)
  have "run_state (remove_body E (remove_rec E ?H) path) w =
      run_state (remove_body E (\<lambda>p. do { ok \<leftarrow> RemoveRecursiveBatched E p; ret (Some ok) }) path) w"
  proof (rule remove_body_cong [OF assms deep_enough_height])
    fix q and v :: world assume v: "tree_below (fs v) (fs w)" and "deep_enough (fs w) ?H q"
    then have "deep_enough (fs v) ?H q" by (blast intro: deep_enough_below)
    then show "run_state (remove_rec E ?H q) v =
        run_state (do { ok \<leftarrow> RemoveRecursiveBatched E q; ret (Some ok) }) v"
      using remove_rec_fuel [OF wf_tree_below [OF assms v] _ deep_enough_height]
        some [OF wf_tree_below [OF assms v]] by simp
  qed
  then show ?thesis using some [OF assms] by simp
qed

theorem RemoveRecursiveBatched_unfold_witness:
  "fst (run_state (remove_body dark_env
     (\<lambda>p. do { ok \<leftarrow> RemoveRecursiveBatched dark_env p; ret (Some ok) }) ''/data/app/cache'') sample_world) = Some True"
proof -
  have "fst (run_state (do { ok \<leftarrow> RemoveRecursiveBatched dark_env ''/data/app/cache''; ret (Some ok) }) sample_world) =
      Some True" by code_simp
  then show ?thesis
    using RemoveRecursiveBatched_unfold [OF wf_sample_tree, of dark_env "''/data/app/cache''"] by simp
qed

end
