(* ===== verification/Cleaner_Complete.thy ===== *)
theory Cleaner_Complete
  imports Cleaner_Correct
begin

section \<open>Completeness of the removal and of a clean\<close>

text \<open>
  When no system call fails and a removal or a clean reports success, exactly what it was called on
  is gone. A clean of a directory with an entry that is not a directory never succeeds.
\<close>

subsection \<open>Removal\<close>

lemma loop_each_from:
  assumes 1: "\<And>x c. x \<in> set zs \<Longrightarrow>
      hoare I (body x c) (\<lambda>r s. case r of Inl _ \<Rightarrow> I s \<and> P x s | Inr _ \<Rightarrow> True)"
    and 2: "\<And>x y c. x \<in> set zs \<Longrightarrow> y \<in> set zs \<Longrightarrow>
      hoare (\<lambda>s. I s \<and> P x s) (body y c) (\<lambda>r s. case r of Inl _ \<Rightarrow> P x s | Inr _ \<Rightarrow> True)"
  shows "set ys \<subseteq> set zs \<Longrightarrow> set xs \<subseteq> set zs \<Longrightarrow>
    hoare (\<lambda>s. I s \<and> (\<forall>x\<in>set ys. P x s)) (loop body xs c)
      (\<lambda>r s. case r of Inl _ \<Rightarrow> I s \<and> (\<forall>x\<in>set ys \<union> set xs. P x s) | Inr _ \<Rightarrow> True)"
proof (induction xs arbitrary: ys c)
  case Nil
  show ?case by (simp add: hoare_return)
next
  case (Cons x xs)
  have x: "x \<in> set zs" using Cons.prems by simp
  show ?case
    unfolding loop.simps
  proof (rule hoare_bind)
    show "hoare (\<lambda>s. I s \<and> (\<forall>x\<in>set ys. P x s)) (body x c)
        (\<lambda>r s. case r of Inl _ \<Rightarrow> I s \<and> (\<forall>y\<in>set (x # ys). P y s) | Inr _ \<Rightarrow> True)"
    proof (rule hoareI)
      fix s r s' assume s: "I s \<and> (\<forall>x\<in>set ys. P x s)" and r: "run_state (body x c) s = (r, s')"
      have "case r of Inl _ \<Rightarrow> I s' \<and> P x s' | Inr _ \<Rightarrow> True"
        using hoareD [OF 1 [OF x] _ r] s by simp
      moreover have "case r of Inl _ \<Rightarrow> P y s' | Inr _ \<Rightarrow> True" if "y \<in> set ys" for y
        using hoareD [OF 2 [OF _ x] _ r] s that Cons.prems(1) by blast
      ultimately show "case r of Inl _ \<Rightarrow> I s' \<and> (\<forall>y\<in>set (x # ys). P y s') | Inr _ \<Rightarrow> True"
        by (cases r) auto
    qed
    fix r
    show "hoare (\<lambda>s. case r of Inl _ \<Rightarrow> I s \<and> (\<forall>y\<in>set (x # ys). P y s) | Inr _ \<Rightarrow> True)
       (case r of Inl c' \<Rightarrow> loop body xs c' | Inr v \<Rightarrow> ret (Inr v))
       (\<lambda>r s. case r of Inl _ \<Rightarrow> I s \<and> (\<forall>y\<in>set ys \<union> set (x # xs). P y s) | Inr _ \<Rightarrow> True)"
    proof (cases r)
      case (Inl c')
      then show ?thesis using Cons.IH [of "x # ys" c'] Cons.prems
        by (simp only: sum.case list.set Un_insert_left Un_insert_right) simp
    qed (simp add: hoare_return)
  qed
qed

lemma loop_each:
  assumes "\<And>x c. x \<in> set xs \<Longrightarrow>
      hoare I (body x c) (\<lambda>r s. case r of Inl _ \<Rightarrow> I s \<and> P x s | Inr _ \<Rightarrow> True)"
    and "\<And>x y c. x \<in> set xs \<Longrightarrow> y \<in> set xs \<Longrightarrow>
      hoare (\<lambda>s. I s \<and> P x s) (body y c) (\<lambda>r s. case r of Inl _ \<Rightarrow> P x s | Inr _ \<Rightarrow> True)"
  shows "hoare I (loop body xs c)
    (\<lambda>r s. case r of Inl _ \<Rightarrow> I s \<and> (\<forall>x\<in>set xs. P x s) | Inr _ \<Rightarrow> True)"
  by (rule hoare_conseq [OF loop_each_from [where zs = xs and ys = "[]", OF assms]]) (auto split: sum.splits)

text \<open>
  \<open>inside q t s\<close>: \<open>s\<close> is \<open>t\<close> after deletions strictly below \<open>q\<close>. A path is steady for \<open>q\<close>
  when it names \<open>q\<close> during such deletions: it does not itself lead through that directory.
\<close>

definition inside :: "string list \<Rightarrow> node \<Rightarrow> node \<Rightarrow> bool" where
  "inside q t s \<longleftrightarrow> tree_below s t \<and> (\<forall>l. \<not> strict_prefix q l \<longrightarrow> kind_at s l = kind_at t l)"

definition steady :: "node \<Rightarrow> string \<Rightarrow> string list \<Rightarrow> bool" where
  "steady t p q \<longleftrightarrow> kind_at t q \<noteq> None \<and> (\<forall>s. inside q t s \<longrightarrow> resolve s False p = Some q)"

lemma inside_refl [simp]: "inside q t t"
  by (simp add: inside_def)

lemma inside_trans: "inside q t s \<Longrightarrow> inside q s u \<Longrightarrow> inside q t u"
  unfolding inside_def by (metis tree_below_trans)

lemma inside_mono: "inside q t s \<Longrightarrow> prefix p q \<Longrightarrow> inside p t s"
  unfolding inside_def by (meson prefix_order.less_le_trans prefix_order.le_less_trans)

lemma inside_kind: "inside q t s \<Longrightarrow> kind_at s q = kind_at t q"
  by (simp add: inside_def)

lemma confined_inside: "confined (q @ [c]) w w' \<Longrightarrow> inside q (fs w) (fs w')"
  unfolding confined_iff inside_def by (meson prefix_snocD prefix_order.le_less_trans)

lemma steady_resolve: "steady t p q \<Longrightarrow> inside q t s \<Longrightarrow> resolve s False p = Some q"
  by (simp add: steady_def)

lemma steady_inside: "steady t p q \<Longrightarrow> inside q t s \<Longrightarrow> steady s p q"
  unfolding steady_def by (metis inside_kind inside_trans)

lemma steady_child:
  assumes "steady t p q" "plain_name c" "kind_at t (q @ [c]) \<noteq> None"
  shows "steady t (p @ ''/'' @ c) (q @ [c])"
  unfolding steady_def
proof (intro conjI allI impI)
  fix s assume s: "inside (q @ [c]) t s"
  then have "inside q t s" by (rule inside_mono) simp
  moreover have "kind_at s (q @ [c]) \<noteq> None" using s assms(3) by (simp add: inside_kind)
  ultimately show "resolve s False (p @ ''/'' @ c) = Some (q @ [c])"
    using resolve_child [OF steady_resolve [OF assms(1)] kind_at_child assms(2)] by simp
qed (rule assms(3))

lemma steady_loc_str:
  assumes "wf_tree t" "q \<noteq> []" "kind_at t q = Some KDir"
  shows "steady t (loc_str q) q"
  unfolding steady_def
proof (intro conjI allI impI)
  fix s assume "inside q t s"
  then have "kind_at s q = Some KDir" using assms(3) by (simp add: inside_kind)
  moreover have "list_all plain_name q" using assms(1,3) by (auto simp: wf_tree_def)
  ultimately show "resolve s False (loc_str q) = Some q"
    using assms(2) by (intro resolve_loc_str) auto
qed (simp add: assms(3))

definition faultless :: "env \<Rightarrow> bool" where
  "faultless E \<longleftrightarrow> (\<forall>t p. \<not> e_fault E t p)"

lemma faultless_lstat:
  "faultless E \<Longrightarrow> fst (run_state (sys_lstat E p) w) =
     (case resolve (fs w) False p of None \<Rightarrow> None | Some l \<Rightarrow> kind_at (fs w) l)"
  by (simp add: sys_lstat_def faulty_def faultless_def split: option.split)

lemma faultless_SafeRemove:
  assumes "faultless E" "resolve (fs w) False p = Some l" "can_unlink (fs w) l \<or> can_rmdir (fs w) l"
    and "run_state (SafeRemove E p) w = (r, w')"
  shows "r" "fs w' = remove_at l (fs w)"
proof -
  have k: "if kind_at (fs w) l = Some KDir then can_rmdir (fs w) l else can_unlink (fs w) l"
    using assms(3) child_names_iff [of "fs w" l] by (auto simp: can_unlink_def can_rmdir_def split: option.splits)
  have "kind_at (fs w) l \<noteq> None"
    using assms(3) child_names_iff [of "fs w" l] by (auto simp: can_unlink_def can_rmdir_def)
  then have "r \<and> fs w' = remove_at l (fs w)"
    using assms(1,2,4) k
    by (auto simp: SafeRemove_def sys_lstat_def faulty_def faultless_def sys_rmdir_def sys_unlink_def
        sys_remove_def split: if_splits)
  then show "r" "fs w' = remove_at l (fs w)" by simp_all
qed

lemma keeps_batch_fs: "keeps sans_batch m \<Longrightarrow> run_state m w = (r, w') \<Longrightarrow> fs w' = fs w"
  by (rule sans_batch_fields(4), drule (1) pres_run)

lemma batch_check_keeps: "keeps sans_batch (batch_check E a b)"
  unfolding batch_check_def
  by (intro keep.p_rules StartBatch_keeps EndBatch_keeps keeps_sense_batch [OF emit_keeps]) simp

lemma remove_entry_gone:
  fixes v :: world
  assumes ok: "faultless E" and v: "inside q t (fs v)"
    and steady: "steady t p q" and c: "plain_name c" "kind_at t (q @ [c]) \<noteq> None"
    and run: "run_state (remove_entry E rec (p @ ''/'' @ c) a b) v = (Inl x, v')"
    and rec: "\<And>u u'. fs u = fs v \<Longrightarrow> kind_at (fs v) (q @ [c]) = Some KDir \<Longrightarrow>
      run_state (rec (p @ ''/'' @ c)) u = (Some True, u') \<Longrightarrow> kind_at (fs u') (q @ [c]) = None"
  shows "kind_at (fs v') (q @ [c]) = None"
proof -
  have q: "kind_at (fs v) q = Some KDir"
    using inside_kind [OF v] kind_at_child [OF c(2)] by simp
  have res: "resolve (fs v) False (p @ ''/'' @ c) =
      (if kind_at (fs v) (q @ [c]) = None then None else Some (q @ [c]))"
    by (rule resolve_child [OF steady_resolve [OF steady v] q c(1)])
  obtain st v2 where 2: "run_state (sys_lstat E (p @ ''/'' @ c)) v = (st, v2)" by fastforce
  have f2: "fs v2 = fs v" using file_reads_keep(4) 2 by (rule keeps_fs)
  have st: "st = kind_at (fs v) (q @ [c])"
    using faultless_lstat [OF ok, of "p @ ''/'' @ c" v] 2 res by (simp split: if_splits)
  consider "st = None" | "st = Some KDir" | k where "st = Some k" "k \<noteq> KDir" by blast
  then show ?thesis
  proof cases
    case 1
    then show ?thesis using run 2 f2 st by (simp add: remove_entry_def)
  next
    case dir: 2
    then have "\<exists>u'. run_state (rec (p @ ''/'' @ c)) v2 = (Some True, u') \<and> v' = u'"
      using run 2 by (auto simp: remove_entry_def split: prod.splits if_splits)
    then show ?thesis using rec [OF f2] dir st by auto
  next
    case 3
    then have k: "kind_at (fs v) (q @ [c]) = Some k" using st by simp
    then have "can_unlink (fs v2) (q @ [c])" using 3 f2 by (simp add: can_unlink_def)
    moreover have "resolve (fs v2) False (p @ ''/'' @ c) = Some (q @ [c])"
      using res k f2 by simp
    moreover obtain r where "run_state (SafeRemove E (p @ ''/'' @ c)) v2 = (r, v')"
      using run 2 3 by (auto simp: remove_entry_def split: prod.splits if_splits)
    ultimately have "fs v' = remove_at (q @ [c]) (fs v2)"
      using faultless_SafeRemove(2) [OF ok] by blast
    then show ?thesis by (simp add: kind_at_remove_at)
  qed
qed

lemma remove_step_gone:
  fixes v :: world
  assumes ok: "faultless E" and v: "inside q t (fs v)"
    and steady: "steady t p q" and c: "plain_name c" "kind_at t (q @ [c]) \<noteq> None"
    and run: "run_state (remove_step E rec p c k) v = (Inl x, v')"
    and rec: "\<And>u u'. fs u = fs v \<Longrightarrow> kind_at (fs v) (q @ [c]) = Some KDir \<Longrightarrow>
      run_state (rec (p @ ''/'' @ c)) u = (Some True, u') \<Longrightarrow> kind_at (fs u') (q @ [c]) = None"
  shows "kind_at (fs v') (q @ [c]) = None"
proof -
  obtain i v1 where 1: "run_state (EvaluateIdleState E) v = (i, v1)" by fastforce
  have f1: "fs v1 = fs v" using EvaluateIdleState_keeps 1 by (rule keeps_fs)
  obtain r v2 where r: "run_state (remove_entry E rec (p @ ''/'' @ c) (fst k) (snd k)) v1 = (r, v2)"
    by fastforce
  have i: "i \<noteq> Is_NOT_IDLE" using run 1 by (auto simp: remove_step_def)
  obtain counts where counts: "r = Inl counts"
    using run 1 i r by (cases r) (simp_all add: remove_step_def)
  note 2 = r [unfolded counts]
  have 3: "run_state (batch_check E (fst counts) (snd counts)) v2 = (Inl x, v')"
    using run 1 i 2 by (simp add: remove_step_def)
  have "kind_at (fs v2) (q @ [c]) = None"
  proof (rule remove_entry_gone [OF ok _ steady c 2])
    show "inside q t (fs v1)" using v f1 by simp
    fix u u' :: world
    assume "fs u = fs v1" "kind_at (fs v1) (q @ [c]) = Some KDir"
      "run_state (rec (p @ ''/'' @ c)) u = (Some True, u')"
    then show "kind_at (fs u') (q @ [c]) = None" using rec [of u u'] unfolding f1 by blast
  qed
  then show ?thesis using keeps_batch_fs [OF batch_check_keeps 3] by simp
qed

lemma step_inside:
  fixes w v :: world
  assumes wf: "wf_tree (fs w)" and steady: "steady (fs w) p q" and c: "plain_name c"
    and q: "kind_at (fs w) q = Some KDir" and v: "inside q (fs w) (fs v)"
    and run: "run_state (remove_step E (remove_rec E n) p c k) v = (r, v')"
  shows "inside q (fs w) (fs v')"
proof -
  have wfv: "wf_tree (fs v)" using wf v by (auto simp: inside_def intro: wf_tree_below)
  have res: "prefix (q @ [c]) l" if "resolve (fs v) False (p @ ''/'' @ c) = Some l" for l
    using child_resolves_below [OF steady_resolve [OF steady v] _ c that] inside_kind [OF v] q
    by simp
  have "stays v (confined (q @ [c])) (remove_step E (remove_rec E n) p c k)"
    by (rule remove_step_stays) (use res wfv in \<open>auto intro: remove_rec_stays\<close>)
  then have "confined (q @ [c]) v v'" using run by (rule stays_run)
  then show ?thesis using v confined_inside by (blast intro: inside_trans)
qed

lemma loop_exit:
  "(\<And>x c s. fst (run_state (body x c) s) \<noteq> Inr v) \<Longrightarrow> fst (run_state (loop body xs c) s) \<noteq> Inr v"
proof (induction xs arbitrary: c s)
  case (Cons x xs)
  obtain r s' where r: "run_state (body x c) s = (r, s')" by fastforce
  moreover have "r \<noteq> Inr v" using Cons.prems [of x c s] r by simp
  ultimately show ?case using Cons by (cases r) auto
qed simp

lemma remove_step_exit: "fst (run_state (remove_step E rec p c k) s) \<noteq> Inr (Some True)"
proof -
  have "fst (run_state (remove_entry E rec q a b) s) \<noteq> Inr (Some True)" for q a b s
    by (auto simp: remove_entry_def split: prod.splits option.splits if_splits)
  moreover have "fst (run_state (batch_check E a b) s) \<noteq> Inr (Some True)" for a b s
    by (auto simp: batch_check_def split: prod.splits if_splits)
  ultimately show ?thesis
    by (auto simp: remove_step_def split: prod.splits sum.splits if_splits) (metis fst_conv)+
qed

lemma emptied_names:
  assumes "inside q t u" "kind_at t q = Some KDir" "child_names t q = Some names"
    and gone: "\<And>c. c \<in> set names \<Longrightarrow> kind_at u (q @ [c]) = None"
  shows "child_names u q = Some []"
proof -
  obtain ns where ns: "child_names u q = Some ns"
    using child_names_iff [of u q] inside_kind [OF assms(1)] assms(2) by fastforce
  have "c \<notin> set ns" for c
    using child_names_mem [OF ns] child_names_mem [OF assms(3)] gone assms(1)
    unfolding inside_def tree_below_def by metis
  then have "ns = []" by (cases ns) auto
  then show ?thesis using ns by simp
qed

lemma remove_rec_trueE:
  assumes run: "run_state (remove_rec E (Suc n) p) w = (Some True, w')"
  obtains names w1 w2 counts w3 b w4 b' where
    "run_state (GetDirectoryChildren E p) w = (Some names, w1)" "fs w1 = fs w" "fs w2 = fs w"
    "run_state (loop (remove_step E (remove_rec E n) p) names (0, 0)) w2 = (Inl counts, w3)" "fs w4 = fs w3"
    "run_state (SafeRemove E p) w4 = (b', w')"
proof -
  obtain ch w1 where 1: "run_state (GetDirectoryChildren E p) w = (ch, w1)" by fastforce
  then obtain names where ch: "ch = Some names"
    using run by (cases ch) (simp_all add: remove_body_def)
  obtain w2 where 2: "run_state (StartBatch E) w1 = ((), w2)"
    by (cases "run_state (StartBatch E) w1") auto
  obtain r w3 where 3: "run_state (loop (remove_step E (remove_rec E n) p) names (0, 0)) w2 = (r, w3)" by fastforce
  have "r \<noteq> Inr (Some True)"
    using loop_exit [where body = "remove_step E (remove_rec E n) p", OF remove_step_exit] 3 by (metis fst_conv)
  then obtain counts where r: "r = Inl counts"
    and 4: "run_state (do { _ \<leftarrow> EndBatch E (fst counts) (snd counts); _ \<leftarrow> SafeRemove E p; ret (Some True) }) w3 =
      (Some True, w')"
    using run 1 2 3 ch by (cases r) (auto simp: remove_body_def)
  obtain b w4 where 5: "run_state (EndBatch E (fst counts) (snd counts)) w3 = (b, w4)" by fastforce
  obtain b' where 6: "run_state (SafeRemove E p) w4 = (b', w')" using 4 5 by (auto split: prod.splits)
  have "fs w1 = fs w" using GetDirectoryChildren_keeps 1 by (rule keeps_fs)
  then show thesis
    using that [OF 1 [unfolded ch] _ _ 3 [unfolded r] _ 6] keeps_batch_fs [OF StartBatch_keeps 2]
      keeps_batch_fs [OF EndBatch_keeps 5] by simp
qed

lemma remove_rec_gone:
  "faultless E \<Longrightarrow> wf_tree (fs w) \<Longrightarrow> steady (fs w) p q \<Longrightarrow> q \<noteq> [] \<Longrightarrow>
     run_state (remove_rec E n p) w = (Some True, w') \<Longrightarrow> kind_at (fs w') q = None"
proof (induction n arbitrary: p q w w')
  case (Suc n)
  note ok = Suc.prems(1) and wf = Suc.prems(2) and steady = Suc.prems(3)
  have res: "resolve (fs w) False p = Some q" using steady_resolve [OF steady] by simp
  obtain names w1 w2 counts w3 b w4 b' where 1: "run_state (GetDirectoryChildren E p) w = (Some names, w1)"
    and w1: "fs w1 = fs w" and w2: "fs w2 = fs w"
    and 3: "run_state (loop (remove_step E (remove_rec E n) p) names (0, 0)) w2 = (Inl counts, w3)"
    and w4: "fs w4 = fs w3" and 6: "run_state (SafeRemove E p) w4 = (b', w')"
    by (rule remove_rec_trueE [OF Suc.prems(5)])
  have q: "kind_at (fs w) q = Some KDir" and ns: "child_names (fs w) q = Some names"
    and names: "\<And>c. c \<in> set names \<Longrightarrow> plain_name c \<and> kind_at (fs w) (q @ [c]) \<noteq> None"
    using run_GetDirectoryChildren [OF 1 wf] res by auto
  let ?I = "\<lambda>s :: world. inside q (fs w) (fs s)" and ?P = "\<lambda>c (s :: world). kind_at (fs s) (q @ [c]) = None"
  let ?body = "remove_step E (remove_rec E n) p"
  have in_step: "?I s'" if "c \<in> set names" "?I s" "run_state (?body c k) s = (r, s')" for c k s r s'
    using step_inside [OF wf steady _ q that(2,3)] names [OF that(1)] by blast
  have each: "hoare ?I (?body c k) (\<lambda>r s. case r of Inl _ \<Rightarrow> ?I s \<and> ?P c s | Inr _ \<Rightarrow> True)"
    if c: "c \<in> set names" for c k
  proof (rule hoareI)
    fix s r s' assume s: "?I s" and r: "run_state (?body c k) s = (r, s')"
    have "?P c s'" if "r = Inl x" for x
    proof (rule remove_step_gone [OF ok s steady _ _ r [unfolded that]])
      fix u and u' :: world
      assume u: "fs u = fs s" and "run_state (remove_rec E n (p @ ''/'' @ c)) u = (Some True, u')"
        and d: "kind_at (fs s) (q @ [c]) = Some KDir"
      moreover have "steady (fs u) (p @ ''/'' @ c) (q @ [c])"
        using steady_child [OF steady_inside [OF steady s]] names [OF c] d u by simp
      moreover have "wf_tree (fs u)" using wf s u by (auto simp: inside_def intro: wf_tree_below)
      ultimately show "?P c u'" using Suc.IH [OF ok, of u "p @ ''/'' @ c" "q @ [c]" u'] u by simp
    qed (use names [OF c] in simp_all)
    with in_step [OF c s r] show "case r of Inl _ \<Rightarrow> ?I s' \<and> ?P c s' | Inr _ \<Rightarrow> True"
      by (cases r) auto
  qed
  have still: "hoare (\<lambda>s. ?I s \<and> ?P d s) (?body c k) (\<lambda>r s. case r of Inl _ \<Rightarrow> ?P d s | Inr _ \<Rightarrow> True)"
    if c: "c \<in> set names" for c d k
  proof (rule hoareI)
    fix s r s' assume s: "?I s \<and> ?P d s" and r: "run_state (?body c k) s = (r, s')"
    have "wf_tree (fs s)" using wf s by (auto simp: inside_def intro: wf_tree_below)
    from hoareD [OF remove_step_shrinks [OF this] _ r] have "tree_below (fs s') (fs s)" by simp
    then have "?P d s'" using s by (auto simp: tree_below_def)
    then show "case r of Inl _ \<Rightarrow> ?P d s' | Inr _ \<Rightarrow> True" by (cases r) auto
  qed
  have cleared: "?I w3 \<and> (\<forall>c\<in>set names. ?P c w3)"
    using hoareD [OF loop_each [where I = ?I, OF each still] _ 3] w2 by simp
  have "child_names (fs w4) q = Some []"
    unfolding w4 by (rule emptied_names [OF _ q ns]) (use cleared in simp_all)
  then have "can_rmdir (fs w4) q" using Suc.prems(4) by (simp add: can_rmdir_def)
  moreover have "resolve (fs w4) False p = Some q"
    using steady_resolve [OF steady] cleared w4 by simp
  ultimately have "fs w' = remove_at q (fs w4)"
    using faultless_SafeRemove(2) [OF ok _ _ 6] by blast
  then show ?case using Suc.prems(4) by (simp add: kind_at_remove_at)
qed simp

lemma changes_strictly_below_iff: "changes (strictly_below q) w w' \<longleftrightarrow> inside q (fs w) (fs w')"
  by (auto simp: changes_def inside_def strictly_below_def)

lemma RemoveRecursiveBatched_true:
  "run_state (RemoveRecursiveBatched E p) w = (True, w') \<Longrightarrow>
     run_state (remove_rec E (Suc (height (fs w))) p) w = (Some True, w')"
  by (auto simp: RemoveRecursiveBatched_def simp del: remove_rec.simps split: prod.splits)

lemma RemoveRecursiveBatched_gone:
  assumes "faultless E" "wf_tree (fs w)" "steady (fs w) p q" "q \<noteq> []"
    and "run_state (RemoveRecursiveBatched E p) w = (True, w')"
  shows "kind_at (fs w) q = Some KDir" "kind_at (fs w') l = (if prefix q l then None else kind_at (fs w) l)"
proof -
  have res: "resolve (fs w) False p = Some q" using steady_resolve [OF assms(3)] by simp
  obtain ch w1 where 1: "run_state (GetDirectoryChildren E p) w = (ch, w1)" by fastforce
  have "ch \<noteq> None"
    using RemoveRecursiveBatched_true [OF assms(5)] 1 by (cases ch) (simp_all add: remove_body_def)
  then obtain names where "ch = Some names" by blast
  from run_GetDirectoryChildren [OF 1 [unfolded this] assms(2)] res
  show "kind_at (fs w) q = Some KDir" by auto
  have "kind_at (fs w') q = None"
    by (rule remove_rec_gone [OF assms(1-4) RemoveRecursiveBatched_true [OF assms(5)]])
  then have "kind_at (fs w') l = None" if "prefix q l"
    using kind_at_prefix [of "fs w'" l q] that by blast
  moreover have "confined q w w'"
    by (rule stays_run [OF RemoveRecursiveBatched_stays assms(5)]) (use assms(2) res in simp_all)
  ultimately show "kind_at (fs w') l = (if prefix q l then None else kind_at (fs w) l)"
    by (simp add: confined_iff)
qed

text \<open>
  C7. Completeness: when no system call fails and a removal reports success, its path named a
  directory and exactly that directory has disappeared, with everything in it and nothing else.
\<close>

theorem RemoveRecursiveBatched_complete:
  assumes "faultless E" "wf_tree (fs w)" "steady (fs w) path q" "q \<noteq> []"
    and "run_state (RemoveRecursiveBatched E path) w = (True, w')"
  shows "kind_at (fs w) q = Some KDir \<and>
    (\<forall>l. kind_at (fs w') l = (if prefix q l then None else kind_at (fs w) l))"
  using RemoveRecursiveBatched_gone [OF assms] by blast

lemma faultless_dark_env: "faultless dark_env"
  by (simp add: faultless_def dark_env_def sample_env_def)

lemma steady_sample_img:
  "steady (fs sample_world) ''/data/app/cache/img'' [''data'', ''app'', ''cache'', ''img'']"
proof -
  have "loc_str [''data'', ''app'', ''cache'', ''img''] = ''/data/app/cache/img''" by code_simp
  moreover have "kind_at (fs sample_world) [''data'', ''app'', ''cache'', ''img''] = Some KDir" by code_simp
  ultimately show ?thesis using steady_loc_str [OF wf_sample_tree] by (metis list.distinct(1))
qed

theorem RemoveRecursiveBatched_complete_witness:
  "kind_at (fs (snd (run_state (RemoveRecursiveBatched dark_env ''/data/app/cache/img'') sample_world)))
     [''data'', ''app'', ''cache'', ''img'', ''a''] = None"
proof -
  have "fst (run_state (RemoveRecursiveBatched dark_env ''/data/app/cache/img'') sample_world)"
    by code_simp
  then have "run_state (RemoveRecursiveBatched dark_env ''/data/app/cache/img'') sample_world =
    (True, snd (run_state (RemoveRecursiveBatched dark_env ''/data/app/cache/img'') sample_world))"
    by (cases "run_state (RemoveRecursiveBatched dark_env ''/data/app/cache/img'') sample_world") simp
  from RemoveRecursiveBatched_complete [OF faultless_dark_env wf_sample_tree steady_sample_img _ this]
  show ?thesis by simp
qed

subsection \<open>Cleaning a cache directory\<close>

lemma CleanDirectorySafely_stays:
  assumes wf: "wf_tree (fs w)" and res: "\<And>q. resolve (fs w) False (cd_path d) = Some q \<Longrightarrow> strictly_below q \<subseteq> S"
  shows "stays w (changes S) (CleanDirectorySafely E d)"
  unfolding stays_def
proof (intro allI impI)
  fix v :: world assume v: "tree_below (fs v) (fs w)"
  have wfv: "wf_tree (fs v)" using wf v by (rule wf_tree_below)
  obtain v0 where 0: "run_state (LOGI E (''Starting safe clean of: '' @ cd_path d)) v = ((), v0)"
    and f0: "fs v0 = fs v" by simp
  obtain ch v1 where 1: "run_state (GetDirectoryChildren E (cd_path d)) v0 = (ch, v1)" by fastforce
  have f1: "fs v1 = fs v" using keeps_fs [OF GetDirectoryChildren_keeps 1] f0 by simp
  show "changes S v (snd (run_state (CleanDirectorySafely E d) v))"
  proof (cases ch)
    case None
    then show ?thesis using 0 1 f1 by (simp add: CleanDirectorySafely_def changes_same_fs)
  next
    case (Some names)
    from run_GetDirectoryChildren [OF 1 [unfolded Some]] f0 wfv
    obtain q where q: "resolve (fs v) False (cd_path d) = Some q" "kind_at (fs v) q = Some KDir"
      and names: "\<And>c. c \<in> set names \<Longrightarrow> plain_name c" by auto
    have qS: "strictly_below q \<subseteq> S" using res resolve_mono [OF q(1) v] by blast
    have child: "stays v1 (changes S) (RemoveRecursiveBatched E (cd_path d @ ''/'' @ c))" if c: "c \<in> set names" for c
    proof (rule stays_mono [OF RemoveRecursiveBatched_stays])
      show "wf_tree (fs v1)" using wfv f1 by simp
      show "prefix (q @ [c]) l" if "resolve (fs v1) False (cd_path d @ ''/'' @ c) = Some l" for l
        using child_resolves_below [OF q names [OF c]] that f1 by simp
      show "changes S s t" if "confined (q @ [c]) s t" for s t
        using that subset_trans [OF at_below_child qS] by (rule changes_mono)
    qed
    have "stays v1 (changes S) (do {
        r \<leftarrow> loop (\<lambda>child (_ :: unit). do {
            ok \<leftarrow> RemoveRecursiveBatched E (cd_path d @ ''/'' @ child);
            if \<not> ok then do { LOGW E (''Cleanup aborted for: '' @ cd_path d); ret (Inr False) }
            else ret (Inl ()) }) names ();
        (case r of Inr v \<Rightarrow> ret v
         | Inl _ \<Rightarrow> do {
             LOGI E (''Completed clean of: '' @ cd_path d);
             state \<leftarrow> GetPackageState (cd_pkg_name d);
             now \<leftarrow> GetCurrentTimeMs E;
             UpdatePackageState (cd_pkg_name d) (cleaned_state now state);
             SaveStateAtomic E;
             ret True }) })"
      unfolding GetPackageState_def GetCurrentTimeMs_def
      by (intro changes.s_rules child changes.s_pres quiet_changes changes.p_get
          keeps_sense_changes [OF observe_keeps]) simp_all
    then show ?thesis
      using 0 1 Some f1 unfolding stays_def
      by (force simp: CleanDirectorySafely_def changes_def split: prod.splits)
  qed
qed

text \<open>
  The loop over the children: it stops with \<open>False\<close> at the first one that is not a directory.
\<close>

definition clean_child :: "env \<Rightarrow> string \<Rightarrow> string \<Rightarrow> unit \<Rightarrow> (unit + bool) io" where
  "clean_child E path child _ = do {
     ok \<leftarrow> RemoveRecursiveBatched E (path @ ''/'' @ child);
     if \<not> ok then do { LOGW E (''Cleanup aborted for: '' @ path); ret (Inr False) }
     else ret (Inl ()) }"

lemma clean_child_False: "fst (run_state (clean_child E p c u) s) \<noteq> Inr True"
  by (auto simp: clean_child_def split: prod.split)

lemma clean_child_file:
  assumes "wf_tree (fs s)" "resolve (fs s) False (p @ ''/'' @ c) = Some l" "kind_at (fs s) l \<noteq> Some KDir"
  shows "fst (run_state (clean_child E p c u) s) = Inr False"
proof -
  obtain ok s' where r: "run_state (RemoveRecursiveBatched E (p @ ''/'' @ c)) s = (ok, s')" by fastforce
  obtain ch s1 where 1: "run_state (GetDirectoryChildren E (p @ ''/'' @ c)) s = (ch, s1)" by fastforce
  have "ch = None"
    using run_GetDirectoryChildren [of E "p @ ''/'' @ c" s _ s1] 1 assms by (cases ch) auto
  then have "\<not> ok"
    using r 1 by (auto simp: RemoveRecursiveBatched_def remove_body_def)
  then show ?thesis using r by (simp add: clean_child_def)
qed

lemma CleanDirectorySafely_eq:
  "CleanDirectorySafely E d = do {
     LOGI E (''Starting safe clean of: '' @ cd_path d);
     children \<leftarrow> GetDirectoryChildren E (cd_path d);
     (case children of
        None \<Rightarrow> ret True
      | Some names \<Rightarrow> do {
          r \<leftarrow> loop (clean_child E (cd_path d)) names ();
          (case r of
             Inr v \<Rightarrow> ret v
           | Inl _ \<Rightarrow> do {
               LOGI E (''Completed clean of: '' @ cd_path d);
               state \<leftarrow> GetPackageState (cd_pkg_name d);
               now \<leftarrow> GetCurrentTimeMs E;
               UpdatePackageState (cd_pkg_name d) (cleaned_state now state);
               SaveStateAtomic E;
               ret True }) }) }"
  unfolding CleanDirectorySafely_def clean_child_def ..

lemma steady_child_resolve:
  "steady t p q \<Longrightarrow> inside q t s \<Longrightarrow> plain_name c \<Longrightarrow> kind_at s (q @ [c]) \<noteq> None \<Longrightarrow>
     resolve s False (p @ ''/'' @ c) = Some (q @ [c])"
  by (rule steady_resolve [OF steady_child inside_refl]) (auto intro: steady_inside)

lemma clean_child_inside:
  fixes w s :: world
  assumes wf: "wf_tree (fs w)" and steady: "steady (fs w) p q" and q: "kind_at (fs w) q = Some KDir"
    and c: "plain_name c" and s: "inside q (fs w) (fs s)"
    and run: "run_state (clean_child E p c u) s = (r, s')"
  shows "inside q (fs w) (fs s')" "confined (q @ [c]) s s'"
proof -
  have wfs: "wf_tree (fs s)" using wf s by (auto simp: inside_def intro: wf_tree_below)
  have "stays s (confined (q @ [c])) (clean_child E p c u)"
    unfolding clean_child_def
  proof (intro changes.s_rules RemoveRecursiveBatched_stays changes.s_pres keeps_sense_changes [OF Log_keeps_sense])
    show "prefix (q @ [c]) l" if "resolve (fs s) False (p @ ''/'' @ c) = Some l" for l
      using child_resolves_below [OF steady_resolve [OF steady s] _ c that] inside_kind [OF s] q by simp
  qed (rule wfs)
  then show "confined (q @ [c]) s s'" using run by (rule stays_run)
  then show "inside q (fs w) (fs s')" using s confined_inside by (blast intro: inside_trans)
qed

lemma clean_child_gone:
  fixes w s :: world
  assumes ok: "faultless E" and wf: "wf_tree (fs w)" and steady: "steady (fs w) p q"
    and c: "plain_name c" and s: "inside q (fs w) (fs s)" and q: "kind_at (fs w) q = Some KDir"
    and run: "run_state (clean_child E p c u) s = (Inl x, s')"
  shows "kind_at (fs s') (q @ [c]) = None"
proof (cases "kind_at (fs s) (q @ [c]) = None")
  case True
  then show ?thesis
    using clean_child_inside(2) [OF wf steady q c s run] by (auto simp: confined_iff tree_below_def)
next
  case False
  have wfs: "wf_tree (fs s)" using wf s by (auto simp: inside_def intro: wf_tree_below)
  obtain b s1 where r: "run_state (RemoveRecursiveBatched E (p @ ''/'' @ c)) s = (b, s1)" by fastforce
  then have b: "b" "s' = s1" using run by (cases b; simp add: clean_child_def)+
  have "steady (fs s) (p @ ''/'' @ c) (q @ [c])"
    by (rule steady_child [OF steady_inside [OF steady s] c False])
  from RemoveRecursiveBatched_gone(2) [OF ok wfs this _ r [unfolded eqTrueI [OF b(1)]], of "q @ [c]"]
  show ?thesis using b(2) by simp
qed

text \<open>What is known after the directory has been listed.\<close>

lemma listed:
  fixes w w1 :: world
  assumes "faultless E" "wf_tree (fs w)" "steady (fs w) p q" "kind_at (fs w) q = Some KDir"
    and "fs w0 = fs w" "run_state (GetDirectoryChildren E p) w0 = (ch, w1)"
  shows "fs w1 = fs w" "\<exists>names. ch = Some names \<and> (\<forall>c. c \<in> set names \<longleftrightarrow> kind_at (fs w) (q @ [c]) \<noteq> None) \<and>
    (\<forall>c\<in>set names. plain_name c)"
proof -
  show "fs w1 = fs w" using keeps_fs [OF GetDirectoryChildren_keeps assms(6)] assms(5) by simp
  have res: "resolve (fs w0) False p = Some q" using steady_resolve [OF assms(3)] assms(5) by simp
  obtain ns where ns: "child_names (fs w0) q = Some ns"
    using child_names_iff [of "fs w0" q] assms(4,5) by auto
  have "ch \<noteq> None"
    using assms(1,6) res ns
    by (auto simp: GetDirectoryChildren_def sys_readdir_def faulty_def faultless_def)
  then obtain names where ch: "ch = Some names" by blast
  from run_GetDirectoryChildren [OF assms(6) [unfolded ch]] assms(2,5) res
  have "child_names (fs w) q = Some names" "\<forall>c\<in>set names. plain_name c" by auto
  with ch child_names_mem show "\<exists>names. ch = Some names \<and>
      (\<forall>c. c \<in> set names \<longleftrightarrow> kind_at (fs w) (q @ [c]) \<noteq> None) \<and> (\<forall>c\<in>set names. plain_name c)"
    by blast
qed

lemma clean_children:
  fixes w w1 :: world
  assumes ok: "faultless E" and wf: "wf_tree (fs w)" and steady: "steady (fs w) p q"
    and q: "kind_at (fs w) q = Some KDir" and names: "\<And>c. c \<in> set names \<Longrightarrow> plain_name c"
    and w1: "fs w1 = fs w" and run: "run_state (loop (clean_child E p) names ()) w1 = (r, w2)"
  shows "inside q (fs w) (fs w2)"
    "r = Inl x \<Longrightarrow> c \<in> set names \<Longrightarrow> kind_at (fs w2) (q @ [c]) = None"
proof -
  let ?I = "\<lambda>s :: world. inside q (fs w) (fs s)"
  have step: "hoare ?I (clean_child E p c u) (\<lambda>r s. case r of Inl _ \<Rightarrow> ?I s | Inr _ \<Rightarrow> ?I s)"
    if "c \<in> set names" for c u
    by (rule hoareI) (use clean_child_inside(1) [OF wf steady q names [OF that]] in \<open>auto split: sum.split\<close>)
  have "case r of Inl _ \<Rightarrow> ?I w2 | Inr _ \<Rightarrow> ?I w2"
    by (rule hoareD [OF hoare_loop [where I = "\<lambda>_. ?I", OF step] _ run]) (simp_all add: w1)
  then show "?I w2" by (cases r) simp_all
  have 1: "hoare ?I (clean_child E p c u)
      (\<lambda>r s. case r of Inl _ \<Rightarrow> ?I s \<and> kind_at (fs s) (q @ [c]) = None | Inr _ \<Rightarrow> True)"
    if c: "c \<in> set names" for c u
    by (rule hoareI) (use clean_child_inside(1) [OF wf steady q names [OF c]]
        clean_child_gone [OF ok wf steady names [OF c] _ q] in \<open>auto split: sum.split\<close>)
  have 2: "hoare (\<lambda>s. ?I s \<and> kind_at (fs s) (q @ [d]) = None) (clean_child E p c u)
      (\<lambda>r s. case r of Inl _ \<Rightarrow> kind_at (fs s) (q @ [d]) = None | Inr _ \<Rightarrow> True)"
    if c: "c \<in> set names" for c d u
  proof (rule hoareI)
    fix s r s' assume s: "?I s \<and> kind_at (fs s) (q @ [d]) = None"
      and r: "run_state (clean_child E p c u) s = (r, s')"
    have "kind_at (fs s') (q @ [d]) = None"
      using clean_child_inside(2) [OF wf steady q names [OF c] _ r] s
      by (auto simp: confined_iff tree_below_def)
    then show "case r of Inl _ \<Rightarrow> kind_at (fs s') (q @ [d]) = None | Inr _ \<Rightarrow> True" by (cases r) auto
  qed
  have "case r of Inl _ \<Rightarrow> ?I w2 \<and> (\<forall>c\<in>set names. kind_at (fs w2) (q @ [c]) = None) | Inr _ \<Rightarrow> True"
    by (rule hoareD [OF loop_each [OF 1 2] _ run]) (simp_all add: w1)
  then show "kind_at (fs w2) (q @ [c]) = None" if "r = Inl x" "c \<in> set names" using that by simp
qed

lemma clean_child_keeps_file:
  fixes w s :: world
  assumes wf: "wf_tree (fs w)" and steady: "steady (fs w) p q" and q: "kind_at (fs w) q = Some KDir"
    and c: "plain_name c" and k: "k \<noteq> KDir" and s: "inside q (fs w) (fs s)" "kind_at (fs s) (q @ [f]) = Some k"
    and run: "run_state (clean_child E p c u) s = (r, s')"
  shows "inside q (fs w) (fs s') \<and> kind_at (fs s') (q @ [f]) = Some k"
proof (cases "c = f")
  case True
  have res: "resolve (fs s) False (p @ ''/'' @ c) = Some (q @ [c])"
    using steady_child_resolve [OF steady _ c] s True by simp
  obtain ch s1 where 1: "run_state (GetDirectoryChildren E (p @ ''/'' @ c)) s = (ch, s1)" by fastforce
  have "wf_tree (fs s)" using wf s by (auto simp: inside_def intro: wf_tree_below)
  then have "ch = None"
    using run_GetDirectoryChildren [of E "p @ ''/'' @ c" s _ s1] 1 res s True k by (cases ch) auto
  then have "fs s' = fs s"
    using run 1 keeps_fs [OF GetDirectoryChildren_keeps 1]
    by (auto simp: clean_child_def RemoveRecursiveBatched_def remove_body_def split: prod.splits)
  then show ?thesis using s by simp
next
  case False
  then have "\<not> prefix (q @ [c]) (q @ [f])" by simp
  then show ?thesis
    using clean_child_inside [OF wf steady q c _ run] s by (simp add: confined_iff)
qed

lemma clean_children_file:
  fixes w w1 :: world
  assumes ok: "faultless E" and wf: "wf_tree (fs w)" and steady: "steady (fs w) p q"
    and q: "kind_at (fs w) q = Some KDir" and names: "\<And>c. c \<in> set names \<Longrightarrow> plain_name c"
    and w1: "fs w1 = fs w" and run: "run_state (loop (clean_child E p) names ()) w1 = (r, w2)"
    and f: "f \<in> set names" "kind_at (fs w) (q @ [f]) = Some k" "k \<noteq> KDir"
  shows "r = Inr False" "kind_at (fs w2) (q @ [f]) = Some k"
proof -
  let ?I = "\<lambda>s :: world. inside q (fs w) (fs s) \<and> kind_at (fs s) (q @ [f]) = Some k"
  have keep: "?I s'" if "c \<in> set names" "?I s" "run_state (clean_child E p c u) s = (r, s')" for c s s' r u
    by (rule clean_child_keeps_file [OF wf steady q names [OF that(1)] f(3) _ _ that(3)]) (use that(2) in simp_all)
  have 1: "hoare ?I (clean_child E p c u) (\<lambda>r s. case r of Inl _ \<Rightarrow> ?I s \<and> c \<noteq> f | Inr v \<Rightarrow> True)"
    if c: "c \<in> set names" for c u
  proof (rule hoareI)
    fix s r s' assume s: "?I s" and r: "run_state (clean_child E p c u) s = (r, s')"
    have "r = Inr False" if "c = f"
    proof -
      have res: "resolve (fs s) False (p @ ''/'' @ c) = Some (q @ [c])"
        using steady_child_resolve [OF steady _ names [OF c]] s that by simp
      have "wf_tree (fs s)" using wf s by (auto simp: inside_def intro: wf_tree_below)
      from clean_child_file [OF this res] s that f(3) r show ?thesis by (metis fst_conv option.inject)
    qed
    with keep [OF c s r] show "case r of Inl _ \<Rightarrow> ?I s' \<and> c \<noteq> f | Inr v \<Rightarrow> True"
      by (cases r) auto
  qed
  have "case r of Inl _ \<Rightarrow> ?I w2 \<and> (\<forall>c\<in>set names. c \<noteq> f) | Inr v \<Rightarrow> True"
    by (rule hoareD [OF loop_each [OF 1] _ run]) (use w1 f(2) in \<open>auto simp: hoare_def split: sum.split\<close>)
  then have out: "\<not> isl r" using f(1) by (cases r) auto
  have "fst (run_state (loop (clean_child E p) names ()) w1) \<noteq> Inr True"
    by (rule loop_exit) (rule clean_child_False)
  then have "r \<noteq> Inr True" by (simp only: run fst_conv not_False_eq_True)
  then show "r = Inr False" using out by (cases r) simp_all
  have step: "hoare ?I (clean_child E p c u) (\<lambda>r s. case r of Inl _ \<Rightarrow> ?I s | Inr v \<Rightarrow> ?I s)"
    if c: "c \<in> set names" for c u
    by (rule hoareI) (drule (1) keep [OF c], simp split: sum.split)
  have "case r of Inl _ \<Rightarrow> ?I w2 | Inr _ \<Rightarrow> ?I w2"
    by (rule hoareD [OF hoare_loop [where I = "\<lambda>_. ?I", OF step] _ run]) (use w1 f(2) in simp_all)
  then show "kind_at (fs w2) (q @ [f]) = Some k" by (cases r) simp_all
qed

text \<open>The bookkeeping after a completed clean touches the stored states only.\<close>

definition clean_record :: "env \<Rightarrow> CacheDirInfo \<Rightarrow> bool io" where
  "clean_record E d = do {
     LOGI E (''Completed clean of: '' @ cd_path d);
     state \<leftarrow> GetPackageState (cd_pkg_name d);
     now \<leftarrow> GetCurrentTimeMs E;
     UpdatePackageState (cd_pkg_name d) (cleaned_state now state);
     SaveStateAtomic E;
     ret True }"

lemma clean_record_fs: "run_state (clean_record E d) w = (r, w') \<Longrightarrow> r \<and> fs w' = fs w"
  using pres_run [OF SaveStateAtomic_keeps]
  by (fastforce simp: clean_record_def GetPackageState_def GetCurrentTimeMs_def UpdatePackageState_def
      split: prod.splits dest: sans_state_fields(3))

text \<open>The result of a clean, without the bookkeeping.\<close>

definition clean_outcome :: "env \<Rightarrow> CacheDirInfo \<Rightarrow> bool io" where
  "clean_outcome E d = do {
     LOGI E (''Starting safe clean of: '' @ cd_path d);
     children \<leftarrow> GetDirectoryChildren E (cd_path d);
     (case children of
        None \<Rightarrow> ret True
      | Some names \<Rightarrow> do {
          r \<leftarrow> loop (clean_child E (cd_path d)) names ();
          ret (case r of Inr v \<Rightarrow> v | Inl _ \<Rightarrow> True) }) }"

lemma CleanDirectorySafely_outcome:
  "fst (run_state (CleanDirectorySafely E d) w) = fst (run_state (clean_outcome E d) w)"
  by (simp add: CleanDirectorySafely_eq clean_outcome_def split: prod.split option.split sum.split)

lemma run_CleanDirectorySafely:
  fixes w w' :: world
  assumes ok: "faultless E" and wf: "wf_tree (fs w)" and steady: "steady (fs w) (cd_path d) q"
    and q: "kind_at (fs w) q = Some KDir"
    and run: "run_state (CleanDirectorySafely E d) w = (r, w')"
  obtains w0 names b w2 where
    "fs w0 = fs w" "g_states w0 = g_states w" "disk w0 = disk w"
    "\<And>c. c \<in> set names \<longleftrightarrow> kind_at (fs w) (q @ [c]) \<noteq> None" "\<And>c. c \<in> set names \<Longrightarrow> plain_name c"
    "run_state (loop (clean_child E (cd_path d)) names ()) w0 = (b, w2)"
    "case b of Inr v \<Rightarrow> r = v \<and> w' = w2 | Inl _ \<Rightarrow> run_state (clean_record E d) w2 = (r, w')"
    "snd (run_state (clean_outcome E d) w) = w2"
proof -
  let ?w = "logged E INFO (''Starting safe clean of: '' @ cd_path d) w"
  have lw: "fs ?w = fs w" "g_states ?w = g_states w" "disk ?w = disk w"
    by simp_all
  obtain ch w0 where 1: "run_state (GetDirectoryChildren E (cd_path d)) ?w = (ch, w0)" by fastforce
  note sense = pres_run [OF GetDirectoryChildren_keeps 1]
  from listed [OF ok wf steady q lw(1) 1] obtain names where n:
    "ch = Some names" "\<And>c. c \<in> set names \<longleftrightarrow> kind_at (fs w) (q @ [c]) \<noteq> None"
    "\<And>c. c \<in> set names \<Longrightarrow> plain_name c" "fs w0 = fs w" by blast
  obtain b w2 where 2: "run_state (loop (clean_child E (cd_path d)) names ()) w0 = (b, w2)" by fastforce
  have 3: "case b of Inr v \<Rightarrow> r = v \<and> w' = w2 | Inl _ \<Rightarrow> run_state (clean_record E d) w2 = (r, w')"
    using run 1 2 n(1) by (cases b) (simp_all add: CleanDirectorySafely_eq clean_record_def)
  have 4: "snd (run_state (clean_outcome E d) w) = w2"
    using 1 2 n(1) by (cases b) (simp_all add: clean_outcome_def)
  show ?thesis
    by (rule that [OF n(4) _ _ n(2,3) 2 3 4]) (use sans_sense_fields(6,8) [OF sense] lw in simp_all)
qed

text \<open>
  Containment of a clean: whatever the environment does, cleaning a cache directory only
  deletes, and only strictly below the location of the directory; the directory stays.
\<close>

lemma CleanDirectorySafely_contained:
  assumes "wf_tree (fs w)" "resolve (fs w) False (cd_path d) = Some q"
    and "run_state (CleanDirectorySafely E d) w = (ok, w')"
  shows "tree_below (fs w') (fs w) \<and>
    (\<forall>l. \<not> strict_prefix q l \<longrightarrow> kind_at (fs w') l = kind_at (fs w) l)"
proof -
  have "changes (strictly_below q) w w'"
    by (rule stays_run [OF CleanDirectorySafely_stays assms(3)]) (simp_all add: assms(1,2))
  then show ?thesis by (simp add: changes_def strictly_below_def)
qed

definition sample_dir :: "string \<Rightarrow> CacheDirInfo" where
  "sample_dir p = \<lparr>cd_path = p, cd_pkg_name = ''app'', cd_size_bytes = 0, cd_size_calculated = False\<rparr>"

text \<open>
  C6. Completeness of a clean: when no system call fails and the clean reports success, the cache
  directory is empty afterwards, it still exists, and nothing outside it has changed.
\<close>

theorem CleanDirectorySafely_complete:
  assumes "faultless E" "wf_tree (fs w)" "steady (fs w) (cd_path d) q" "kind_at (fs w) q = Some KDir"
    and "run_state (CleanDirectorySafely E d) w = (True, w')"
  shows "kind_at (fs w') l = (if strict_prefix q l then None else kind_at (fs w) l)"
proof -
  obtain w0 names b w2 where
    0: "fs w0 = fs w" and n: "\<And>c. c \<in> set names \<longleftrightarrow> kind_at (fs w) (q @ [c]) \<noteq> None"
    "\<And>c. c \<in> set names \<Longrightarrow> plain_name c"
    and 2: "run_state (loop (clean_child E (cd_path d)) names ()) w0 = (b, w2)"
    and 3: "case b of Inr v \<Rightarrow> True = v \<and> w' = w2 | Inl _ \<Rightarrow> run_state (clean_record E d) w2 = (True, w')"
    by (rule run_CleanDirectorySafely [OF assms]) blast
  note ch = clean_children [OF assms(1-4) n(2) 0 2]
  have "fst (run_state (loop (clean_child E (cd_path d)) names ()) w0) \<noteq> Inr True"
    by (rule loop_exit) (rule clean_child_False)
  then have "b \<noteq> Inr True" by (simp only: 2 fst_conv not_False_eq_True)
  with 3 obtain x where b: "b = Inl x" and fs: "fs w' = fs w2"
    using clean_record_fs [of E d w2] by (cases b) auto
  have "kind_at (fs w') l = None" if "strict_prefix q l"
  proof -
    from that obtain c m where l: "l = q @ c # m" by (auto elim!: strict_prefixE')
    have "kind_at (fs w2) (q @ [c]) = None"
    proof (cases "c \<in> set names")
      case True
      then show ?thesis using ch(2) b by blast
    next
      case False
      then have "kind_at (fs w) (q @ [c]) = None" using n(1) by blast
      then show ?thesis using ch(1) by (auto simp: inside_def tree_below_def)
    qed
    moreover have "prefix (q @ [c]) l" using l by simp
    ultimately have "kind_at (fs w2) l = None" using kind_at_prefix by blast
    then show ?thesis using fs by simp
  qed
  then show ?thesis using ch(1) fs by (simp add: inside_def)
qed

lemma steady_sample_cache:
  "steady (fs sample_world) (cd_path (sample_dir ''/data/app/cache'')) [''data'', ''app'', ''cache'']"
proof -
  have "loc_str [''data'', ''app'', ''cache''] = cd_path (sample_dir ''/data/app/cache'')" by code_simp
  moreover have "kind_at (fs sample_world) [''data'', ''app'', ''cache''] = Some KDir" by code_simp
  ultimately show ?thesis using steady_loc_str [OF wf_sample_tree] by (metis list.distinct(1))
qed

theorem CleanDirectorySafely_complete_witness:
  "kind_at (fs (snd (run_state (CleanDirectorySafely dark_env (sample_dir ''/data/app/cache'')) sample_world)))
     [''data'', ''app'', ''cache'', ''img''] = None"
proof -
  let ?r = "run_state (CleanDirectorySafely dark_env (sample_dir ''/data/app/cache'')) sample_world"
  have "fst (run_state (clean_outcome dark_env (sample_dir ''/data/app/cache'')) sample_world)" by code_simp
  then have "fst ?r" by (simp add: CleanDirectorySafely_outcome)
  then have r: "?r = (True, snd ?r)" by (cases ?r) simp
  have k: "kind_at (fs sample_world) [''data'', ''app'', ''cache''] = Some KDir" by code_simp
  show ?thesis
    using CleanDirectorySafely_complete [OF faultless_dark_env wf_sample_tree steady_sample_cache k r,
        of "[''data'', ''app'', ''cache'', ''img'']"]
    by (simp add: strict_prefix_def)
qed

text \<open>
  C26. A cache directory with an entry that is not a directory is never cleaned to the end: the
  clean reports an abort although nothing interrupted it, the entry stays, and neither the state of
  the package nor the state file is updated.
\<close>

theorem CleanDirectorySafely_file_entry:
  assumes "faultless E" "wf_tree (fs w)" "steady (fs w) (cd_path d) q" "kind_at (fs w) q = Some KDir"
    and "kind_at (fs w) (q @ [f]) = Some k" "k \<noteq> KDir"
    and "run_state (CleanDirectorySafely E d) w = (ok, w')"
  shows "\<not> ok \<and> kind_at (fs w') (q @ [f]) = Some k \<and> g_states w' = g_states w \<and> disk w' = disk w"
proof -
  obtain w0 names b w2 where
    0: "fs w0 = fs w" "g_states w0 = g_states w" "disk w0 = disk w"
    and n: "\<And>c. c \<in> set names \<longleftrightarrow> kind_at (fs w) (q @ [c]) \<noteq> None"
    "\<And>c. c \<in> set names \<Longrightarrow> plain_name c"
    and 2: "run_state (loop (clean_child E (cd_path d)) names ()) w0 = (b, w2)"
    and 3: "case b of Inr v \<Rightarrow> ok = v \<and> w' = w2 | Inl _ \<Rightarrow> run_state (clean_record E d) w2 = (ok, w')"
    by (rule run_CleanDirectorySafely [OF assms(1-4,7)]) blast
  have "f \<in> set names" using n(1) assms(5) by simp
  note stuck = clean_children_file [OF assms(1-4) n(2) 0(1) 2 this assms(5,6)]
  have w': "\<not> ok" "w' = w2" using 3 stuck(1) by simp_all
  have "keeps sans_removal (loop (clean_child E (cd_path d)) names ())"
    unfolding clean_child_def
    by (intro keep.p_rules RemoveRecursiveBatched_keeps keeps_sense_removal [OF Log_keeps_sense])
  from sans_removal_fields(3,4) [OF pres_run [OF this 2]] 0 w' stuck(2) show ?thesis by simp
qed

theorem CleanDirectorySafely_file_entry_witness:
  "kind_at (fs (snd (run_state (CleanDirectorySafely dark_env (sample_dir ''/data/app'')) sample_world)))
     [''data'', ''app'', ''db''] = Some (KFile 7)"
proof -
  let ?r = "run_state (CleanDirectorySafely dark_env (sample_dir ''/data/app'')) sample_world"
  have k: "kind_at (fs sample_world) [''data'', ''app''] = Some KDir"
    "kind_at (fs sample_world) ([''data'', ''app''] @ [''db'']) = Some (KFile 7)" by code_simp+
  have "loc_str [''data'', ''app''] = cd_path (sample_dir ''/data/app'')" by code_simp
  then have "steady (fs sample_world) (cd_path (sample_dir ''/data/app'')) [''data'', ''app'']"
    using steady_loc_str [OF wf_sample_tree _ k(1)] by (metis list.distinct(1))
  from CleanDirectorySafely_file_entry [OF faultless_dark_env wf_sample_tree this k _ prod.collapse [symmetric]]
  show ?thesis by simp
qed

end
