(* ===== verification/Policy_Correct.thy ===== *)
theory Policy_Correct
  imports Cleaner_Complete
begin

section \<open>Which directories may be cleaned\<close>

text \<open>
  The string tests of \<open>IsPathUnderRoot\<close>, \<open>IsValidCachePath\<close> and \<open>ScanPackageCache\<close> are
  related to locations in the tree: what the tests accept is a directory named \<open>cache\<close> or
  \<open>code_cache\<close> strictly inside the package's data directory, links resolved.
\<close>

subsection \<open>Canonical paths\<close>

lemma loc_str_nonempty [simp]: "loc_str l \<noteq> []"
  by (cases l) (simp_all add: loc_str_def)

lemma faultless_canonical:
  assumes "faultless E" "run_state (GetCanonicalPath E p) w = (c, w')"
  shows "c = (case resolve (fs w) True p of None \<Rightarrow> [] | Some l \<Rightarrow> loc_str l)"
  using assms unfolding GetCanonicalPath_def sys_realpath_def faulty_def faultless_def
  by (auto split: option.splits)

text \<open>The last component of a canonical path is what follows its last slash.\<close>

lemma last_component:
  assumes "list_all plain_name l" "l \<noteq> []"
  shows "\<exists>i. find_last_of (loc_str l) (CHR ''/'') = Some i \<and> drop (i + 1) (loc_str l) = last l"
proof -
  obtain m c where l: "l = m @ [c]" using assms(2) by (cases l rule: rev_cases) auto
  define s where "s = concat (map (\<lambda>c. CHR ''/'' # c) m)"
  have "CHR ''/'' \<notin> set c" using assms(1) l by (simp add: plain_name_def)
  then have "find_last_of (s @ CHR ''/'' # c) (CHR ''/'') = Some (length s)"
    by (rule find_last_of_append_slash)
  moreover have "loc_str l = s @ CHR ''/'' # c" using l by (simp add: loc_str_def s_def)
  ultimately show ?thesis using l by simp
qed

lemma faultless_under_root:
  assumes "faultless E" "wf_tree (fs w)" "run_state (IsPathUnderRoot E p root_dir) w = (b, w')"
  shows "b \<longleftrightarrow> (\<exists>lp lr. resolve (fs w) True p = Some lp \<and> resolve (fs w) True root_dir = Some lr \<and>
    lr \<noteq> [] \<and> strict_prefix lr lp)"
proof -
  obtain cp w1 where 1: "run_state (GetCanonicalPath E p) w = (cp, w1)" by fastforce
  obtain cr w2 where 2: "run_state (GetCanonicalPath E root_dir) w1 = (cr, w2)" by fastforce
  have fs1: "fs w1 = fs w" using GetCanonicalPath_keeps 1 by (rule keeps_fs)
  have b: "b \<longleftrightarrow> cp \<noteq> [] \<and> cr \<noteq> [] \<and> under_root cp cr"
    using assms(3) 1 2 by (auto simp: IsPathUnderRoot_def split: if_splits)
  note c = faultless_canonical [OF assms(1) 1] faultless_canonical [OF assms(1) 2, unfolded fs1]
  show ?thesis
  proof (cases "resolve (fs w) True p")
    case None
    then show ?thesis using b c(1) by simp
  next
    case p: (Some lp)
    show ?thesis
    proof (cases "resolve (fs w) True root_dir")
      case None
      then show ?thesis using b c(2) by simp
    next
      case r: (Some lr)
      have "under_root (loc_str lp) (loc_str lr) \<longleftrightarrow> strict_prefix lr lp \<and> lr \<noteq> []"
        using under_root_loc resolve_wf [OF assms(2) p] resolve_wf [OF assms(2) r] by blast
      then show ?thesis using b c p r by auto
    qed
  qed
qed

text \<open>
  The containment test is exact: when \<open>realpath\<close> does not fail, \<open>IsPathUnderRoot\<close> accepts a path
  exactly when, with every link resolved, it lies strictly below the root, and the root is not the
  file system root; a sibling whose name merely starts with the root's name is refused.
\<close>

lemma IsPathUnderRoot_exact:
  assumes "faultless E" "wf_tree (fs w)"
  shows "fst (run_state (IsPathUnderRoot E path root_dir) w) \<longleftrightarrow>
    (\<exists>lp lr. resolve (fs w) True path = Some lp \<and> resolve (fs w) True root_dir = Some lr \<and>
       lr \<noteq> [] \<and> strict_prefix lr lp)"
  using faultless_under_root [OF assms prod.collapse [symmetric]] .

text \<open>What \<open>IsValidCachePath\<close> accepts, whatever fails.\<close>

definition cache_location :: "node \<Rightarrow> string \<Rightarrow> string list \<Rightarrow> bool" where
  "cache_location t dir q \<longleftrightarrow>
     (\<exists>d. resolve t True dir = Some d \<and> d \<noteq> [] \<and> strict_prefix d q \<and> allowed_name (last q))"

lemma IsValidCachePath_sound:
  assumes wf: "wf_tree (fs w)" and run: "run_state (IsValidCachePath E path dir) w = (True, w')"
  shows "\<exists>q. resolve (fs w) True path = Some q \<and> cache_location (fs w) dir q"
proof -
  obtain u w1 where 1: "run_state (IsPathUnderRoot E path dir) w = (u, w1)" by fastforce
  have fs1: "fs w1 = fs w" using IsPathUnderRoot_keeps 1 by (rule keeps_fs)
  obtain c w2 where 2: "run_state (GetCanonicalPath E path) w1 = (c, w2)" by fastforce
  have u: "u" using run 1 by (cases u) (simp_all add: IsValidCachePath_def)
  have c: "c \<noteq> []" "\<exists>i. find_last_of c (CHR ''/'') = Some i \<and> allowed_name (drop (i + 1) c)"
    using run 1 2 u by (auto simp: IsValidCachePath_def split: option.splits if_splits)
  obtain q where q: "resolve (fs w) True path = Some q" "c = loc_str q"
    using run_GetCanonicalPath [OF 2 c(1)] fs1 by auto
  obtain d where d: "resolve (fs w) True dir = Some d" "strict_prefix d q" "d \<noteq> []"
    using IsPathUnderRoot_sound [OF wf 1 [unfolded eqTrueI [OF u]]] q(1) by auto
  then have "q \<noteq> []" by auto
  with last_component [of q] resolve_wf [OF wf q(1)] c(2) q(2) have "allowed_name (last q)" by auto
  with d q(1) show ?thesis by (auto simp: cache_location_def)
qed

lemma IsValidCachePath_complete:
  assumes ok: "faultless E" and wf: "wf_tree (fs w)"
    and q: "resolve (fs w) True path = Some q" "cache_location (fs w) dir q"
  shows "fst (run_state (IsValidCachePath E path dir) w)"
proof -
  obtain u w1 where 1: "run_state (IsPathUnderRoot E path dir) w = (u, w1)" by fastforce
  have fs1: "fs w1 = fs w" using IsPathUnderRoot_keeps 1 by (rule keeps_fs)
  obtain c w2 where 2: "run_state (GetCanonicalPath E path) w1 = (c, w2)" by fastforce
  have u: "u" using faultless_under_root [OF ok wf 1] q by (auto simp: cache_location_def)
  have c: "c = loc_str q" using faultless_canonical [OF ok 2] fs1 q(1) by simp
  have "q \<noteq> []" using q(2) by (auto simp: cache_location_def)
  with last_component [of q] resolve_wf [OF wf q(1)] c q(2)
  have "\<exists>i. find_last_of c (CHR ''/'') = Some i \<and> allowed_name (drop (i + 1) c)"
    by (auto simp: cache_location_def)
  then show ?thesis using 1 2 u c by (auto simp: IsValidCachePath_def)
qed

text \<open>
  C13. The policy is exact: a path is a valid cache path of a package exactly when, links resolved,
  it lies strictly inside the package's data directory and its last component is \<open>cache\<close> or
  \<open>code_cache\<close>.
\<close>

theorem IsValidCachePath_exact:
  assumes "faultless E" "wf_tree (fs w)"
  shows "fst (run_state (IsValidCachePath E path dir) w) \<longleftrightarrow>
    (\<exists>q d. resolve (fs w) True path = Some q \<and> resolve (fs w) True dir = Some d \<and>
       d \<noteq> [] \<and> strict_prefix d q \<and> last q \<in> {''cache'', ''code_cache''})"
proof -
  have "fst (run_state (IsValidCachePath E path dir) w) \<longleftrightarrow>
      (\<exists>q. resolve (fs w) True path = Some q \<and> cache_location (fs w) dir q)"
    using IsValidCachePath_sound [OF assms(2), of E path dir] IsValidCachePath_complete [OF assms]
    by (cases "run_state (IsValidCachePath E path dir) w") fastforce
  then show ?thesis by (auto simp: cache_location_def allowed_name_def)
qed

theorem IsValidCachePath_exact_witness:
  "fst (run_state (IsValidCachePath dark_env ''/data/app/cache'' ''/data/app'') sample_world)"
proof -
  have "resolve (fs sample_world) True ''/data/app/cache'' = Some [''data'', ''app'', ''cache'']"
    "resolve (fs sample_world) True ''/data/app'' = Some [''data'', ''app'']" by code_simp+
  then show ?thesis
    using IsValidCachePath_exact [OF faultless_dark_env wf_sample_tree] by (simp add: strict_prefix_def)
qed

subsection \<open>Scanning a package\<close>

text \<open>
  A candidate is listed when it is a real directory (no link) and is either a valid cache path or
  starts with the external root.
\<close>

definition listed_candidate :: "node \<Rightarrow> PackageInfo \<Rightarrow> string \<Rightarrow> bool" where
  "listed_candidate t pkg cand \<longleftrightarrow> (\<exists>q. resolve t False cand = Some q \<and> kind_at t q = Some KDir \<and>
     (cache_location t (pi_data_dir pkg) q \<or> prefix external_root cand))"

definition cache_info :: "PackageInfo \<Rightarrow> string \<Rightarrow> CacheDirInfo" where
  "cache_info pkg cand = \<lparr>cd_path = cand, cd_pkg_name = pi_name pkg, cd_size_bytes = 0, cd_size_calculated = False\<rparr>"

lemma resolve_dir_follow: "resolve t False p = Some q \<Longrightarrow> kind_at t q = Some KDir \<Longrightarrow> resolve t True p = Some q"
  unfolding resolve_def by (auto split: if_splits intro: walk_nofollow_dir)

lemma scan_step_result:
  assumes wf: "wf_tree (fs w)" and run: "run_state (scan_step E pkg cand ds) w = (r, w')"
  shows "r = Inl ds \<or> (r = Inl (ds @ [cache_info pkg cand]) \<and> listed_candidate (fs w) pkg cand)"
    and "faultless E \<Longrightarrow> r = Inl (if listed_candidate (fs w) pkg cand then ds @ [cache_info pkg cand] else ds)"
    and "fs w' = fs w" "g_config w' = g_config w"
proof -
  obtain v w1 where 1: "run_state (IsValidCachePath E cand (pi_data_dir pkg)) w = (v, w1)" by fastforce
  have fs1: "fs w1 = fs w" using IsValidCachePath_keeps 1 by (rule keeps_fs)
  obtain st w2 where 2: "run_state (sys_lstat E cand) w1 = (st, w2)" by fastforce
  have k: "keeps sans_sense (scan_step E pkg cand ds)"
    unfolding scan_step_def by (intro keep.p_rules frame_intros)
  then show "fs w' = fs w" using run by (rule keeps_fs)
  from k show "g_config w' = g_config w" using run by (rule keeps_config)
  have r: "r = Inl (if (v \<or> prefix external_root cand) \<and> st = Some KDir then ds @ [cache_info pkg cand] else ds)"
    using run 1 2 by (auto simp: scan_step_def str_find_zero cache_info_def split: if_splits)
  have listed: "listed_candidate (fs w) pkg cand" if vx: "v \<or> prefix external_root cand" and st: "st = Some KDir"
  proof -
    obtain q where q: "resolve (fs w) False cand = Some q" "kind_at (fs w) q = Some KDir"
      using run_lstat [OF 2 [unfolded st]] fs1 by auto
    have "cache_location (fs w) (pi_data_dir pkg) q" if "v"
      using IsValidCachePath_sound [OF wf 1 [unfolded eqTrueI [OF that]]] resolve_dir_follow [OF q] by auto
    with vx q show ?thesis by (auto simp: listed_candidate_def)
  qed
  then show "r = Inl ds \<or> (r = Inl (ds @ [cache_info pkg cand]) \<and> listed_candidate (fs w) pkg cand)"
    using r by auto
  assume ok: "faultless E"
  have "(v \<or> prefix external_root cand) \<and> st = Some KDir" if "listed_candidate (fs w) pkg cand"
  proof -
    from that obtain q where q: "resolve (fs w) False cand = Some q" "kind_at (fs w) q = Some KDir"
      "cache_location (fs w) (pi_data_dir pkg) q \<or> prefix external_root cand"
      by (auto simp: listed_candidate_def)
    have "st = Some KDir" using faultless_lstat [OF ok, of cand w1] 2 q(1,2) fs1 by simp
    moreover have "v" if "cache_location (fs w) (pi_data_dir pkg) q"
      using IsValidCachePath_complete [OF ok wf resolve_dir_follow [OF q(1,2)] that] 1 by simp
    ultimately show ?thesis using q(3) by blast
  qed
  with listed r show "r = Inl (if listed_candidate (fs w) pkg cand then ds @ [cache_info pkg cand] else ds)"
    by auto
qed

text \<open>Whether the configuration lets the package be scanned at all.\<close>

definition package_included :: "Configuration \<Rightarrow> PackageInfo \<Rightarrow> bool" where
  "package_included g pkg \<longleftrightarrow> (if pi_is_system pkg then include_system_apps g else include_user_apps g)"

lemma subseq_subset: "subseq xs ys \<Longrightarrow> set xs \<subseteq> set ys"
  by (induction rule: list_emb.induct) auto

lemma scan_loop_sound:
  "wf_tree (fs w) \<Longrightarrow> run_state (loop (scan_step E pkg) cands ds) w = (r, w') \<Longrightarrow>
     \<exists>xs. r = Inl (ds @ map (cache_info pkg) xs) \<and> subseq xs (filter (listed_candidate (fs w) pkg) cands) \<and>
       (faultless E \<longrightarrow> xs = filter (listed_candidate (fs w) pkg) cands)"
proof (induction cands arbitrary: ds w)
  case Nil
  then show ?case by (intro exI [of _ "[]"]) auto
next
  case (Cons c cs)
  obtain r1 w1 where 1: "run_state (scan_step E pkg c ds) w = (r1, w1)" by fastforce
  note step = scan_step_result [OF Cons.prems(1) 1]
  let ?L = "listed_candidate (fs w) pkg"
  obtain ys where ys: "r1 = Inl (ds @ map (cache_info pkg) ys)" "ys = [] \<or> ys = [c] \<and> ?L c"
    "faultless E \<longrightarrow> ys = (if ?L c then [c] else [])"
  proof -
    have "r1 = Inl (ds @ map (cache_info pkg) []) \<or> r1 = Inl (ds @ map (cache_info pkg) [c]) \<and> ?L c"
      using step(1) by auto
    then show ?thesis
      using step(2) that [of "[]"] that [of "[c]"] by (cases "?L c") auto
  qed
  have "run_state (loop (scan_step E pkg) cs (ds @ map (cache_info pkg) ys)) w1 = (r, w')"
    using Cons.prems(2) 1 ys(1) by simp
  from Cons.IH [OF _ this] step(3) Cons.prems(1) obtain xs where xs:
    "r = Inl (ds @ map (cache_info pkg) (ys @ xs))" "subseq xs (filter ?L cs)"
    "faultless E \<longrightarrow> xs = filter ?L cs" by auto
  have "subseq (ys @ xs) (filter ?L (c # cs))"
    using ys(2) xs(2) by auto
  with xs ys(3) show ?case by (intro exI [of _ "ys @ xs"]) simp
qed

lemma ScanPackageCache_sound:
  assumes "wf_tree (fs w)" "run_state (ScanPackageCache E pkg) w = (ds, w')" "d \<in> set ds"
  shows "\<exists>cand\<in>set (cache_candidates (g_config w) pkg).
    d = cache_info pkg cand \<and> listed_candidate (fs w) pkg cand \<and> package_included (g_config w) pkg"
proof -
  have inc: "package_included (g_config w) pkg"
    using assms(2,3) by (auto simp: ScanPackageCache_def package_included_def split: if_splits)
  obtain r w1 where 1: "run_state (loop (scan_step E pkg) (cache_candidates (g_config w) pkg) []) w = (r, w1)"
    by fastforce
  obtain xs where xs: "r = Inl (map (cache_info pkg) xs)"
    "subseq xs (filter (listed_candidate (fs w) pkg) (cache_candidates (g_config w) pkg))"
    using scan_loop_sound [OF assms(1) 1] by auto
  have "ds = map (cache_info pkg) xs"
    using assms(2) 1 xs(1) inc by (auto simp: ScanPackageCache_def package_included_def split: if_splits)
  moreover have "set xs \<subseteq> set (filter (listed_candidate (fs w) pkg) (cache_candidates (g_config w) pkg))"
    using xs(2) by (rule subseq_subset)
  ultimately show ?thesis using assms(3) inc by auto
qed

text \<open>
  C16. The scan of a package is exact: when no system call fails it lists, in the order of the
  candidates, those that are real directories (links are not followed) and are either a cache
  location of the package or a path under the external root; and nothing for a package the
  configuration leaves out.
\<close>

theorem ScanPackageCache_exact:
  assumes "faultless E" "wf_tree (fs w)"
  shows "fst (run_state (ScanPackageCache E pkg) w) =
    (if package_included (g_config w) pkg
     then map (cache_info pkg) (filter (listed_candidate (fs w) pkg) (cache_candidates (g_config w) pkg))
     else [])"
proof -
  obtain r w1 where 1: "run_state (loop (scan_step E pkg) (cache_candidates (g_config w) pkg) []) w = (r, w1)"
    by fastforce
  have "r = Inl (map (cache_info pkg) (filter (listed_candidate (fs w) pkg) (cache_candidates (g_config w) pkg)))"
    using scan_loop_sound [OF assms(2) 1] assms(1) by auto
  then show ?thesis using 1 by (simp add: ScanPackageCache_def package_included_def)
qed

definition sample_package :: PackageInfo where
  "sample_package = \<lparr>pi_name = ''app'', pi_data_dir = ''/data/app'', pi_uid = 10001, pi_is_system = False\<rparr>"

theorem ScanPackageCache_exact_witness:
  "map cd_path (fst (run_state (ScanPackageCache dark_env sample_package) sample_world)) = [''/data/app/cache'']"
proof -
  have 1: "resolve (fs sample_world) False ''/data/app/cache'' = Some [''data'', ''app'', ''cache'']"
    "resolve (fs sample_world) False ''/data/app/code_cache'' = None"
    "resolve (fs sample_world) False ''/sdcard/Android/data/app/cache'' = None"
    "resolve (fs sample_world) True ''/data/app'' = Some [''data'', ''app'']"
    "kind_at (fs sample_world) [''data'', ''app'', ''cache''] = Some KDir" by code_simp+
  have 2: "package_included (g_config sample_world) sample_package"
    "cache_candidates (g_config sample_world) sample_package =
      [''/data/app/cache'', ''/data/app/code_cache'', ''/sdcard/Android/data/app/cache'']" by code_simp+
  have "cache_location (fs sample_world) (pi_data_dir sample_package) [''data'', ''app'', ''cache'']"
    using 1(4) by (simp add: cache_location_def sample_package_def allowed_name_def strict_prefix_def)
  then have "filter (listed_candidate (fs sample_world) sample_package)
      (cache_candidates (g_config sample_world) sample_package) = [''/data/app/cache'']"
    using 1 unfolding 2(2) by (simp add: listed_candidate_def)
  from ScanPackageCache_exact [OF faultless_dark_env wf_sample_tree, of sample_package, unfolded this if_P [OF 2(1)]]
  show ?thesis by (simp add: cache_info_def)
qed

subsection \<open>Threshold\<close>

text \<open>
  The threshold: for a configured number of megabytes that is not negative the comparison is the
  one over the integers, with no overflow; a negative number becomes a threshold close to 2 to the 64,
  so that nothing is ever cleaned.
\<close>

lemma ShouldCleanCache_exact:
  "ShouldCleanCache g bytes \<longleftrightarrow>
     (if 0 \<le> sint (cache_threshold_mb g)
      then sint (cache_threshold_mb g) * 1048576 \<le> uint bytes
      else 2 ^ 64 + sint (cache_threshold_mb g) * 1048576 \<le> uint bytes)"
  unfolding ShouldCleanCache_def word_le_def threshold_bytes_def uint_mb
  by (cases "0 \<le> sint (cache_threshold_mb g)") simp_all

subsection \<open>Sizes\<close>

text \<open>
  The abstract size of a tree: the bytes of its files and link targets, as a natural number.
  Names within a directory are distinct, as in every file system.
\<close>

fun tree_bytes :: "node \<Rightarrow> nat" where
  "tree_bytes (File n) = unat n"
| "tree_bytes (Link tgt) = length tgt"
| "tree_bytes (Dir ch) = sum_list (map (\<lambda>x. tree_bytes (snd x)) ch)"

fun unique_names :: "node \<Rightarrow> bool" where
  "unique_names (Dir ch) \<longleftrightarrow> distinct (map fst ch) \<and> (\<forall>x\<in>set ch. unique_names (snd x))"
| "unique_names t = True"

lemma unique_names_lookup: "unique_names t \<Longrightarrow> lookup t l = Some x \<Longrightarrow> unique_names x"
proof (induction t l rule: lookup.induct)
  case (2 ch c cs)
  then obtain y where y: "map_of ch c = Some y" "lookup y cs = Some x" by (auto split: option.splits)
  with 2 map_of_SomeD [OF y(1)] show ?case by force
qed auto

lemma st_size_leaf: "kind_of x \<noteq> KDir \<Longrightarrow> st_size (kind_of x) = of_nat (tree_bytes x)"
  by (cases x) simp_all

lemma size_loop_exact:
  assumes step: "\<And>x v acc. x \<in> set ch \<Longrightarrow> fs v = fs w \<Longrightarrow>
    fst (run_state (size_step E (dir_size E n) p (fst x) acc) v) = Inl (acc + of_nat (tree_bytes (snd x)))"
  shows "set xs \<subseteq> set ch \<Longrightarrow> fs v = fs w \<Longrightarrow>
    fst (run_state (loop (size_step E (dir_size E n) p) (map fst xs) acc) v) =
      Inl (acc + of_nat (tree_bytes (Dir xs)))"
proof (induction xs arbitrary: v acc)
  case (Cons x xs)
  obtain r v1 where r: "run_state (size_step E (dir_size E n) p (fst x) acc) v = (r, v1)" by fastforce
  have "r = Inl (acc + of_nat (tree_bytes (snd x)))" using step [of x v acc] Cons.prems r by simp
  moreover have "fs v1 = fs w"
    using keeps_fs [OF size_step_keeps [OF dir_size_keeps] r] Cons.prems by simp
  ultimately show ?case using r Cons.IH [of v1] Cons.prems by (simp add: add.assoc)
qed simp

lemma size_step_exact:
  fixes w :: world
  assumes ok: "faultless E" and deep: "deep_enough (fs w) (Suc n) p"
    and l: "resolve (fs w) False p = Some l" "lookup (fs w) l = Some (Dir ch)"
    and x: "distinct (map fst ch)" "x \<in> set ch" "plain_name (fst x)" and v: "fs v = fs w"
    and exact: "\<And>v q m sub. fs v = fs w \<Longrightarrow> deep_enough (fs w) n q \<Longrightarrow> resolve (fs w) False q = Some m \<Longrightarrow>
      lookup (fs w) m = Some (Dir sub) \<Longrightarrow> fst (run_state (dir_size E n q) v) = Some (of_nat (tree_bytes (Dir sub)))"
  shows "fst (run_state (size_step E (dir_size E n) p (fst x) acc) v) = Inl (acc + of_nat (tree_bytes (snd x)))"
proof -
  have dir: "kind_at (fs w) l = Some KDir" using l(2) by (simp add: kind_at_def)
  have "map_of ch (fst x) = Some (snd x)" using x(1,2) by (simp add: map_of_is_SomeI)
  then have lx: "lookup (fs w) (l @ [fst x]) = Some (snd x)" using l(2) by (simp add: lookup_append)
  then have kx: "kind_at (fs w) (l @ [fst x]) = Some (kind_of (snd x))" by (simp add: kind_at_def)
  have rx: "resolve (fs w) False (p @ ''/'' @ fst x) = Some (l @ [fst x])"
    using resolve_child [OF l(1) dir x(3)] kx by simp
  obtain st v1 where 2: "run_state (sys_lstat E (p @ ''/'' @ fst x)) v = (st, v1)" by fastforce
  have v1: "fs v1 = fs w" using keeps_fs [OF file_reads_keep(4) 2] v by simp
  have st: "st = Some (kind_of (snd x))"
    using faultless_lstat [OF ok, of "p @ ''/'' @ fst x" v] 2 v rx kx by simp
  show ?thesis
  proof (cases "snd x")
    case (Dir sub)
    have "deep_enough (fs w) n (p @ ''/'' @ fst x)"
      by (rule deep_enough_child [OF deep l(1) dir x(3)]) (use kx Dir in simp)
    from exact [OF v1 this rx lx [unfolded Dir]] Dir
    have "fst (run_state (dir_size E n (p @ ''/'' @ fst x)) v1) = Some (of_nat (tree_bytes (snd x)))" by simp
    then show ?thesis using 2 st Dir by (auto simp: size_step_def Let_def split: prod.split)
  qed (use 2 st st_size_leaf [of "snd x"] in \<open>auto simp: size_step_def Let_def\<close>)
qed

lemma dir_size_exact:
  assumes "faultless E"
  shows "wf_tree (fs w) \<Longrightarrow> unique_names (fs w) \<Longrightarrow> deep_enough (fs w) n p \<Longrightarrow>
    resolve (fs w) False p = Some l \<Longrightarrow> lookup (fs w) l = Some (Dir ch) \<Longrightarrow>
    fst (run_state (dir_size E n p) w) = Some (of_nat (tree_bytes (Dir ch)))"
proof (induction n arbitrary: p w l ch)
  case 0
  then show ?case by (simp add: deep_enough_def)
next
  case (Suc n)
  note wf = Suc.prems(1) and l = Suc.prems(4) and look = Suc.prems(5)
  have dir: "kind_at (fs w) l = Some KDir" using look by (simp add: kind_at_def)
  have names: "child_names (fs w) l = Some (map fst ch)" using look by (simp add: child_names_def)
  obtain cs w1 where 1: "run_state (GetDirectoryChildren E p) w = (cs, w1)" by fastforce
  have f1: "fs w1 = fs w" using GetDirectoryChildren_keeps 1 by (rule keeps_fs)
  have "cs \<noteq> None" using 1 l names assms
    by (auto simp: GetDirectoryChildren_def sys_readdir_def faulty_def faultless_def)
  with run_GetDirectoryChildren [OF _ wf, of E p] 1 l names
  have cs: "cs = Some (map fst ch)" and plain: "\<And>c. c \<in> fst ` set ch \<Longrightarrow> plain_name c"
    by fastforce+
  have un: "distinct (map fst ch)" "\<And>x. x \<in> set ch \<Longrightarrow> unique_names (snd x)"
    using unique_names_lookup [OF Suc.prems(2) look] by simp_all
  have step: "fst (run_state (size_step E (dir_size E n) p (fst x) acc) v) = Inl (acc + of_nat (tree_bytes (snd x)))"
    if "x \<in> set ch" "fs v = fs w" for x acc v
    by (rule size_step_exact [OF assms Suc.prems(3) l look un(1) that(1) _ that(2)])
      (use plain that Suc.IH wf Suc.prems(2) in auto)
  have "fst (run_state (loop (size_step E (dir_size E n) p) (map fst ch) 0) w1) =
      Inl (0 + of_nat (tree_bytes (Dir ch)))"
    by (rule size_loop_exact [where ch = ch, OF step]) (auto simp: f1)
  then show ?case
    using 1 cs f1 by (auto split: prod.split)
qed

lemma directory_size:
  assumes "faultless E" "wf_tree (fs w)" "unique_names (fs w)"
    and "resolve (fs w) False path = Some l" "lookup (fs w) l = Some (Dir ch)"
  shows "fst (run_state (GetDirectorySize E path) w) = of_nat (tree_bytes (Dir ch))"
  using dir_size_exact [OF assms(1-3) deep_enough_height assms(4,5)]
  by (auto simp: GetDirectorySize_def simp del: dir_size.simps split: prod.splits)

text \<open>
  C28. The measured size: when no system call fails, \<open>GetDirectorySize\<close> of a directory is the sum of
  the sizes of all files and links below it, modulo 2 to the 64; links are not followed.
\<close>

theorem GetDirectorySize_exact:
  assumes "faultless E" "wf_tree (fs w)" "unique_names (fs w)"
    and "resolve (fs w) False path = Some l" "lookup (fs w) l = Some (Dir ch)"
  shows "fst (run_state (GetDirectorySize E path) w) = of_nat (tree_bytes (Dir ch))"
  by (rule directory_size [OF assms])

theorem GetDirectorySize_exact_witness:
  "fst (run_state (GetDirectorySize dark_env ''/data/app/cache'') sample_world) = 15"
proof -
  have 1: "unique_names (fs sample_world)"
    "resolve (fs sample_world) False ''/data/app/cache'' = Some [''data'', ''app'', ''cache'']" by code_simp+
  have "lookup (fs sample_world) [''data'', ''app'', ''cache''] =
      Some (Dir [(''img'', Dir [(''a'', File 10), (''up'', Link ''/data'')])])" by code_simp
  from GetDirectorySize_exact [OF faultless_dark_env wf_sample_tree 1 this] show ?thesis by simp
qed

end
