(* ===== verification/State_Correct.thy ===== *)
theory State_Correct
  imports Policy_Correct
begin

section \<open>The package states and their file\<close>

text \<open>
  The store as an interface with its law, the round trip through the file, and what loading does
  with files that are damaged.
\<close>

subsection \<open>The store\<close>

text \<open>
  A store read and written under names, of which only a key counts (two names with the same key
  share their entry, as two packages with the same hash do).
\<close>

locale keyed_store =
  fixes key :: "'n \<Rightarrow> 'k" and get :: "'s \<Rightarrow> 'n \<Rightarrow> 'v" and put :: "'n \<Rightarrow> 'v \<Rightarrow> 's \<Rightarrow> 's"
  assumes get_put: "get (put n v s) m = (if key m = key n then v else get s m)"
begin

lemma get_put_same: "get (put n v s) n = v"
  by (simp add: get_put)

lemma get_put_other: "key m \<noteq> key n \<Longrightarrow> get (put n v s) m = get s m"
  by (simp add: get_put)

end

definition put_state :: "string \<Rightarrow> PackageState \<Rightarrow> (u32 \<times> PackageState) list \<Rightarrow> (u32 \<times> PackageState) list" where
  "put_state pkg s m = AList.update (HashPackageName pkg) s m"

interpretation store: keyed_store HashPackageName state_of put_state
  by unfold_locales (simp add: put_state_def)

lemma run_GetPackageState: "run_state (GetPackageState pkg) w = (state_of (g_states w) pkg, w)"
  by (simp add: GetPackageState_def)

lemma run_UpdatePackageState:
  "run_state (UpdatePackageState pkg s) w = ((), w\<lparr>g_states := put_state pkg s (g_states w)\<rparr>)"
  by (simp add: UpdatePackageState_def put_state_def Let_def)

text \<open>
  Lookup after update: the state read for a package after an update of another one is the new
  state when the hashes of the two names agree, and what it was before otherwise.
\<close>

lemma GetPackageState_after_update:
  "fst (run_state (do { UpdatePackageState p s; GetPackageState q }) w) =
     (if HashPackageName q = HashPackageName p then s else fst (run_state (GetPackageState q) w))"
  by (simp add: run_GetPackageState run_UpdatePackageState store.get_put)

subsection \<open>Loading\<close>

text \<open>What loading makes of the bytes of a file: \<open>None\<close> when they are rejected.\<close>

definition parse_states :: "u8 list \<Rightarrow> PackageState list option" where
  "parse_states bs =
     (let h = bytes_header bs; n = unat (sh_entry_count h);
          payload = take (n * sizeof_PackageState) (drop sizeof_StateHeader bs)
      in if sizeof_StateHeader \<le> length bs \<and> sh_magic h = STATE_MAGIC \<and> sh_version h = STATE_VERSION \<and>
            n * sizeof_PackageState \<le> length (drop sizeof_StateHeader bs) \<and>
            CalculateChecksum payload = sh_checksum h
         then Some (bytes_vector n payload) else None)"

definition load_states :: "PackageState list \<Rightarrow> (u32 \<times> PackageState) list \<Rightarrow> (u32 \<times> PackageState) list" where
  "load_states ss m = fold (\<lambda>st m. AList.update (ps_hash st) st m) ss m"

lemma run_InitializeStateStorage:
  assumes "run_state (InitializeStateStorage E) w = (u, w')"
  shows "g_states w' = (if e_fault E (tick w) STATE_FILE then g_states w
    else (case disk w STATE_FILE of None \<Rightarrow> g_states w
      | Some bs \<Rightarrow> (case parse_states bs of None \<Rightarrow> g_states w | Some ss \<Rightarrow> load_states ss (g_states w))))"
  using assms unfolding InitializeStateStorage_def read_disk_def faulty_def
  by (auto simp: parse_states_def load_states_def Let_def not_less not_le split: option.splits if_splits)

subsection \<open>Round trip\<close>

text \<open>What iterating a hash map and writing a file promise.\<close>

definition order_spec :: "env \<Rightarrow> bool" where
  "order_spec E \<longleftrightarrow> (\<forall>m. mset (e_map_order E m) = mset m)"

definition writes_complete :: "env \<Rightarrow> bool" where
  "writes_complete E \<longleftrightarrow> (\<forall>t n. e_written E t n = n)"

lemma parse_save_image:
  assumes "length m < 2 ^ 32" "order_spec E"
  shows "parse_states (save_image E ts m) = Some (map snd (e_map_order E m))"
proof -
  let ?ss = "map snd (e_map_order E m)"
  let ?pay = "vector_bytes (e_padding E) 0 ?ss"
  let ?h = "\<lparr>sh_magic = STATE_MAGIC, sh_version = STATE_VERSION, sh_timestamp = ts,
      sh_entry_count = of_nat (length ?ss), sh_checksum = CalculateChecksum ?pay\<rparr>"
  have img: "save_image E ts m = header_bytes ?h @ ?pay" by (simp add: save_image_def Let_def)
  have "length ?ss = length m"
    using assms(2) by (simp add: order_spec_def) (metis size_mset)
  then have n: "unat (of_nat (length ?ss) :: u32) = length ?ss"
    using assms(1) by (simp add: unsigned_of_nat take_bit_nat_eq_self)
  have "take (length ?ss * sizeof_PackageState) ?pay = ?pay"
    by (simp add: sizeof_PackageState_def)
  then show ?thesis
    unfolding img parse_states_def Let_def bytes_header_bytes
    using n bytes_vector_bytes [of ?ss "e_padding E" 0]
    by (simp add: sizeof_StateHeader_def sizeof_PackageState_def)
qed

lemma SaveStateAtomic_result:
  assumes "run_state (SaveStateAtomic E) w = (u, w')"
  shows "g_states w' = g_states w"
    "disk w' STATE_FILE = disk w STATE_FILE \<or>
      (\<exists>n. disk w' STATE_FILE = Some (take (e_written E n (length (save_image E (timespec_ms (e_real E (tick w))) (g_states w))))
         (save_image E (timespec_ms (e_real E (tick w))) (g_states w))))"
    "faultless E \<Longrightarrow> disk w' STATE_FILE = Some (take (e_written E (tick w + 2) (length (save_image E (timespec_ms (e_real E (tick w))) (g_states w))))
         (save_image E (timespec_ms (e_real E (tick w))) (g_states w)))"
proof -
  have ne: "STATE_FILE \<noteq> STATE_FILE_TMP" by (simp add: STATE_FILE_def STATE_FILE_TMP_def)
  show "g_states w' = g_states w"
    using assms unfolding SaveStateAtomic_def faulty_def Let_def by (auto split: if_splits)
  show "disk w' STATE_FILE = disk w STATE_FILE \<or>
      (\<exists>n. disk w' STATE_FILE = Some (take (e_written E n (length (save_image E (timespec_ms (e_real E (tick w))) (g_states w))))
         (save_image E (timespec_ms (e_real E (tick w))) (g_states w))))"
    using assms ne unfolding SaveStateAtomic_def faulty_def Let_def by (auto split: if_splits)
  show "disk w' STATE_FILE = Some (take (e_written E (tick w + 2) (length (save_image E (timespec_ms (e_real E (tick w))) (g_states w))))
         (save_image E (timespec_ms (e_real E (tick w))) (g_states w)))" if "faultless E"
    using assms that ne unfolding SaveStateAtomic_def faulty_def faultless_def Let_def by auto
qed

lemma load_saved:
  assumes "keyed m" "order_spec E"
  shows "state_of (load_states (map snd (e_map_order E m)) []) pkg = state_of m pkg"
proof -
  let ?m = "e_map_order E m"
  have k: "keyed ?m" "map_of ?m = map_of m"
    using keyed_perm [OF assms(1), of ?m] assms(2) unfolding order_spec_def by blast+
  then have "map ps_hash (map snd ?m) = map fst ?m" by (auto simp: keyed_def)
  then have d: "distinct (map ps_hash (map snd ?m))" using k(1) unfolding keyed_def by (simp only:)
  have "map_of (load_states (map snd ?m) []) h = map_of m h" for h
    unfolding load_states_def map_of_fold_update [OF d] keyed_pairs [OF k(1)] k(2)
    by (simp split: option.split)
  then show ?thesis by (simp add: state_of_def)
qed

text \<open>
  C8. Round trip: what \<open>SaveStateAtomic\<close> saves, \<open>InitializeStateStorage\<close> of a later process reads
  back, for every package, whatever the order in which the hash map is iterated and whatever the
  padding bytes are, provided the file calls succeed and the write is complete.
\<close>

theorem save_then_load:
  assumes "keyed (g_states w)" "length (g_states w) < 2 ^ 32"
    and "faultless E" "order_spec E" "writes_complete E" "faultless E'"
    and "run_state (SaveStateAtomic E) w = (u, w1)"
    and "g_states w2 = []" "disk w2 = disk w1"
    and "run_state (InitializeStateStorage E') w2 = (v, w3)"
  shows "state_of (g_states w3) pkg = state_of (g_states w) pkg"
proof -
  let ?img = "save_image E (timespec_ms (e_real E (tick w))) (g_states w)"
  have "disk w1 STATE_FILE = Some ?img"
    using SaveStateAtomic_result(3) [OF assms(7,3)] assms(5) by (simp add: writes_complete_def)
  then have "g_states w3 = load_states (map snd (e_map_order E (g_states w))) []"
    using run_InitializeStateStorage [OF assms(10)] assms(6,8,9) parse_save_image [OF assms(2,4)]
    by (simp add: faultless_def)
  then show ?thesis using load_saved [OF assms(1,4)] by simp
qed

text \<open>A store with one package, saved and read back.\<close>

definition saved_world :: world where
  "saved_world = sample_world\<lparr>g_states := [(1, default_state 1)]\<rparr>"

lemma dark_env_files: "order_spec dark_env" "writes_complete dark_env"
  by (simp_all add: order_spec_def writes_complete_def dark_env_def sample_env_def)

theorem save_then_load_witness:
  "state_of (g_states (snd (run_state (InitializeStateStorage dark_env)
       (sample_world\<lparr>disk := disk (snd (run_state (SaveStateAtomic dark_env) saved_world))\<rparr>)))) ''app'' =
     state_of (g_states saved_world) ''app''"
proof -
  have "keyed (g_states saved_world)" "length (g_states saved_world) < 2 ^ 32"
    by (simp_all add: saved_world_def keyed_def default_state_def)
  from save_then_load [OF this faultless_dark_env dark_env_files faultless_dark_env
      prod.collapse [symmetric] _ _ prod.collapse [symmetric]]
  show ?thesis by (simp add: sample_world_def boot_world_def)
qed

subsection \<open>Damage\<close>

text \<open>
  C25. What loading accepts: the package states change only when the file can be opened, is at least
  a header long, carries the magic number and the version, holds as many bytes as its entry count
  says, and these bytes add up to the checksum; in every other case they stay as they were.
\<close>

theorem InitializeStateStorage_rejects:
  assumes "run_state (InitializeStateStorage E) w = (u, w')" "g_states w' \<noteq> g_states w"
  shows "\<exists>bs payload. disk w STATE_FILE = Some bs \<and> 24 \<le> length bs \<and>
    sh_magic (bytes_header bs) = STATE_MAGIC \<and> sh_version (bytes_header bs) = STATE_VERSION \<and>
    payload = take (40 * unat (sh_entry_count (bytes_header bs))) (drop 24 bs) \<and>
    length payload = 40 * unat (sh_entry_count (bytes_header bs)) \<and>
    CalculateChecksum payload = sh_checksum (bytes_header bs)"
proof -
  obtain bs ss where bs: "disk w STATE_FILE = Some bs" "parse_states bs = Some ss"
    using assms run_InitializeStateStorage [OF assms(1)] by (auto split: if_splits option.splits)
  then show ?thesis
    by (auto simp: parse_states_def Let_def sizeof_PackageState_def sizeof_StateHeader_def
        mult.commute split: if_splits)
qed

definition loadable_world :: world where
  "loadable_world = sample_world\<lparr>disk := [STATE_FILE \<mapsto> save_image dark_env 0 [(1, default_state 1)]]\<rparr>"

lemma load_loadable_world:
  "g_states (snd (run_state (InitializeStateStorage dark_env) loadable_world)) = [(1, default_state 1)]"
proof -
  have "e_map_order dark_env m = m" for m by (simp add: dark_env_def sample_env_def)
  then have "parse_states (save_image dark_env 0 [(1, default_state 1)]) = Some [default_state 1]"
    using parse_save_image [of "[(1, default_state 1)]" dark_env 0] dark_env_files(1) by simp
  then show ?thesis
    using run_InitializeStateStorage [of dark_env loadable_world, OF prod.collapse [symmetric]] faultless_dark_env
    by (simp add: faultless_def loadable_world_def load_states_def sample_world_def boot_world_def default_state_def)
qed

theorem InitializeStateStorage_rejects_witness:
  "\<exists>bs. disk loadable_world STATE_FILE = Some bs \<and> sh_magic (bytes_header bs) = STATE_MAGIC"
proof -
  have "g_states (snd (run_state (InitializeStateStorage dark_env) loadable_world)) \<noteq> g_states loadable_world"
    unfolding load_loadable_world by (simp add: loadable_world_def sample_world_def boot_world_def)
  from InitializeStateStorage_rejects [OF prod.collapse [symmetric] this] show ?thesis by blast
qed

text \<open>The sum of the bytes, as a number, and what changing one byte does to it.\<close>

lemma CalculateChecksum_sum: "CalculateChecksum bs = of_nat (sum_list (map unat bs))"
proof -
  have "fold (\<lambda>b sum. sum + ucast b) bs (of_nat n :: u32) = of_nat (n + sum_list (map unat bs))" for n
  proof (induction bs arbitrary: n)
    case (Cons b bs)
    have "(of_nat n + ucast b :: u32) = of_nat (n + unat b)" by (simp add: unsigned_ucast_eq) 
    then show ?case using Cons.IH [of "n + unat b"] by (simp add: add.assoc)
  qed simp
  from this [of 0] show ?thesis by (simp add: CalculateChecksum_def)
qed

lemma sum_list_update_unat:
  "j < length p \<Longrightarrow> sum_list (map unat (p[j := b])) + unat (p ! j) = sum_list (map unat p) + unat b"
  by (induction p arbitrary: j) (auto split: nat.splits)

lemma checksum_update:
  assumes "j < length p" "CalculateChecksum (p[j := b]) = CalculateChecksum p"
  shows "b = p ! j"
proof -
  have "(of_nat (unat (p ! j)) :: u32) = of_nat (unat b)"
    using arg_cong [OF sum_list_update_unat [OF assms(1), of b], of "of_nat :: nat \<Rightarrow> u32"] assms(2)
    by (simp add: CalculateChecksum_sum)
  then have "unat (of_nat (unat (p ! j)) :: u32) = unat (of_nat (unat b) :: u32)" by simp
  moreover have "unat (of_nat (unat x) :: u32) = unat x" for x :: u8
  proof -
    have "unat x < 2 ^ LENGTH(8)" by (rule unsigned_less)
    then show ?thesis by (simp only: unsigned_of_nat) (simp add: take_bit_nat_eq_self)
  qed
  ultimately have "unat b = unat (p ! j)" by simp
  then show ?thesis by (rule unsigned_word_eqI)
qed

lemma bytes_header_update: "24 \<le> i \<Longrightarrow> bytes_header (bs[i := b]) = bytes_header bs"
  by (simp add: bytes_header_def drop_update_swap)

lemma parse_states_update:
  assumes "parse_states bs = Some ss" "24 \<le> i" "i < 24 + 40 * length ss" "b \<noteq> bs ! i"
  shows "parse_states (bs[i := b]) = None"
proof -
  let ?n = "unat (sh_entry_count (bytes_header bs))"
  let ?p = "take (?n * 40) (drop 24 bs)"
  have v: "24 \<le> length bs" "?n * 40 \<le> length (drop 24 bs)"
    "CalculateChecksum ?p = sh_checksum (bytes_header bs)" "ss = bytes_vector ?n ?p"
    using assms(1) by (auto simp: parse_states_def Let_def sizeof_PackageState_def sizeof_StateHeader_def split: if_splits)
  have "length (bytes_vector n xs) = n" for n xs
    by (induction n arbitrary: xs) simp_all
  then have i: "i - 24 < ?n * 40" using assms(2,3) v(4) by simp
  then have j: "i - 24 < length ?p" "?p ! (i - 24) = bs ! i" using v(2) assms(2) by simp_all
  have "take (?n * 40) (drop 24 (bs[i := b])) = ?p[i - 24 := b]"
    using assms(2) by (simp add: drop_update_swap take_update_swap)
  moreover have "CalculateChecksum (?p[i - 24 := b]) \<noteq> CalculateChecksum ?p"
    using checksum_update [OF j(1)] j(2) assms(4) by metis
  ultimately show ?thesis
    using v(3) assms(2)
    by (simp add: parse_states_def bytes_header_update Let_def sizeof_PackageState_def sizeof_StateHeader_def)
qed

text \<open>
  C17. Damage is detected: after one byte of the record array of a file that would load is changed,
  whichever byte and to whatever value, the file is rejected and the states stay as they were.
\<close>

theorem one_byte_damage_rejected:
  assumes "parse_states bs = Some ss" "24 \<le> i" "i < 24 + 40 * length ss" "b \<noteq> bs ! i"
    and "disk w STATE_FILE = Some (bs[i := b])"
    and "run_state (InitializeStateStorage E) w = (u, w')"
  shows "g_states w' = g_states w"
  using run_InitializeStateStorage [OF assms(6)] parse_states_update [OF assms(1-4)] assms(5) by simp

theorem one_byte_damage_rejected_witness:
  "g_states (snd (run_state (InitializeStateStorage dark_env)
     (sample_world\<lparr>disk := [STATE_FILE \<mapsto> (save_image dark_env 0 [(1, default_state 1)])[30 := 255]]\<rparr>))) = []"
proof -
  have p: "parse_states (save_image dark_env 0 [(1, default_state 1)]) = Some [default_state 1]"
    using parse_save_image [of "[(1, default_state 1)]" dark_env 0] dark_env_files(1)
    by (simp add: dark_env_def sample_env_def)
  have "255 \<noteq> save_image dark_env 0 [(1, default_state 1)] ! 30"
    by (simp add: save_image_def Let_def nth_append state_bytes_def pad4_def dark_env_def sample_env_def
        header_bytes_def)
  from one_byte_damage_rejected [OF p _ _ this _ prod.collapse [symmetric]]
  show ?thesis by (simp add: sample_world_def boot_world_def)
qed

lemma bytes_header_take: "24 \<le> k \<Longrightarrow> bytes_header (take k bs) = bytes_header bs"
  by (simp add: bytes_header_def drop_take min_def)

lemma parse_states_short:
  assumes "length m < 2 ^ 32" "order_spec E" "k < length (save_image E ts m)"
  shows "parse_states (take k (save_image E ts m)) = None"
proof (cases "24 \<le> k")
  case True
  let ?img = "save_image E ts m"
  have p: "parse_states ?img = Some (map snd (e_map_order E m))" by (rule parse_save_image [OF assms(1,2)])
  have "length (bytes_vector n xs) = n" for n xs
    by (induction n arbitrary: xs) simp_all
  then have "unat (sh_entry_count (bytes_header ?img)) = length (e_map_order E m)"
    using arg_cong [OF p, of "map_option length"] by (auto simp: parse_states_def Let_def split: if_splits)
  moreover have "length ?img = 24 + 40 * length (e_map_order E m)"
    by (simp add: save_image_def Let_def)
  ultimately have "\<not> unat (sh_entry_count (bytes_header ?img)) * 40 \<le> k - 24"
    using True assms(3) by linarith
  then show ?thesis
    using assms(3) by (simp add: parse_states_def bytes_header_take [OF True] Let_def
        sizeof_PackageState_def sizeof_StateHeader_def min_def)
qed (simp add: parse_states_def Let_def sizeof_StateHeader_def)

text \<open>
  C36. The save is not atomic when a write is short: no result of \<open>fwrite\<close> or \<open>fsync\<close> is looked at, the
  incomplete file replaces the good one, and the next process loads nothing.
\<close>

theorem short_write_loses_states:
  assumes "faultless E" "order_spec E" "length (g_states w) < 2 ^ 32"
    and "\<And>n. 0 < n \<Longrightarrow> e_written E (tick w + 2) n < n"
    and "run_state (SaveStateAtomic E) w = (u, w1)"
    and "g_states w2 = []" "disk w2 = disk w1"
    and "run_state (InitializeStateStorage E') w2 = (v, w3)"
  shows "g_states w3 = []"
proof -
  let ?img = "save_image E (timespec_ms (e_real E (tick w))) (g_states w)"
  have "0 < length ?img" by (simp add: save_image_def Let_def)
  then have "parse_states (take (e_written E (tick w + 2) (length ?img)) ?img) = None"
    using parse_states_short [OF assms(3,2)] assms(4) by blast
  then show ?thesis
    using SaveStateAtomic_result(3) [OF assms(5,1)] run_InitializeStateStorage [OF assms(8)] assms(6,7)
    by simp
qed

definition short_env :: env where
  "short_env = dark_env\<lparr>e_written := (\<lambda>_ n. n - 1)\<rparr>"

theorem short_write_loses_states_witness:
  "g_states (snd (run_state (InitializeStateStorage dark_env)
     (sample_world\<lparr>disk := disk (snd (run_state (SaveStateAtomic short_env) saved_world))\<rparr>))) = []"
proof -
  have 1: "faultless short_env" "order_spec short_env"
    using faultless_dark_env dark_env_files(1) by (simp_all add: short_env_def faultless_def order_spec_def)
  have 2: "length (g_states saved_world) < 2 ^ 32"
    "\<And>n. 0 < n \<Longrightarrow> e_written short_env (tick saved_world + 2) n < n"
    by (simp_all add: saved_world_def short_env_def)
  from short_write_loses_states [OF 1 2 prod.collapse [symmetric] _ _ prod.collapse [symmetric]]
  show ?thesis by (simp add: sample_world_def boot_world_def)
qed

end
