(* ===== verification/Tweaks.thy ===== *)
theory Tweaks
  imports Cleaner
begin

section \<open>system/system\_tweaks.cpp\<close>

text \<open>Boot-time writes to kernel nodes, and the two commands that force and release Doze.\<close>

definition WriteToFile :: "env \<Rightarrow> string \<Rightarrow> string \<Rightarrow> bool io" where
  "WriteToFile E path val = do {
     ok \<leftarrow> observe (\<lambda>t. e_write E t path);
     emit (WriteNode path val ok);
     ret ok
   }"

text \<open>\<open>if (WriteToFile(..)) success_count++; else fail_count++;\<close>\<close>

definition tweak :: "env \<Rightarrow> string \<Rightarrow> string \<Rightarrow> nat \<times> nat \<Rightarrow> (nat \<times> nat) io" where
  "tweak E path val counts = do {
     ok \<leftarrow> WriteToFile E path val;
     ret (if ok then (fst counts + 1, snd counts) else (fst counts, snd counts + 1))
   }"

definition read_ahead_step :: "env \<Rightarrow> string \<Rightarrow> nat \<times> nat \<Rightarrow> ((nat \<times> nat) + unit) io" where
  "read_ahead_step E entry counts = do {
     let block = ''/sys/block/'' @ entry;
     is_directory \<leftarrow> observe (\<lambda>t. e_dir E t block \<noteq> None);
     if is_directory then do {
       let path = block @ ''/queue/read_ahead_kb'';
       present \<leftarrow> observe (\<lambda>t. e_text E t path \<noteq> None);
       if present then do {
         ok \<leftarrow> WriteToFile E path ''2048'';
         if ok then ret (Inl (fst counts + 1, snd counts))
         else do {
           LOGW E (''Failed to write to '' @ path @ '' (Path locked by kernel)'');
           ret (Inl (fst counts, snd counts + 1))
         }
       }
       else ret (Inl counts)
     }
     else ret (Inl counts)
   }"

definition dexopt_cmd :: string where
  "dexopt_cmd = ''( cmd package bg-dexopt-job >/dev/null 2>&1; ) &''"

definition ApplyBootTweaks :: "env \<Rightarrow> unit io" where
  "ApplyBootTweaks E = do {
     LOGI E ''Applying Boot-Time System Tweaks...'';
     c \<leftarrow> tweak E ''/proc/sys/net/ipv4/tcp_window_scaling'' ''1'' (0, 0);
     c \<leftarrow> tweak E ''/proc/sys/net/ipv4/tcp_rmem'' ''4096 87380 16777216'' c;
     c \<leftarrow> tweak E ''/proc/sys/net/ipv4/tcp_wmem'' ''4096 16384 16777216'' c;
     present \<leftarrow> observe (\<lambda>t. e_dir E t ''/sys/block'' \<noteq> None);
     blocks \<leftarrow> (if present then observe (\<lambda>t. e_dir E t ''/sys/block'') else ret None);
     r \<leftarrow> (case blocks of
            None \<Rightarrow> ret (Inl c)
          | Some entries \<Rightarrow> loop (read_ahead_step E) entries c);
     let c = (case r of Inl c' \<Rightarrow> c' | Inr _ \<Rightarrow> c);
     run_system dexopt_cmd;
     LOGI E (''Boot-Time Tweaks Finished: '' @ fmt_u (fst c) @ '' Applied Successfully, '' @
             fmt_u (snd c) @ '' Failed (Locked/Missing)'')
   }"

definition force_idle_cmd :: string where
  "force_idle_cmd = ''dumpsys deviceidle force-idle >/dev/null 2>&1 &''"

definition unforce_cmd :: string where
  "unforce_cmd = ''dumpsys deviceidle unforce >/dev/null 2>&1 &''"

definition OptimizeDoze :: "env \<Rightarrow> unit io" where
  "OptimizeDoze E = do {
     LOGI E ''Pushing system into Extreme Doze Mode (force-idle)...'';
     run_system force_idle_cmd;
     LOGI E ''Deep Doze engaged.''
   }"

definition WakeFromDoze :: "env \<Rightarrow> unit io" where
  "WakeFromDoze E = do {
     LOGI E ''Waking system from Doze to prevent lockscreen lag...'';
     run_system unforce_cmd
   }"

lemma run_system_keeps [frame_intros]: "keeps sans_sense (run_system c)"
  unfolding run_system_def by (intro frame_intros) simp

lemma OptimizeDoze_keeps [frame_intros]: "keeps sans_sense (OptimizeDoze E)"
  unfolding OptimizeDoze_def by (intro keep.p_rules frame_intros)

lemma WakeFromDoze_keeps [frame_intros]: "keeps sans_sense (WakeFromDoze E)"
  unfolding WakeFromDoze_def by (intro keep.p_rules frame_intros)

lemma WriteToFile_keeps [frame_intros]: "keeps sans_sense (WriteToFile E p v)"
  unfolding WriteToFile_def by (intro keep.p_rules frame_intros) simp_all

lemma ApplyBootTweaks_keeps [frame_intros]: "keeps sans_sense (ApplyBootTweaks E)"
  unfolding ApplyBootTweaks_def tweak_def read_ahead_step_def Let_def
  by (intro keep.p_rules frame_intros) simp_all

end
