(* ===== verification/Engine.thy ===== *)
theory Engine
  imports Tweaks
begin

section \<open>core/state.cpp and core/decision\_engine.cpp\<close>

text \<open>
  The engine state and the transition taken at each timer expiry. \<open>PerformMaintenance\<close> is the
  only caller of the sweeps, the scanner, the analyzer and the cleaner.
\<close>

fun StateToString :: "EngineState \<Rightarrow> string" where
  "StateToString BOOT = ''BOOT''"
| "StateToString ACTIVE = ''ACTIVE''"
| "StateToString SCREEN_OFF = ''SCREEN_OFF''"
| "StateToString IDLE_CANDIDATE = ''IDLE_CANDIDATE''"
| "StateToString DEEP_IDLE = ''DEEP_IDLE''"
| "StateToString MAINTENANCE = ''MAINTENANCE''"
| "StateToString ABORTING = ''ABORTING''"
| "StateToString ERROR_BACKOFF = ''ERROR_BACKOFF''"

definition TransitionTo :: "env \<Rightarrow> EngineState \<Rightarrow> unit io" where
  "TransitionTo E new_state = do {
     w \<leftarrow> getS;
     whenS (g_current_state w \<noteq> new_state) (do {
       LOGI E (''State Transition: '' @ StateToString (g_current_state w) @ '' -> '' @ StateToString new_state);
       modS (\<lambda>w. w\<lparr>g_current_state := new_state\<rparr>)
     })
   }"

definition GetCurrentState :: "EngineState io" where
  "GetCurrentState = do { w \<leftarrow> getS; ret (g_current_state w) }"

definition scan_packages_step :: "env \<Rightarrow> PackageInfo \<Rightarrow> CacheDirInfo list \<Rightarrow> (CacheDirInfo list + unit) io" where
  "scan_packages_step E pkg all_cache_dirs = do {
     on \<leftarrow> IsScreenOn E;
     if on then do { TransitionTo E ABORTING; ret (Inr ()) }
     else do {
       pkg_caches \<leftarrow> ScanPackageCache E pkg;
       ret (Inl (all_cache_dirs @ pkg_caches))
     }
   }"

definition clean_targets_step :: "env \<Rightarrow> MaintenanceTarget \<Rightarrow> unit \<Rightarrow> (unit + unit) io" where
  "clean_targets_step E target _ = do {
     idle \<leftarrow> EvaluateIdleState E;
     if idle = Is_NOT_IDLE then do { TransitionTo E ABORTING; ret (Inr ()) }
     else do {
       ok \<leftarrow> CleanDirectorySafely E (mt_cache_dir target);
       if \<not> ok then do {
         LOGW E (''Aborted cleaning on '' @ cd_path (mt_cache_dir target));
         TransitionTo E ABORTING;
         ret (Inr ())
       }
       else ret (Inl ())
     }
   }"

definition PerformMaintenance :: "env \<Rightarrow> unit io" where
  "PerformMaintenance E = do {
     RunSystemMaintenanceSweeps E;
     on \<leftarrow> IsScreenOn E;
     if on then TransitionTo E ABORTING
     else do {
       packages \<leftarrow> GetInstalledPackages E;
       r \<leftarrow> loop (scan_packages_step E) packages [];
       (case r of
          Inr _ \<Rightarrow> ret ()
        | Inl all_cache_dirs \<Rightarrow> do {
            targets \<leftarrow> AnalyzeCaches E all_cache_dirs;
            r \<leftarrow> loop (clean_targets_step E) targets ();
            (case r of
               Inr _ \<Rightarrow> ret ()
             | Inl _ \<Rightarrow> do {
                 OptimizeDoze E;
                 TransitionTo E ACTIVE
               })
          })
     }
   }"

definition EvaluateAndTransition :: "env \<Rightarrow> unit io" where
  "EvaluateAndTransition E = do {
     current \<leftarrow> GetCurrentState;
     idle_state \<leftarrow> EvaluateIdleState E;
     if idle_state = Is_NOT_IDLE then
       whenS (current \<noteq> ACTIVE) (do {
         WakeFromDoze E;
         TransitionTo E ACTIVE
       })
     else
       (case current of
          BOOT \<Rightarrow> TransitionTo E SCREEN_OFF
        | ACTIVE \<Rightarrow> TransitionTo E SCREEN_OFF
        | SCREEN_OFF \<Rightarrow> whenS (idle_state = Is_IDLE_CANDIDATE) (TransitionTo E IDLE_CANDIDATE)
        | IDLE_CANDIDATE \<Rightarrow> TransitionTo E DEEP_IDLE
        | DEEP_IDLE \<Rightarrow> do { TransitionTo E MAINTENANCE; PerformMaintenance E }
        | MAINTENANCE \<Rightarrow> ret ()
        | ABORTING \<Rightarrow> TransitionTo E ACTIVE
        | ERROR_BACKOFF \<Rightarrow> TransitionTo E ACTIVE)
   }"

end
