(* ===== verification/MicFixer.thy ===== *)
theory MicFixer
  imports Device
begin

unbundle bit_operations_syntax

section \<open>audio/mic\_fixer.cpp\<close>

text \<open>
  The microphone thread in its two forms, each a loop body over what it observes. A mixer
  command that is piped is in the trace as \<open>Pipe\<close>; if it could be started and its output does not
  report a failure, the control and the values it has set are recorded as \<open>Mixer\<close>. The code itself
  takes a command that could not be started for a success.
\<close>

subsection \<open>Commands\<close>

text \<open>\<open>while (fgets(buffer, 128, pipe)) result += buffer;\<close>\<close>

function read_all :: "string \<Rightarrow> string" where
  "read_all s = (case fgets 128 s of None \<Rightarrow> [] | Some (chunk, rest) \<Rightarrow> chunk @ read_all rest)"
  by pat_completeness auto
termination
proof (relation "measure length")
  show "(rest, s) \<in> measure length" if "fgets 128 s = Some p" "(chunk, rest) = p" for s p chunk rest
    using that fgets_take_progress [of s 127] by (auto simp: fgets_def split: if_splits)
qed simp

declare read_all.simps [simp del]

lemma read_all_id: "read_all s = s"
proof (induction s rule: read_all.induct)
  case (1 s)
  show ?case
  proof (cases "s = []")
    case True
    then show ?thesis by (subst read_all.simps) (simp add: fgets_def)
  next
    case False
    obtain a b where ab: "fgets_take 127 s = (a, b)" by fastforce
    then have f: "fgets 128 s = Some (a, b)" using False by (simp add: fgets_def)
    then have "read_all b = b" using "1.IH" by blast
    then show ?thesis using f fgets_take_append [OF ab] by (subst read_all.simps) simp
  qed
qed

definition ExecCommand :: "env \<Rightarrow> string \<Rightarrow> string io" where
  "ExecCommand E cmd = do {
     pipe \<leftarrow> run_pipe E cmd;
     ret (case pipe of None \<Rightarrow> [] | Some out \<Rightarrow> read_all out)
   }"

definition with_args :: "string \<Rightarrow> string list \<Rightarrow> string" where
  "with_args s args = s @ concat (map (\<lambda>a. if a = [] then [] else '' '' @ a) args)"

definition tinymix_cmd :: "string \<Rightarrow> string \<Rightarrow> string \<Rightarrow> string \<Rightarrow> string \<Rightarrow> string" where
  "tinymix_cmd path control val1 val2 val3 =
     with_args (path @ '' '' @ [CHR 0x22] @ control @ [CHR 0x22] @ '' '' @ val1) [val2, val3] @ '' 2>&1''"

definition strip_newlines :: "string \<Rightarrow> string" where
  "strip_newlines s = rev (dropWhile (\<lambda>c. c = CHR 0x0A \<or> c = CHR 0x0D) (rev s))"

definition tinymix_failed :: "string \<Rightarrow> bool" where
  "tinymix_failed output \<longleftrightarrow>
     contains output ''Invalid'' \<or> contains output ''Could not'' \<or> contains output ''usage:'' \<or>
     contains output ''No such'' \<or> contains output ''error''"

definition RunTinymix :: "env \<Rightarrow> string \<Rightarrow> string \<Rightarrow> string \<Rightarrow> string \<Rightarrow> bool io" where
  "RunTinymix E control val1 val2 val3 = do {
     w \<leftarrow> getS;
     let cmd = tinymix_cmd (g_tinymix_path w) control val1 val2 val3;
     raw \<leftarrow> ExecCommand E cmd;
     let output = strip_newlines raw;
     whenS (e_pipe E (tick w) cmd \<noteq> None \<and> \<not> tinymix_failed output) (emit (Mixer control [val1, val2, val3]));
     let full_val = with_args val1 [val2, val3];
     if tinymix_failed output then do {
       LOGW E (''X FAILED: Route ['' @ control @ ''] -> ['' @ full_val @ '']. Reason: '' @
               (if output = [] then ''Unknown Error'' else output));
       ret False
     }
     else do {
       LOGI E (''V SUCCESS: Route ['' @ control @ ''] -> ['' @ full_val @ ''] established.'');
       ret True
     }
   }"

definition route :: "env \<Rightarrow> string \<Rightarrow> string \<Rightarrow> unit io" where
  "route E control val = do { _ \<leftarrow> RunTinymix E control val [] []; ret () }"

definition ApplyPreInit :: "env \<Rightarrow> unit io" where
  "ApplyPreInit E = do {
     _ \<leftarrow> RunTinymix E ''Voice Tx Mute'' ''1'' ''1'' ''1'';
     _ \<leftarrow> RunTinymix E ''Voip Tx Mute'' ''1'' ''1'' [];
     route E ''TX_AIF1_CAP Mixer DEC0'' ''1'';
     route E ''TX_AIF1_CAP Mixer DEC1'' ''1'';
     route E ''ADC1_MIXER Switch'' ''1'';
     route E ''ADC2_MIXER Switch'' ''1'';
     route E ''ADC1 MUX'' ''INP2'';
     route E ''ADC2 MUX'' ''INP3'';
     route E ''IIR0 INP0 MUX'' ''DEC0''
   }"

definition ApplyMicFix :: "env \<Rightarrow> unit io" where
  "ApplyMicFix E = do {
     route E ''TX_CDC_DMA_TX_3 Channels'' ''Two'';
     route E ''TX DEC0 MUX'' ''SWR_MIC'';
     route E ''TX DEC1 MUX'' ''SWR_MIC'';
     route E ''TX SMIC MUX0'' ''ADC0'';
     route E ''TX SMIC MUX1'' ''ADC2'';
     route E ''IIR0 INP0 MUX'' ''DEC0'';
     route E ''RX_RX0 Digital Volume'' ''84'';
     route E ''TX_DEC0 Volume'' ''84'';
     route E ''TX_DEC1 Volume'' ''84'';
     _ \<leftarrow> RunTinymix E ''Voice Tx Mute'' ''0'' ''0'' ''0'';
     _ \<leftarrow> RunTinymix E ''Voip Tx Mute'' ''0'' ''0'' [];
     ret ()
   }"

abbreviation (input) dquoted :: "string \<Rightarrow> string" where
  "dquoted s \<equiv> CHR 0x22 # s @ [CHR 0x22]"

definition notification_cmd :: string where
  "notification_cmd = ''cmd notification post -S bigtext -t '' @ dquoted ''FreshCore MicFix Active'' @
     '' '' @ dquoted ''FreshCore'' @ '' '' @ dquoted ''Audio Chip Fully Reinitialized!'' @
     '' >/dev/null 2>&1 &''"

definition ShowNotification :: "unit io" where
  "ShowNotification = run_system notification_cmd"

subsection \<open>The polling loop\<close>

definition DiscoverTinymix :: "env \<Rightarrow> bool io" where
  "DiscoverTinymix E = do {
     path_check \<leftarrow> ExecCommand E ''command -v tinymix 2>/dev/null'';
     if path_check \<noteq> [] \<and> contains path_check ''tinymix'' then do {
       let n = (case find_last_not_of path_check [CHR '' '', CHR 0x0A, CHR 0x0D, CHR 0x09] of
                  Some i \<Rightarrow> i + 1 | None \<Rightarrow> 0);
       modS (\<lambda>w. w\<lparr>g_tinymix_path := take n path_check\<rparr>);
       ret True
     }
     else ret False
   }"

definition mode_cmd :: string where
  "mode_cmd = ''timeout 2 dumpsys audio 2>/dev/null | grep -m 1 -i '' @ quoted ''mMode=''"

definition ringing :: "string \<Rightarrow> bool" where
  "ringing state \<longleftrightarrow> contains state ''MODE_RINGTONE'' \<or> contains state ''mMode=1''"

definition in_call :: "string \<Rightarrow> bool" where
  "in_call state \<longleftrightarrow> contains state ''MODE_IN_CALL'' \<or> contains state ''MODE_IN_COMMUNICATION'' \<or>
     contains state ''mMode=2'' \<or> contains state ''mMode=3''"

text \<open>One turn on the audio mode that was read; the flags are \<open>active\<close> and \<open>pre_init\<close>.\<close>

definition poll_turn :: "env \<Rightarrow> string \<Rightarrow> bool \<times> bool \<Rightarrow> (bool \<times> bool) io" where
  "poll_turn E state flags =
     (let active = fst flags; pre_init = snd flags in
      if ringing state then
        (if \<not> pre_init then do {
           LOGI E ''RINGTONE DETECTED! Powering on Audio Hardware early...'';
           ApplyPreInit E;
           ret (active, True)
         }
         else ret (active, pre_init))
      else if in_call state then
        (if \<not> active then do {
           LOGI E ''CALL CONNECTED! Aggressively fully re-initializing Handset Mic route!'';
           ShowNotification;
           ApplyPreInit E;
           ApplyMicFix E;
           LOGI E ''Hardware Primed and Ready!'';
           ret (True, pre_init)
         }
         else ret (active, pre_init))
      else
        (if active \<or> pre_init then do {
           LOGI E ''Call ended. Audio routes returning to idle state.'';
           ret (False, False)
         }
         else ret (active, pre_init)))"

definition poll_sleep :: "unit io" where
  "poll_sleep = do {
     (_ :: unit + unit) \<leftarrow> loop (\<lambda>i (_ :: unit). do {
         w \<leftarrow> getS;
         if g_mic_running w then do { emit (Usleep 100000); ret (Inl ()) } else ret (Inr ())
       }) [0..<30] ();
     ret ()
   }"

text \<open>At most \<open>n\<close> turns of the loop, which only stops when the thread is stopped.\<close>

primrec poll_turns :: "env \<Rightarrow> nat \<Rightarrow> bool \<times> bool \<Rightarrow> (bool \<times> bool) io" where
  "poll_turns E 0 flags = ret flags"
| "poll_turns E (Suc n) flags = do {
     w \<leftarrow> getS;
     if g_mic_running w then do {
       state \<leftarrow> ExecCommand E mode_cmd;
       flags' \<leftarrow> poll_turn E state flags;
       poll_sleep;
       poll_turns E n flags'
     }
     else ret flags
   }"

definition PollLoop :: "env \<Rightarrow> nat \<Rightarrow> (bool \<times> bool) io" where
  "PollLoop E n = do {
     emit (Setpriority 19);
     found \<leftarrow> DiscoverTinymix E;
     whenS (\<not> found) (LOGW E ''tinymix not found in PATH! Using default.'');
     LOGI E ''MicFix Engine started. Polling call state reliably at low priority.'';
     poll_turns E n (False, False)
   }"

subsection \<open>The inotify loop\<close>

definition IN_CLOSE_WRITE :: u32 where
  "IN_CLOSE_WRITE = 0x08"

definition IN_CLOSE_NOWRITE :: u32 where
  "IN_CLOSE_NOWRITE = 0x10"

definition IN_OPEN :: u32 where
  "IN_OPEN = 0x20"

definition sizeof_inotify_event :: nat where
  "sizeof_inotify_event = 16"

text \<open>
  The masks of the events in a buffer: \<open>wd, mask, cookie, len\<close> of four bytes each, then
  \<open>len\<close> bytes of name.
\<close>

function event_masks :: "u8 list \<Rightarrow> u32 list" where
  "event_masks buffer =
     (if buffer = [] then []
      else of_nat (le_val (take 4 (drop 4 buffer))) #
           event_masks (drop (sizeof_inotify_event + le_val (take 4 (drop 12 buffer))) buffer))"
  by pat_completeness auto
termination
  by (relation "measure length") (auto simp: sizeof_inotify_event_def)

declare event_masks.simps [simp del]

definition alsa_open :: "env \<Rightarrow> i32 \<Rightarrow> i32 io" where
  "alsa_open E stream_count =
     (let stream_count = stream_count + 1 in
      if stream_count = 1 then do {
        LOGI E ''ALSA INTERCEPT: Primary Capture Stream Opened! (0 ms delay)'';
        ApplyPreInit E;
        ApplyMicFix E;
        ShowNotification;
        LOGI E ''Hardware Primed and Ready natively!'';
        ret stream_count
      }
      else do {
        LOGI E ''ALSA INTERCEPT: Secondary stream opened. Ignoring to prevent mid-call stutter.'';
        ret stream_count
      })"

definition alsa_close :: "env \<Rightarrow> i32 \<Rightarrow> i32 io" where
  "alsa_close E stream_count =
     (if sint stream_count > 0 then
        (let stream_count = stream_count - 1 in
         if stream_count = 0 then do {
           LOGI E ''ALSA INTERCEPT: All Capture Streams Closed.'';
           ret stream_count
         }
         else ret stream_count)
      else ret stream_count)"

definition alsa_event :: "env \<Rightarrow> u32 \<Rightarrow> i32 \<Rightarrow> (i32 + unit) io" where
  "alsa_event E ev_mask stream_count = do {
     stream_count \<leftarrow> (if ev_mask AND IN_OPEN \<noteq> 0 then alsa_open E stream_count else ret stream_count);
     stream_count \<leftarrow> (if ev_mask AND (IN_CLOSE_WRITE OR IN_CLOSE_NOWRITE) \<noteq> 0
                     then alsa_close E stream_count else ret stream_count);
     ret (Inl stream_count)
   }"

datatype alsa_input = PollError | PollTimeout | ReadFailed | ReadBytes "u8 list"

text \<open>The loop over what \<open>poll\<close> and \<open>read\<close> deliver.\<close>

fun alsa_turns :: "env \<Rightarrow> alsa_input list \<Rightarrow> i32 \<Rightarrow> i32 io" where
  "alsa_turns E [] stream_count = ret stream_count"
| "alsa_turns E (x # xs) stream_count = do {
     w \<leftarrow> getS;
     if \<not> g_mic_running w then ret stream_count
     else (case x of
         PollError \<Rightarrow> ret stream_count
       | PollTimeout \<Rightarrow> alsa_turns E xs stream_count
       | ReadFailed \<Rightarrow> ret stream_count
       | ReadBytes buffer \<Rightarrow>
           if buffer = [] then ret stream_count
           else do {
             r \<leftarrow> loop (alsa_event E) (event_masks buffer) stream_count;
             (case r of Inl c \<Rightarrow> alsa_turns E xs c | Inr _ \<Rightarrow> ret stream_count)
           })
   }"

definition AlsaInotifyLoop :: "env \<Rightarrow> alsa_input list \<Rightarrow> i32 io" where
  "AlsaInotifyLoop E ins = do {
     LOGI E ''Native ALSA Hooking Active! (0% CPU Event-Driven Mode)'';
     _ \<leftarrow> DiscoverTinymix E;
     alsa_turns E ins 0
   }"

subsection \<open>Starting and stopping\<close>

definition capture_node :: "string \<Rightarrow> bool" where
  "capture_node filename \<longleftrightarrow>
     filename \<noteq> [] \<and> last filename = CHR ''c'' \<and> str_find filename ''pcm'' = Some 0"

definition watch_step :: "env \<Rightarrow> string \<Rightarrow> bool \<Rightarrow> (bool + unit) io" where
  "watch_step E filename alsa_success =
     (if capture_node filename then do {
        ok \<leftarrow> observe (\<lambda>t. e_watch E t (''/dev/snd/'' @ filename));
        ret (Inl (alsa_success \<or> ok))
      }
      else ret (Inl alsa_success))"

text \<open>
  What \<open>std::thread\<close> is given: the loop of the thread that was chosen, over at most \<open>n\<close> turns of the one
  or the inputs of the other.
\<close>

definition poll_thread_body :: "env \<Rightarrow> poll_thread \<Rightarrow> nat \<Rightarrow> alsa_input list \<Rightarrow> unit io" where
  "poll_thread_body E t n ins = (case t of
     PollThread \<Rightarrow> do { _ \<leftarrow> PollLoop E n; ret () }
   | AlsaThread \<Rightarrow> do { _ \<leftarrow> AlsaInotifyLoop E ins; ret () })"

definition StartPolling :: "env \<Rightarrow> unit io" where
  "StartPolling E = do {
     w \<leftarrow> getS;
     if g_mic_running w then ret ()
     else do {
       modS (\<lambda>w. w\<lparr>g_mic_running := True\<rparr>);
       fd \<leftarrow> observe (e_inotify E);
       dir \<leftarrow> (if fd then observe (\<lambda>t. e_dir E t ''/dev/snd'') else ret None);
       r \<leftarrow> (case dir of None \<Rightarrow> ret (Inl False) | Some names \<Rightarrow> loop (watch_step E) names False);
       if r = Inl True then modS (\<lambda>w. w\<lparr>g_poll_thread := Some AlsaThread\<rparr>)
       else do {
         LOGW E ''Native ALSA Hooking unavailable. Falling back to Dumpsys polling loop.'';
         modS (\<lambda>w. w\<lparr>g_poll_thread := Some PollThread\<rparr>)
       }
     }
   }"

definition StopPolling :: "unit io" where
  "StopPolling = do {
     w \<leftarrow> getS;
     whenS (g_mic_running w) (do {
       modS (\<lambda>w. w\<lparr>g_mic_running := False\<rparr>);
       modS (\<lambda>w. w\<lparr>g_poll_thread := None\<rparr>)
     })
   }"

end
