(* ===== verification/Scheduler.thy ===== *)
theory Scheduler
  imports Engine MicFixer
begin

section \<open>core/scheduler.cpp and core/main.cpp\<close>

text \<open>
  The event loop over what the kernel delivers: a signal, a failed or interrupted \<open>epoll_wait\<close>,
  or ready descriptors, each either the timer (whose \<open>read\<close> may fail) or another one. A list of
  inputs drives the loop; \<open>True\<close> means it has been left. \<open>g_timer\<close> is the armed one-shot
  timer, \<open>None\<close> when disarmed: setting it to 0 seconds disarms it.
\<close>

datatype sched_input = Signal | PollFail bool | PollReady "(bool \<times> bool) list"

definition SignalHandler :: "unit io" where
  "SignalHandler = modS (\<lambda>w. w\<lparr>g_running := False\<rparr>)"

definition SetTimer :: "u32 \<Rightarrow> unit io" where
  "SetTimer seconds = modS (\<lambda>w. w\<lparr>g_timer := (if seconds = 0 then None else Some seconds)\<rparr>)"

definition next_sleep_sec :: "Configuration \<Rightarrow> EngineState \<Rightarrow> u32" where
  "next_sleep_sec g state = (case state of
       ACTIVE \<Rightarrow> check_interval_active_sec g
     | SCREEN_OFF \<Rightarrow> check_interval_screen_off_sec g
     | IDLE_CANDIDATE \<Rightarrow> check_interval_deep_idle_sec g
     | DEEP_IDLE \<Rightarrow> check_interval_screen_off_sec g
     | MAINTENANCE \<Rightarrow> check_interval_screen_off_sec g
     | ABORTING \<Rightarrow> 30
     | ERROR_BACKOFF \<Rightarrow> 300
     | BOOT \<Rightarrow> 60)"

text \<open>A timer expiry: the read clears it, then evaluate and rearm.\<close>

definition handle_event :: "env \<Rightarrow> bool \<times> bool \<Rightarrow> unit \<Rightarrow> (unit + unit) io" where
  "handle_event E ev _ =
     (if fst ev then
        (if \<not> snd ev then ret (Inl ())
         else do {
           modS (\<lambda>w. w\<lparr>g_timer := None\<rparr>);
           EvaluateAndTransition E;
           state \<leftarrow> GetCurrentState;
           w \<leftarrow> getS;
           SetTimer (next_sleep_sec (g_config w) state);
           ret (Inl ())
         })
      else ret (Inl ()))"

fun sched_loop :: "env \<Rightarrow> sched_input list \<Rightarrow> bool io" where
  "sched_loop E [] = do { w \<leftarrow> getS; ret (\<not> g_running w) }"
| "sched_loop E (Signal # ins) = do { SignalHandler; sched_loop E ins }"
| "sched_loop E (PollFail eintr # ins) = do {
     w \<leftarrow> getS;
     if \<not> g_running w then ret True
     else if eintr then sched_loop E ins
     else do { LOGE E ''epoll_wait failed''; ret True }
   }"
| "sched_loop E (PollReady events # ins) = do {
     w \<leftarrow> getS;
     if \<not> g_running w then ret True
     else do {
       (_ :: unit + unit) \<leftarrow> loop (handle_event E) events ();
       sched_loop E ins
     }
   }"

text \<open>\<open>epoll_create1\<close>, \<open>timerfd_create\<close> and \<open>epoll_ctl\<close> may fail.\<close>

definition RunScheduler :: "env \<Rightarrow> bool \<Rightarrow> bool \<Rightarrow> bool \<Rightarrow> sched_input list \<Rightarrow> bool io" where
  "RunScheduler E epoll_ok timer_ok ctl_ok ins =
     (if \<not> epoll_ok then do { LOGE E ''Failed to create epoll instance''; ret True }
      else if \<not> timer_ok then do { LOGE E ''Failed to create timerfd''; ret True }
      else if \<not> ctl_ok then do { LOGE E ''Failed to add timerfd to epoll''; ret True }
      else do {
        LOGI E ''Scheduler Event Loop started'';
        SetTimer 1;
        stopped \<leftarrow> sched_loop E ins;
        whenS stopped (LOGI E ''Scheduler stopped'');
        ret stopped
      })"

definition report_path :: string where
  "report_path = ''/data/media/0/Download/FreshCore_Report.txt''"

definition config_path :: string where
  "config_path = ''/data/adb/freshcore/config.conf''"

text \<open>\<open>main\<close>; the scheduler's results and inputs are given, the thread runs on its own.\<close>

definition main :: "env \<Rightarrow> bool \<Rightarrow> bool \<Rightarrow> bool \<Rightarrow> sched_input list \<Rightarrow> unit io" where
  "main E epoll_ok timer_ok ctl_ok ins = do {
     _ \<leftarrow> Initialize E report_path default_max_size;
     LOGI E ''=================================================='';
     LOGI E ''FreshCore Native v1.0 started.'';
     LOGI E ''=================================================='';
     file \<leftarrow> read_text E config_path;
     w \<leftarrow> getS;
     let (ok, cfg) = LoadConfig file (g_config w);
     modS (\<lambda>w. w\<lparr>g_config := cfg\<rparr>);
     whenS (\<not> ok) (LOGW E ''Failed to load config, using defaults.'');
     if \<not> enabled cfg then do {
       LOGI E ''FreshCore disabled in config. Exiting.'';
       Shutdown
     }
     else do {
       ApplyBootTweaks E;
       LOGI E ''[SYSTEM] Background Maintenance and Cache Cleaner armed.'';
       LOGI E ''[SYSTEM] Sweep will trigger automatically after 15 minutes of Screen-Off Idle.'';
       StartPolling E;
       stopped \<leftarrow> RunScheduler E epoll_ok timer_ok ctl_ok ins;
       whenS stopped (do { StopPolling; Shutdown })
     }
   }"

end
