(* ===== verification/Daemon.thy ===== *)
theory Daemon
  imports Scheduler
begin

section \<open>The interface of the event loop to its components\<close>

text \<open>
  Every property that is carried through a whole run is a preorder on worlds. \<open>event_order\<close> asks
  that one evaluation moves along it; the event loop then does as well.
\<close>

locale event_order = step_order R for R :: "world \<Rightarrow> world \<Rightarrow> bool" +
  fixes E :: env
  assumes evaluate: "pres R (EvaluateAndTransition E)"
    and report: "pres R (Log E l m)"
    and arm: "pres R (modS (\<lambda>w. w\<lparr>g_timer := t\<rparr>))"
    and leave: "pres R (modS (\<lambda>w. w\<lparr>g_running := b\<rparr>))"
begin

lemma event: "pres R (handle_event E ev u)"
  unfolding handle_event_def GetCurrentState_def SetTimer_def
  by (intro p_rules evaluate arm)

lemma event_loop: "pres R (sched_loop E ins)"
proof (induction ins)
  case Nil
  show ?case by (simp only: sched_loop.simps) (intro p_rules)
next
  case (Cons i ins)
  then show ?case
    by (cases i; simp only: sched_loop.simps SignalHandler_def) (intro p_rules event report leave; assumption)+
qed

lemma scheduler: "pres R (RunScheduler E a b c ins)"
  unfolding RunScheduler_def SetTimer_def by (intro p_rules event_loop report arm)

end

text \<open>What an evaluation does with its verdict.\<close>

definition after_verdict :: "env \<Rightarrow> IdleState \<Rightarrow> EngineState \<Rightarrow> unit io" where
  "after_verdict E v s =
     (if v = Is_NOT_IDLE then
        whenS (s \<noteq> ACTIVE) (do { WakeFromDoze E; TransitionTo E ACTIVE })
      else
        (case s of
           BOOT \<Rightarrow> TransitionTo E SCREEN_OFF
         | ACTIVE \<Rightarrow> TransitionTo E SCREEN_OFF
         | SCREEN_OFF \<Rightarrow> whenS (v = Is_IDLE_CANDIDATE) (TransitionTo E IDLE_CANDIDATE)
         | IDLE_CANDIDATE \<Rightarrow> TransitionTo E DEEP_IDLE
         | DEEP_IDLE \<Rightarrow> do { TransitionTo E MAINTENANCE; PerformMaintenance E }
         | MAINTENANCE \<Rightarrow> ret ()
         | ABORTING \<Rightarrow> TransitionTo E ACTIVE
         | ERROR_BACKOFF \<Rightarrow> TransitionTo E ACTIVE))"

lemma EvaluateAndTransition_eq:
  "EvaluateAndTransition E = do { s \<leftarrow> GetCurrentState; v \<leftarrow> EvaluateIdleState E; after_verdict E v s }"
  unfolding EvaluateAndTransition_def after_verdict_def ..

lemma run_EvaluateAndTransition:
  "run_state (EvaluateIdleState E) w = (v, w1) \<Longrightarrow>
     run_state (EvaluateAndTransition E) w = run_state (after_verdict E v (g_current_state w)) w1"
  by (simp add: EvaluateAndTransition_eq GetCurrentState_def)

text \<open>
  The same for a preorder that every single operation of a maintenance run moves along: a
  transition, whatever state it starts from, then does too.
\<close>

locale daemon_order = step_order R for R :: "world \<Rightarrow> world \<Rightarrow> bool" +
  fixes E :: env
  assumes sweeps: "pres R (RunSystemMaintenanceSweeps E)"
    and packages: "pres R (GetInstalledPackages E)"
    and scan: "pres R (ScanPackageCache E pkg)"
    and analyze: "pres R (AnalyzeCaches E ds)"
    and clean: "pres R (CleanDirectorySafely E d)"
    and screen: "pres R (IsScreenOn E)"
    and verdict: "pres R (EvaluateIdleState E)"
    and log: "pres R (Log E l m)"
    and shell: "pres R (run_system c)"
    and set_state: "pres R (modS (\<lambda>w. w\<lparr>g_current_state := s\<rparr>))"
    and set_timer: "pres R (modS (\<lambda>w. w\<lparr>g_timer := t\<rparr>))"
    and stop: "pres R (modS (\<lambda>w. w\<lparr>g_running := b\<rparr>))"
begin

lemma transition: "pres R (TransitionTo E s)"
  unfolding TransitionTo_def by (intro p_rules log set_state)

lemma doze: "pres R (OptimizeDoze E)" "pres R (WakeFromDoze E)"
  unfolding OptimizeDoze_def WakeFromDoze_def by (intro p_rules log shell)+

lemma maintenance: "pres R (PerformMaintenance E)"
  unfolding PerformMaintenance_def scan_packages_step_def clean_targets_step_def
  by (intro p_rules sweeps packages scan analyze clean screen verdict log transition doze)

lemma act: "pres R (after_verdict E v s)"
  unfolding after_verdict_def
  by (cases s; simp only: EngineState.case; intro p_rules transition maintenance doze)

lemma transition_step: "pres R (EvaluateAndTransition E)"
  unfolding EvaluateAndTransition_eq GetCurrentState_def by (intro p_rules verdict act)

end

sublocale daemon_order \<subseteq> event_order R E
  by unfold_locales (rule transition_step log set_timer stop)+

text \<open>
  The rule for a maintenance run whose property changes on the way: \<open>P\<close> holds until
  the run ends or is aborted and \<open>Q\<close> holds from then on; \<open>A\<close>, \<open>D\<close> and \<open>T\<close> are what is known of the
  packages, of the cache directories found and of the targets.
\<close>

lemma hoare_maintenance:
  assumes sweeps: "hoare P (RunSystemMaintenanceSweeps E) (\<lambda>_. P)" and screen: "hoare P (IsScreenOn E) (\<lambda>_. P)"
    and abort: "hoare P (TransitionTo E ABORTING) (\<lambda>_. Q)"
    and packages: "hoare P (GetInstalledPackages E) (\<lambda>ps s. P s \<and> set ps \<subseteq> A)"
    and scan: "\<And>p ds. p \<in> A \<Longrightarrow> list_all D ds \<Longrightarrow> hoare P (scan_packages_step E p ds)
      (\<lambda>r s. case r of Inl ds' \<Rightarrow> P s \<and> list_all D ds' | Inr _ \<Rightarrow> Q s)"
    and analyze: "\<And>ds. list_all D ds \<Longrightarrow> hoare P (AnalyzeCaches E ds) (\<lambda>ts s. P s \<and> list_all T ts)"
    and clean: "\<And>t u. T t \<Longrightarrow> hoare P (clean_targets_step E t u) (\<lambda>r s. case r of Inl _ \<Rightarrow> P s | Inr _ \<Rightarrow> Q s)"
    and finish: "hoare P (do { OptimizeDoze E; TransitionTo E ACTIVE }) (\<lambda>_. Q)"
  shows "hoare P (PerformMaintenance E) (\<lambda>_. Q)"
proof -
  have scan_loop: "hoare (\<lambda>s. P s \<and> set ps \<subseteq> A) (loop (scan_packages_step E) ps [])
      (\<lambda>r s. case r of Inl ds \<Rightarrow> P s \<and> list_all D ds | Inr _ \<Rightarrow> Q s)" for ps
  proof (rule hoare_pure)
    assume ps: "set ps \<subseteq> A"
    have "hoare (\<lambda>s. P s \<and> list_all D []) (loop (scan_packages_step E) ps [])
        (\<lambda>r s. case r of Inl ds \<Rightarrow> P s \<and> list_all D ds | Inr _ \<Rightarrow> Q s)"
      by (rule hoare_loop [where I = "\<lambda>ds s. P s \<and> list_all D ds"], rule hoare_pure, rule scan) (use ps in auto)
    then show "hoare P (loop (scan_packages_step E) ps [])
        (\<lambda>r s. case r of Inl ds \<Rightarrow> P s \<and> list_all D ds | Inr _ \<Rightarrow> Q s)" by simp
  qed
  have clean_loop: "hoare (\<lambda>s. P s \<and> list_all T ts) (loop (clean_targets_step E) ts ())
      (\<lambda>r s. case r of Inl _ \<Rightarrow> P s | Inr _ \<Rightarrow> Q s)" for ts
    by (rule hoare_pure, rule hoare_loop [where I = "\<lambda>_. P"], rule clean) (simp add: list_all_iff)
  have last: "hoare (\<lambda>s. case r of Inl _ \<Rightarrow> P s | Inr _ \<Rightarrow> Q s)
      (case r of Inr _ \<Rightarrow> ret () | Inl _ \<Rightarrow> do { OptimizeDoze E; TransitionTo E ACTIVE }) (\<lambda>_. Q)" for r :: "unit + unit"
    by (cases r) (simp_all add: finish hoare_return)
  have targets: "hoare (\<lambda>s. case r of Inl ds \<Rightarrow> P s \<and> list_all D ds | Inr _ \<Rightarrow> Q s)
      (case r of Inr _ \<Rightarrow> ret () | Inl ds \<Rightarrow> do {
         targets \<leftarrow> AnalyzeCaches E ds;
         r \<leftarrow> loop (clean_targets_step E) targets ();
         (case r of Inr _ \<Rightarrow> ret () | Inl _ \<Rightarrow> do { OptimizeDoze E; TransitionTo E ACTIVE }) })
      (\<lambda>_. Q)" for r :: "CacheDirInfo list + unit"
  proof (cases r)
    case (Inl ds)
    show ?thesis
      unfolding Inl sum.case
      by (rule hoare_pure, rule hoare_bind [OF analyze], assumption, rule hoare_bind [OF clean_loop], rule last)
  qed (simp add: hoare_return)
  show ?thesis
    unfolding PerformMaintenance_def
    by (rule hoare_bind [OF sweeps], rule hoare_bind [OF screen], rule hoare_if, rule abort,
        rule hoare_bind [OF packages], rule hoare_bind [OF scan_loop], rule targets)
qed

end
