(* ===== verification/Guard.thy ===== *)
theory Guard
  imports Cleaner_Complete Daemon
begin

section \<open>Deletions and trims happen only on an idle verdict\<close>

text \<open>
  A trace is guarded when the latest verdict of \<open>EvaluateIdleState\<close> before every \<open>unlink\<close> and
  every \<open>FITRIM\<close> is one of an idle device. The property is carried through the removal, the
  sweeps, the maintenance run and the event loop. The logger's purge of its own files is another
  effect, \<open>LogUnlink\<close>, which only the start of the program has.
\<close>

fun guarded :: "bool \<Rightarrow> effect list \<Rightarrow> bool" where
  "guarded idle [] = True"
| "guarded idle (IdleEval s # es) = guarded (s \<noteq> Is_NOT_IDLE) es"
| "guarded idle (Unlink p ok # es) = (idle \<and> guarded idle es)"
| "guarded idle (Fitrim p # es) = (idle \<and> guarded idle es)"
| "guarded idle (e # es) = guarded idle es"

fun verdict_after :: "bool \<Rightarrow> effect list \<Rightarrow> bool" where
  "verdict_after idle [] = idle"
| "verdict_after idle (IdleEval s # es) = verdict_after (s \<noteq> Is_NOT_IDLE) es"
| "verdict_after idle (e # es) = verdict_after idle es"

lemma guarded_append: "guarded b (xs @ ys) \<longleftrightarrow> guarded b xs \<and> guarded (verdict_after b xs) ys"
  by (induction b xs rule: guarded.induct) auto

lemma verdict_after_append: "verdict_after b (xs @ ys) = verdict_after (verdict_after b xs) ys"
  by (induction b xs rule: verdict_after.induct) auto

definition harmless :: "effect \<Rightarrow> bool" where
  "harmless e \<longleftrightarrow> (case e of Unlink _ _ \<Rightarrow> False | Fitrim _ \<Rightarrow> False | _ \<Rightarrow> True)"

lemma guarded_harmless: "list_all harmless es \<Longrightarrow> guarded b es"
  by (induction b es rule: guarded.induct) (auto simp: harmless_def)

definition guards :: "world \<Rightarrow> world \<Rightarrow> bool" where
  "guards s t \<longleftrightarrow> tree_below (fs t) (fs s) \<and> (guarded False (trace s) \<longrightarrow> guarded False (trace t))"

interpretation guards: shrink_order guards
  by unfold_locales (auto simp: guards_def intro: tree_below_trans)

lemma guards_quiet: "pres (changes {}) m \<Longrightarrow> traces harmless m \<Longrightarrow> pres guards m"
  unfolding pres_def guards_def changes_def grows_def by (metis guarded_append guarded_harmless)

lemma sensor_harmless [trace_intros]: "traces sensor_effect m \<Longrightarrow> traces harmless m"
  by (erule pres_mono) (erule grows_mono, simp add: sensor_effect_def harmless_def split: effect.splits)

lemma guards_sense: "keeps sans_sense m \<Longrightarrow> traces harmless m \<Longrightarrow> pres guards m"
  by (intro guards_quiet keeps_sense_changes)

lemmas guards_ops =
  guards_sense [OF Log_keeps_sense Log_traces]
  guards_sense [OF EvaluateIdleState_keeps sensor_harmless [OF EvaluateIdleState_traces]]
  guards_sense [OF GetDirectoryChildren_keeps file_reads_traces(5)]
  guards_quiet [OF keeps_batch_changes [OF StartBatch_keeps] StartBatch_traces]
  guards_quiet [OF keeps_batch_changes [OF EndBatch_keeps] EndBatch_traces]
  guards_quiet [OF keeps_state_changes [OF UpdatePackageState_keeps] UpdatePackageState_traces]
  guards_quiet [OF keeps_state_changes [OF SaveStateAtomic_keeps] SaveStateAtomic_traces]
  guards_quiet [OF keeps_state_changes [OF AnalyzeCaches_keeps] AnalyzeCaches_traces]
  guards_sense [OF ScanPackageCache_keeps ScanPackageCache_traces]
  guards_sense [OF IsScreenOn_keeps sensor_harmless [OF pipe_sensor [OF IsScreenOn_traces]]]

lemma guards_mod: "(\<And>w. fs (f w) = fs w \<and> trace (f w) = trace w) \<Longrightarrow> pres guards (modS f)"
  by (simp add: pres_def guards_def)

lemma guards_emit: "harmless e \<Longrightarrow> pres guards (emit e)"
  by (intro guards_sense emit_keeps emit_traces) simp_all

subsection \<open>The verdict a step starts with\<close>

lemma run_EvaluateIdleState_trace:
  assumes "run_state (EvaluateIdleState E) w = (s, w')"
  shows "\<exists>es. trace w' = trace w @ es @ [IdleEval s] \<and> list_all pipe_effect es"
proof -
  obtain s1 w1 where 1: "run_state (idle_verdict E) w = (s1, w1)" by fastforce
  then have "s = s1" "trace w' = trace w1 @ [IdleEval s1]"
    using assms by (auto simp: EvaluateIdleState_def)
  moreover obtain es where "trace w1 = trace w @ es" "list_all pipe_effect es"
    using pres_run [OF idle_verdict_traces 1] by (auto simp: grows_def)
  ultimately show ?thesis by auto
qed

lemma EvaluateIdleState_guarded:
  assumes "run_state (EvaluateIdleState E) w = (s, w')" "guarded False (trace w)"
  shows "guarded False (trace w')" "s \<noteq> Is_NOT_IDLE \<Longrightarrow> verdict_after False (trace w')"
proof -
  obtain es where es: "trace w' = trace w @ es @ [IdleEval s]" "list_all pipe_effect es"
    using run_EvaluateIdleState_trace [OF assms(1)] by blast
  then have "list_all harmless es"
    by (auto simp: list_all_iff pipe_effect_def harmless_def split: effect.splits)
  with es(1) assms(2) show "guarded False (trace w')"
    by (simp add: guarded_append guarded_harmless)
  show "s \<noteq> Is_NOT_IDLE \<Longrightarrow> verdict_after False (trace w')"
    using es(1) by (simp add: verdict_after_append)
qed

lemma SafeRemove_trace:
  assumes "run_state (SafeRemove E p) w = (r, w')"
  shows "trace w' = trace w \<or> trace w' = trace w @ [Rmdir p r] \<or>
    (trace w' = trace w @ [Unlink p r] \<and>
      (\<exists>l k. resolve (fs w) False p = Some l \<and> kind_at (fs w) l = Some k \<and> k \<noteq> KDir))"
proof -
  obtain st w1 where 1: "run_state (sys_lstat E p) w = (st, w1)" by fastforce
  have t1: "trace w1 = trace w" using 1 by (auto simp: sys_lstat_def faulty_def)
  show ?thesis
  proof (cases st)
    case None
    then show ?thesis using assms 1 t1 by (simp add: SafeRemove_def)
  next
    case (Some k)
    have r: "run_state (sys_remove (if k = KDir then can_rmdir else can_unlink)
        (if k = KDir then Rmdir else Unlink) E p) w1 = (r, w')"
      using assms 1 Some by (simp add: SafeRemove_def sys_unlink_def sys_rmdir_def split: if_splits)
    have "trace w' = trace w @ [(if k = KDir then Rmdir else Unlink) p r]"
      using run_sys_remove [OF r] t1 by auto
    then show ?thesis
      using run_lstat [OF 1 [unfolded Some]] by (cases "k = KDir") auto
  qed
qed

lemma SafeRemove_after_verdict:
  assumes "run_state (SafeRemove E p) w = (r, w')" "guarded False (trace w)" "verdict_after False (trace w)"
  shows "guarded False (trace w')"
  using SafeRemove_trace [OF assms(1)] assms(2,3) by (auto simp: guarded_append)

lemma SafeRemove_shrinks: "run_state (SafeRemove E p) w = (r, w') \<Longrightarrow> tree_below (fs w') (fs w)"
  by (erule SafeRemove_cases) (auto simp: tree_below_remove)

text \<open>Where the path named a directory, only an \<open>rmdir\<close> is tried.\<close>

lemma stays_SafeRemove_dir:
  assumes "\<And>l. resolve (fs w) False p = Some l \<Longrightarrow> kind_at (fs w) l = Some KDir"
  shows "stays w guards (SafeRemove E p)"
  unfolding stays_def
proof (intro allI impI)
  fix v :: world assume v: "tree_below (fs v) (fs w)"
  obtain r v' where r: "run_state (SafeRemove E p) v = (r, v')" by fastforce
  have "k = KDir" if "resolve (fs v) False p = Some l" "kind_at (fs v) l = Some k" for l k
    using assms [OF resolve_mono [OF that(1) v]] tree_belowD [OF v that(2)] by simp
  then show "guards v (snd (run_state (SafeRemove E p) v))"
    using SafeRemove_trace [OF r] SafeRemove_shrinks [OF r] r
    by (auto simp: guards_def guarded_append)
qed

subsection \<open>Removal\<close>

lemma remove_entry_guards:
  assumes rec: "\<And>v. run_state (sys_lstat E p) w = (Some KDir, v) \<Longrightarrow> guards v (snd (run_state (rec p) v))"
    and w: "guarded False (trace w)" "verdict_after False (trace w)"
    and run: "run_state (remove_entry E rec p a b) w = (r, w')"
  shows "guarded False (trace w') \<and> tree_below (fs w') (fs w)"
proof -
  obtain st v where 1: "run_state (sys_lstat E p) w = (st, v)" by fastforce
  have v: "trace v = trace w" "fs v = fs w"
    using 1 keeps_fs [OF file_reads_keep(4) 1] by (auto simp: sys_lstat_def faulty_def)
  consider "st = None" | "st = Some KDir" | k where "st = Some k" "k \<noteq> KDir" by blast
  then show ?thesis
  proof cases
    case 1
    then show ?thesis using run \<open>run_state (sys_lstat E p) w = (st, v)\<close> v w by (simp add: remove_entry_def)
  next
    case 2
    then have "w' = snd (run_state (rec p) v)"
      using run 1 by (auto simp: remove_entry_def split: prod.splits)
    then show ?thesis using rec 1 2 v w by (simp add: guards_def)
  next
    case 3
    obtain ok v' where 4: "run_state (SafeRemove E p) v = (ok, v')" by fastforce
    then have "w' = v'" using run 1 3 by (simp add: remove_entry_def)
    then show ?thesis
      using SafeRemove_after_verdict [OF 4] SafeRemove_shrinks [OF 4] v w by simp
  qed
qed

lemma remove_entry_shrinks:
  assumes rec: "\<And>v. run_state (sys_lstat E p) w = (Some KDir, v) \<Longrightarrow> guards v (snd (run_state (rec p) v))"
    and run: "run_state (remove_entry E rec p a b) w = (r, w')"
  shows "tree_below (fs w') (fs w)"
proof -
  obtain st v where 1: "run_state (sys_lstat E p) w = (st, v)" by fastforce
  have v: "fs v = fs w" using file_reads_keep(4) 1 by (rule keeps_fs)
  have "tree_below (fs w') (fs v)"
    using run 1 rec SafeRemove_shrinks
    by (fastforce simp: remove_entry_def guards_def split: prod.splits option.splits if_splits)
  then show ?thesis using v by simp
qed

lemma batch_check_guards: "pres guards (batch_check E a b)"
  unfolding batch_check_def
  by (intro guards.p_rules guards_ops guards_emit) (simp add: harmless_def)

lemma remove_step_guards:
  assumes rec: "stays w guards (rec (path @ ''/'' @ c))"
  shows "stays w guards (remove_step E rec path c n)"
  unfolding stays_def
proof (intro allI impI)
  fix v :: world assume v: "tree_below (fs v) (fs w)"
  obtain i v1 where 1: "run_state (EvaluateIdleState E) v = (i, v1)" by fastforce
  have f1: "fs v1 = fs v" using EvaluateIdleState_keeps 1 by (rule keeps_fs)
  show "guards v (snd (run_state (remove_step E rec path c n) v))"
  proof (cases "i = Is_NOT_IDLE")
    case True
    then show ?thesis
      using 1 f1 EvaluateIdleState_guarded(1) [OF 1] by (simp add: remove_step_def guards_def)
  next
    case False
    obtain r v2 where 2: "run_state (remove_entry E rec (path @ ''/'' @ c) (fst n) (snd n)) v1 = (r, v2)"
      by fastforce
    have sub: "guards u (snd (run_state (rec (path @ ''/'' @ c)) u))"
      if "run_state (sys_lstat E (path @ ''/'' @ c)) v1 = (Some KDir, u)" for u
    proof -
      have "fs u = fs v1" using file_reads_keep(4) that by (rule keeps_fs)
      then show ?thesis using rec v f1 by (simp add: stays_def)
    qed
    have t: "tree_below (fs v2) (fs v1)" by (rule remove_entry_shrinks [OF sub 2])
    have 12: "guards v v2"
      using remove_entry_guards [OF sub _ _ 2] EvaluateIdleState_guarded [OF 1] False f1 t
      by (cases "guarded False (trace v)") (auto simp: guards_def)
    show ?thesis
    proof (cases r)
      case (Inr x)
      then show ?thesis using 1 2 False 12 by (simp add: remove_step_def)
    next
      case (Inl counts)
      then show ?thesis
        using 1 2 False guards.R_trans [OF 12 presD [OF batch_check_guards]]
        by (simp add: remove_step_def)
    qed
  qed
qed

lemma remove_rec_guards:
  "wf_tree (fs w) \<Longrightarrow> stays w guards (remove_rec E n p)"
proof (induction n arbitrary: p w)
  case 0
  show ?case by (simp add: guards.s_return)
next
  case (Suc n)
  show ?case
    unfolding stays_def
  proof (intro allI impI)
    fix v :: world assume v: "tree_below (fs v) (fs w)"
    have wf: "wf_tree (fs v)" using Suc.prems v by (rule wf_tree_below)
    obtain ch v1 where 1: "run_state (GetDirectoryChildren E p) v = (ch, v1)" by fastforce
    have fs1: "fs v1 = fs v" using GetDirectoryChildren_keeps 1 by (rule keeps_fs)
    have v1: "guards v v1"
      using guards_ops(3) 1 by (rule pres_run)
    show "guards v (snd (run_state (remove_rec E (Suc n) p) v))"
    proof (cases ch)
      case None
      then show ?thesis using 1 v1 by (simp add: remove_body_def)
    next
      case (Some names)
      from run_GetDirectoryChildren [OF 1 [unfolded Some] wf]
      have dir: "kind_at (fs v1) l = Some KDir" if "resolve (fs v1) False p = Some l" for l
        using that fs1 by auto
      have "stays v1 guards (do {
          StartBatch E;
          r \<leftarrow> loop (remove_step E (remove_rec E n) p) names (0, 0);
          (case r of Inr v \<Rightarrow> ret v | Inl counts \<Rightarrow> do {
             _ \<leftarrow> EndBatch E (fst counts) (snd counts); _ \<leftarrow> SafeRemove E p; ret (Some True) }) })"
        using wf fs1
        by (intro guards.s_rules remove_step_guards Suc.IH stays_SafeRemove_dir dir guards.s_pres guards_ops)
          simp_all
      then have "guards v1 (snd (run_state (remove_rec E (Suc n) p) v))"
        using 1 Some unfolding stays_def by (simp add: remove_body_def split: prod.splits)
      with v1 show ?thesis by (rule guards.R_trans)
    qed
  qed
qed

lemma RemoveRecursiveBatched_guards:
  "wf_tree (fs w) \<Longrightarrow> stays w guards (RemoveRecursiveBatched E p)"
  unfolding RemoveRecursiveBatched_def
  by (intro guards.s_rules remove_rec_guards guards.s_pres guards.p_get)

subsection \<open>Cleaning, sweeps and maintenance\<close>

lemma CleanDirectorySafely_guards:
  "wf_tree (fs w) \<Longrightarrow> stays w guards (CleanDirectorySafely E d)"
  unfolding CleanDirectorySafely_def GetCurrentTimeMs_def GetPackageState_def
  by (intro guards.s_rules RemoveRecursiveBatched_guards guards.s_pres guards_ops
      guards_sense [OF observe_keeps observe_traces]) simp_all

lemma NativeFstrim_guards: "pres guards (NativeFstrim E p)"
proof (rule presI)
  fix w r w' assume run: "run_state (NativeFstrim E p) w = (r, w')"
  obtain i v where 1: "run_state (EvaluateIdleState E) w = (i, v)" by fastforce
  have f: "fs v = fs w" using EvaluateIdleState_keeps 1 by (rule keeps_fs)
  show "guards w w'"
  proof (cases "i = Is_NOT_IDLE \<or> e_trim E (tick v) p = None")
    case True
    then have "fs w' = fs v \<and> trace w' = trace v"
      using run 1 by (cases "i = Is_NOT_IDLE") (auto simp: NativeFstrim_def)
    then show ?thesis
      using f EvaluateIdleState_guarded(1) [OF 1] by (simp add: guards_def)
  next
    case False
    then obtain res where res: "e_trim E (tick v) p = Some res" "i \<noteq> Is_NOT_IDLE" by blast
    have "fs w' = fs v \<and> trace w' = trace v @ [Fitrim p]"
      using run 1 res by (cases res) (auto simp: NativeFstrim_def)
    then show ?thesis
      using EvaluateIdleState_guarded [OF 1] res(2) f by (auto simp: guards_def guarded_append)
  qed
qed

lemma sweep_path_guards:
  "wf_tree (fs w) \<Longrightarrow> stays w guards (sweep_path E p u)"
  unfolding sweep_path_def
  by (intro guards.s_rules RemoveRecursiveBatched_guards guards.s_pres guards_ops) simp_all

lemma RunSystemMaintenanceSweeps_guards:
  "wf_tree (fs w) \<Longrightarrow> stays w guards (RunSystemMaintenanceSweeps E)"
  unfolding RunSystemMaintenanceSweeps_def
  by (intro guards.s_rules sweep_path_guards guards.s_pres guards_ops NativeFstrim_guards) simp_all

lemma run_system_guards: "pres guards (run_system c)"
  unfolding run_system_def by (rule guards_emit) (simp add: harmless_def)

lemma GetInstalledPackages_guards: "pres guards (GetInstalledPackages E)"
  unfolding GetInstalledPackages_def
  by (intro guards.p_rules guards_sense [OF read_text_keeps read_text_traces])

text \<open>The preorder of the event loop: in a well-formed tree, guarded traces stay guarded.\<close>

definition guards_wf :: "world \<Rightarrow> world \<Rightarrow> bool" where
  "guards_wf s t \<longleftrightarrow> (wf_tree (fs s) \<longrightarrow> guards s t)"

lemma guards_wf_pres: "pres guards m \<Longrightarrow> pres guards_wf m"
  by (simp add: pres_def guards_wf_def)

lemma guards_wf_stays: "(\<And>w. wf_tree (fs w) \<Longrightarrow> stays w guards m) \<Longrightarrow> pres guards_wf m"
  unfolding pres_def guards_wf_def stays_def using tree_below_refl by blast

interpretation guard: daemon_order guards_wf E for E
proof
  show "guards_wf s s" for s by (simp add: guards_wf_def guards.R_refl)
  show "guards_wf s u" if "guards_wf s t" "guards_wf t u" for s t u
  proof -
    have "wf_tree (fs t)" if "wf_tree (fs s)"
      using that \<open>guards_wf s t\<close> by (auto simp: guards_wf_def guards_def intro: wf_tree_below)
    then show ?thesis using that by (auto simp: guards_wf_def intro: guards.R_trans)
  qed
qed (intro guards_wf_pres guards_wf_stays guards_ops run_system_guards GetInstalledPackages_guards
    RunSystemMaintenanceSweeps_guards CleanDirectorySafely_guards guards_mod; simp)+

subsection \<open>After a wake-up\<close>

text \<open>
  Two crash reports in directories, an empty directory and a report in a plain file; in \<open>wake_env n m\<close> the screen is on
  from tick \<open>n\<close> to tick \<open>m\<close>.
\<close>

definition crash_world :: world where
  "crash_world = boot_world (Dir [(''data'', Dir [(''tombstones'', Dir
     [(''a'', Dir [(''f'', File 100)]), (''b'', Dir []), (''c'', File 5), (''d'', Dir [(''g'', File 7)])])])])
     Map.empty Map.empty"

definition wake_env :: "nat \<Rightarrow> nat \<Rightarrow> env" where
  "wake_env n m = dark_env\<lparr>e_text := (\<lambda>t p. sample_text (if n \<le> t \<and> t < m then ''120'' else ''0'') p)\<rparr>"







text \<open>
  With the screen on from tick 9 to 14 only: the removal of \<open>a\<close> stops, the empty \<open>b\<close> goes without a verdict, and
  the report in \<open>d\<close> is deleted on a verdict that only says that the screen is off.
\<close>

lemma sweep_trace:
  "trace (snd (run_state (RunSystemMaintenanceSweeps (wake_env 9 14)) crash_world)) =
     [IdleEval Is_SCREEN_OFF, IdleEval Is_SCREEN_OFF, IdleEval Is_SCREEN_OFF,
      IdleEval Is_NOT_IDLE, Rmdir ''/data/tombstones/b'' True,
      IdleEval Is_SCREEN_OFF, Unlink ''/data/tombstones/d/g'' True, Rmdir ''/data/tombstones/d'' True,
      IdleEval Is_SCREEN_OFF, IdleEval Is_SCREEN_OFF]"
  by code_simp


end
