(* ===== verification/Analyzer_Correct.thy ===== *)
theory Analyzer_Correct
  imports State_Correct Guard
begin

section \<open>The analysis\<close>

text \<open>
  What the targets of \<open>AnalyzeCaches\<close> are, when a package is skipped, and the invariant of the
  store (every state is kept under its own hash) through the whole event loop.
\<close>

lemma CalculateCacheSize_run:
  assumes "run_state (CalculateCacheSize E d) w = (d', w')"
  shows "cd_path d' = cd_path d" "cd_pkg_name d' = cd_pkg_name d" "cd_size_calculated d'"
    "g_states w' = g_states w" "g_config w' = g_config w" "fs w' = fs w"
proof -
  note f = pres_run [OF CalculateCacheSize_keeps assms]
  show "g_states w' = g_states w" "g_config w' = g_config w" "fs w' = fs w"
    using sans_sense_fields [OF f] by simp_all
  show "cd_path d' = cd_path d" "cd_pkg_name d' = cd_pkg_name d" "cd_size_calculated d'"
    using assms by (auto simp: CalculateCacheSize_def split: if_splits prod.splits)
qed

text \<open>One turn of the analysis.\<close>

lemma run_analyze_step_sized:
  assumes "run_state (analyze_step E now d ts) w = (r, w')"
    and n: "\<not> in_cooldown now (state_of (g_states w) (cd_pkg_name d))"
    and 1: "run_state (CalculateCacheSize E d) w = (d', w1)"
    and st: "st = scanned_state now (cd_size_bytes d') (state_of (g_states w) (cd_pkg_name d))"
  shows "r = Inl (if ShouldCleanCache (g_config w) (cd_size_bytes d')
      then ts @ [\<lparr>mt_cache_dir = d', mt_priority = target_priority (cd_size_bytes d') st\<rparr>] else ts)"
    "g_states w' = put_state (cd_pkg_name d) st (g_states w)"
proof -
  note c = CalculateCacheSize_run [OF 1]
  have "run_state (analyze_step E now d ts) w =
     (Inl (if ShouldCleanCache (g_config w) (cd_size_bytes d')
        then ts @ [\<lparr>mt_cache_dir = d', mt_priority = target_priority (cd_size_bytes d') st\<rparr>] else ts),
      w1\<lparr>g_states := put_state (cd_pkg_name d) st (g_states w)\<rparr>)"
    unfolding analyze_step_def Let_def st
    by (simp only: run_state_bind run_GetPackageState case_prod_conv n if_False 1 run_UpdatePackageState
        c(2,4,5) run_state_get run_state_return) (simp add: c(5))
  then have "(r, w') = (Inl (if ShouldCleanCache (g_config w) (cd_size_bytes d')
        then ts @ [\<lparr>mt_cache_dir = d', mt_priority = target_priority (cd_size_bytes d') st\<rparr>] else ts),
      w1\<lparr>g_states := put_state (cd_pkg_name d) st (g_states w)\<rparr>)"
    using assms(1) by (rule trans [OF sym, rotated])
  then show "r = Inl (if ShouldCleanCache (g_config w) (cd_size_bytes d')
      then ts @ [\<lparr>mt_cache_dir = d', mt_priority = target_priority (cd_size_bytes d') st\<rparr>] else ts)"
    "g_states w' = put_state (cd_pkg_name d) st (g_states w)" by (elim Pair_inject, simp)+
qed

lemma run_analyze_step:
  assumes "run_state (analyze_step E now d ts) w = (r, w')"
  shows "g_config w' = g_config w" "fs w' = fs w"
    "in_cooldown now (state_of (g_states w) (cd_pkg_name d)) \<Longrightarrow> r = Inl ts \<and> g_states w' = g_states w"
    "\<not> in_cooldown now (state_of (g_states w) (cd_pkg_name d)) \<Longrightarrow>
       \<exists>d'. cd_path d' = cd_path d \<and> cd_pkg_name d' = cd_pkg_name d \<and> cd_size_calculated d' \<and>
         g_states w' = put_state (cd_pkg_name d)
           (scanned_state now (cd_size_bytes d') (state_of (g_states w) (cd_pkg_name d))) (g_states w) \<and>
         r = Inl (if ShouldCleanCache (g_config w) (cd_size_bytes d')
           then ts @ [\<lparr>mt_cache_dir = d', mt_priority = target_priority (cd_size_bytes d')
             (scanned_state now (cd_size_bytes d') (state_of (g_states w) (cd_pkg_name d)))\<rparr>]
           else ts)"
proof -
  let ?s = "state_of (g_states w) (cd_pkg_name d)"
  have f: "sans_state w' = sans_state w" using analyze_step_keeps assms by (rule pres_run)
  then show "g_config w' = g_config w" "fs w' = fs w" by (rule sans_state_fields)+
  show "in_cooldown now ?s \<Longrightarrow> r = Inl ts \<and> g_states w' = g_states w"
    using assms by (simp add: analyze_step_def run_GetPackageState)
  assume n: "\<not> in_cooldown now ?s"
  obtain d' w1 where 1: "run_state (CalculateCacheSize E d) w = (d', w1)" by fastforce
  show "\<exists>d'. cd_path d' = cd_path d \<and> cd_pkg_name d' = cd_pkg_name d \<and> cd_size_calculated d' \<and>
      g_states w' = put_state (cd_pkg_name d) (scanned_state now (cd_size_bytes d') ?s) (g_states w) \<and>
      r = Inl (if ShouldCleanCache (g_config w) (cd_size_bytes d')
        then ts @ [\<lparr>mt_cache_dir = d', mt_priority = target_priority (cd_size_bytes d')
          (scanned_state now (cd_size_bytes d') ?s)\<rparr>] else ts)"
    using run_analyze_step_sized [OF assms n 1 refl] CalculateCacheSize_run [OF 1]
    by (intro exI [of _ d'] conjI)
qed

subsection \<open>Targets\<close>

definition target_ok :: "Configuration \<Rightarrow> CacheDirInfo list \<Rightarrow> MaintenanceTarget \<Rightarrow> bool" where
  "target_ok g ds t \<longleftrightarrow> (\<exists>d\<in>set ds. cd_path (mt_cache_dir t) = cd_path d \<and>
       cd_pkg_name (mt_cache_dir t) = cd_pkg_name d) \<and>
     ShouldCleanCache g (cd_size_bytes (mt_cache_dir t)) \<and> mt_priority t \<in> {1, 2, 3, 4}"

lemma target_priority_range: "target_priority n s \<in> {1, 2, 3, 4}"
  by (auto simp: target_priority_def)

lemma analyze_loop_targets:
  assumes "set ds \<subseteq> set all"
  shows "hoare (\<lambda>w. g_config w = g \<and> list_all (target_ok g all) ts) (loop (analyze_step E now) ds ts)
    (\<lambda>r w. case r of Inl ts' \<Rightarrow> g_config w = g \<and> list_all (target_ok g all) ts' | Inr _ \<Rightarrow> False)"
proof (rule hoare_loop [where I = "\<lambda>ts w. g_config w = g \<and> list_all (target_ok g all) ts"], rule hoareI)
  fix d ts w r w' assume d: "d \<in> set ds" and w: "g_config w = g \<and> list_all (target_ok g all) ts"
    and r: "run_state (analyze_step E now d ts) w = (r, w')"
  have "d \<in> set all" using d assms by blast
  then show "case r of Inl ts' \<Rightarrow> g_config w' = g \<and> list_all (target_ok g all) ts' | Inr _ \<Rightarrow> False"
    using run_analyze_step [OF r] w target_priority_range
    by (cases "in_cooldown now (state_of (g_states w) (cd_pkg_name d))")
      (auto simp: target_ok_def)
qed

lemma AnalyzeCaches_targets_ok:
  assumes "run_state (AnalyzeCaches E ds) w = (ts, w')" "sort_spec (e_sort E)" "t \<in> set ts"
  shows "target_ok (g_config w) ds t"
proof -
  let ?now = "timespec_ms (e_real E (tick w))" and ?w = "w\<lparr>tick := Suc (tick w)\<rparr>"
  obtain r v where 1: "run_state (loop (analyze_step E ?now) ds []) ?w = (r, v)" by fastforce
  have "case r of Inl ts' \<Rightarrow> g_config v = g_config w \<and> list_all (target_ok (g_config w) ds) ts' | Inr _ \<Rightarrow> False"
    by (rule hoareD [OF analyze_loop_targets _ 1]) simp_all
  then obtain ts' where ts': "r = Inl ts'" "list_all (target_ok (g_config w) ds) ts'"
    by (cases r) auto
  then have "ts = e_sort E by_priority ts'"
    using assms(1) 1 by (auto simp: AnalyzeCaches_def GetCurrentTimeMs_def split: prod.splits)
  then have "set ts = set ts'" using sorted_targets(2) [OF assms(2)] by simp
  with ts'(2) assms(3) show ?thesis by (simp add: list_all_iff)
qed

text \<open>
  No directory is missed: one of a package that was not cleaned in the last six hours, with a size at
  or above the threshold, gets a target.
\<close>

definition cleaned_recently :: "u64 \<Rightarrow> PackageState \<Rightarrow> bool" where
  "cleaned_recently now st \<longleftrightarrow>
     now > ps_last_cleanup_ms st \<and> now - ps_last_cleanup_ms st < MIN_CLEANUP_INTERVAL_MS"

lemma in_cooldown_recent: "in_cooldown now st \<Longrightarrow> cleaned_recently now st"
  by (simp add: in_cooldown_def cleaned_recently_def)

definition sized :: "node \<Rightarrow> CacheDirInfo \<Rightarrow> CacheDirInfo" where
  "sized dir d = d\<lparr>cd_size_bytes := of_nat (tree_bytes dir), cd_size_calculated := True\<rparr>"

lemma CalculateCacheSize_sized:
  assumes "faultless E" "wf_tree (fs w)" "unique_names (fs w)" "\<not> cd_size_calculated d"
    and "resolve (fs w) False (cd_path d) = Some l" "lookup (fs w) l = Some (Dir ch)"
  shows "fst (run_state (CalculateCacheSize E d) w) = sized (Dir ch) d"
  using directory_size [OF assms(1-3,5,6)] assms(4)
  by (auto simp: CalculateCacheSize_def sized_def split: prod.splits)

lemma last_cleanup_scanned: "ps_last_cleanup_ms (scanned_state now n st) = ps_last_cleanup_ms st"
  by (simp add: scanned_state_def Let_def)

lemma state_of_hash: "HashPackageName p = HashPackageName q \<Longrightarrow> state_of m p = state_of m q"
  by (simp add: state_of_def)

lemma last_cleanup_put:
  "ps_last_cleanup_ms st = ps_last_cleanup_ms (state_of m p) \<Longrightarrow>
     ps_last_cleanup_ms (state_of (put_state p st m) q) = ps_last_cleanup_ms (state_of m q)"
  using store.get_put_same [of p st m] store.get_put_other [of q p st m] state_of_hash [of q p]
  by (cases "HashPackageName q = HashPackageName p") metis+

lemma analyze_loop_complete:
  fixes w :: world
  assumes ok: "faultless E"
  shows "run_state (loop (analyze_step E now) ds ts) w = (r, w') \<Longrightarrow> wf_tree (fs w) \<Longrightarrow> unique_names (fs w) \<Longrightarrow>
    \<exists>us. r = Inl (ts @ us) \<and> (\<forall>d\<in>set ds. \<forall>l ch. resolve (fs w) False (cd_path d) = Some l \<longrightarrow>
      lookup (fs w) l = Some (Dir ch) \<longrightarrow> \<not> cd_size_calculated d \<longrightarrow>
      \<not> cleaned_recently now (state_of (g_states w) (cd_pkg_name d)) \<longrightarrow>
      ShouldCleanCache (g_config w) (of_nat (tree_bytes (Dir ch))) \<longrightarrow>
      (\<exists>t\<in>set us. mt_cache_dir t = sized (Dir ch) d))"
proof (induction ds arbitrary: ts w)
  case Nil
  then show ?case by (intro exI [of _ "[]"]) auto
next
  case (Cons d ds)
  obtain r1 w1 where 1: "run_state (analyze_step E now d ts) w = (r1, w1)" by fastforce
  note step = run_analyze_step [OF 1]
  let ?s = "state_of (g_states w) (cd_pkg_name d)"
  obtain vs where vs: "r1 = Inl (ts @ vs)"
    "\<And>l ch. resolve (fs w) False (cd_path d) = Some l \<Longrightarrow> lookup (fs w) l = Some (Dir ch) \<Longrightarrow>
       \<not> cd_size_calculated d \<Longrightarrow> \<not> cleaned_recently now ?s \<Longrightarrow>
       ShouldCleanCache (g_config w) (of_nat (tree_bytes (Dir ch))) \<Longrightarrow>
       \<exists>t\<in>set vs. mt_cache_dir t = sized (Dir ch) d"
    "\<And>q. ps_last_cleanup_ms (state_of (g_states w1) q) = ps_last_cleanup_ms (state_of (g_states w) q)"
  proof (cases "in_cooldown now ?s")
    case True
    then show thesis using step(3) that [of "[]"] in_cooldown_recent by auto
  next
    case False
    obtain d' v where d': "run_state (CalculateCacheSize E d) w = (d', v)" by fastforce
    have r1: "r1 = Inl (if ShouldCleanCache (g_config w) (cd_size_bytes d')
        then ts @ [\<lparr>mt_cache_dir = d', mt_priority = target_priority (cd_size_bytes d')
          (scanned_state now (cd_size_bytes d') ?s)\<rparr>] else ts)"
      by (rule run_analyze_step_sized(1) [OF 1 False d' refl])
    have size: "d' = sized (Dir ch) d" if "resolve (fs w) False (cd_path d) = Some l"
      "lookup (fs w) l = Some (Dir ch)" "\<not> cd_size_calculated d" for l ch
      using CalculateCacheSize_sized [OF ok Cons.prems(2,3) that(3,1,2)] d' by simp
    have keep: "ps_last_cleanup_ms (state_of (g_states w1) q) = ps_last_cleanup_ms (state_of (g_states w) q)" for q
      using step(4) [OF False] last_cleanup_put last_cleanup_scanned by metis
    show thesis
    proof (cases "ShouldCleanCache (g_config w) (cd_size_bytes d')")
      case True
      then show ?thesis
        using r1 size keep that [of "[\<lparr>mt_cache_dir = d', mt_priority = target_priority (cd_size_bytes d')
          (scanned_state now (cd_size_bytes d') ?s)\<rparr>]"] by auto
    next
      case no: False
      have "\<not> ShouldCleanCache (g_config w) (of_nat (tree_bytes (Dir ch)))"
        if "resolve (fs w) False (cd_path d) = Some l" "lookup (fs w) l = Some (Dir ch)" "\<not> cd_size_calculated d"
        for l ch using no unfolding size [OF that] by (simp add: sized_def)
      then show ?thesis using r1 no keep that [of "[]"] by auto
    qed
  qed
  have "run_state (loop (analyze_step E now) ds (ts @ vs)) w1 = (r, w')" using Cons.prems(1) 1 vs(1) by simp
  from Cons.IH [OF this] obtain us where us: "r = Inl ((ts @ vs) @ us)"
    "\<And>d l ch. d \<in> set ds \<Longrightarrow> resolve (fs w) False (cd_path d) = Some l \<Longrightarrow> lookup (fs w) l = Some (Dir ch) \<Longrightarrow>
       \<not> cd_size_calculated d \<Longrightarrow> \<not> cleaned_recently now (state_of (g_states w) (cd_pkg_name d)) \<Longrightarrow>
       ShouldCleanCache (g_config w) (of_nat (tree_bytes (Dir ch))) \<Longrightarrow>
       \<exists>t\<in>set us. mt_cache_dir t = sized (Dir ch) d"
    using step(1,2) Cons.prems(2,3) vs(3) unfolding cleaned_recently_def by fastforce
  show ?case
  proof (intro exI [of _ "vs @ us"] conjI ballI allI impI)
    fix d' l ch
    assume "d' \<in> set (d # ds)" "resolve (fs w) False (cd_path d') = Some l" "lookup (fs w) l = Some (Dir ch)"
      "\<not> cd_size_calculated d'" "\<not> cleaned_recently now (state_of (g_states w) (cd_pkg_name d'))"
      "ShouldCleanCache (g_config w) (of_nat (tree_bytes (Dir ch)))"
    then show "\<exists>t\<in>set (vs @ us). mt_cache_dir t = sized (Dir ch) d'"
      using vs(2) [of l ch] us(2) [of d' l ch] by fastforce
  qed (use us(1) in simp)
qed

text \<open>
  C27. The targets: each is one of the scanned directories with a size at or above the threshold and
  a priority from 1 to 4; the code's comparator puts them in the order of falling priority, whatever
  sort the library has; and when no system call fails, every scanned directory of a package that was not
  cleaned in the last six hours and whose files take up the threshold is among them.
\<close>

theorem AnalyzeCaches_targets:
  assumes "run_state (AnalyzeCaches E ds) w = (ts, w')" "sort_spec (e_sort E)"
  shows "sorted_wrt (\<lambda>a b. sint (mt_priority a) \<ge> sint (mt_priority b)) ts \<and>
    (\<forall>t\<in>set ts. mt_priority t \<in> {1, 2, 3, 4} \<and>
       ShouldCleanCache (g_config w) (cd_size_bytes (mt_cache_dir t)) \<and>
       (\<exists>d\<in>set ds. cd_path (mt_cache_dir t) = cd_path d \<and> cd_pkg_name (mt_cache_dir t) = cd_pkg_name d)) \<and>
    (faultless E \<and> wf_tree (fs w) \<and> unique_names (fs w) \<longrightarrow>
       (\<forall>d\<in>set ds. \<forall>l ch. resolve (fs w) False (cd_path d) = Some l \<longrightarrow> lookup (fs w) l = Some (Dir ch) \<longrightarrow>
          \<not> cd_size_calculated d \<longrightarrow>
          \<not> cleaned_recently (timespec_ms (e_real E (tick w))) (state_of (g_states w) (cd_pkg_name d)) \<longrightarrow>
          ShouldCleanCache (g_config w) (of_nat (tree_bytes (Dir ch))) \<longrightarrow>
          (\<exists>t\<in>set ts. mt_cache_dir t = sized (Dir ch) d)))"
proof -
  let ?now = "timespec_ms (e_real E (tick w))" and ?w = "w\<lparr>tick := Suc (tick w)\<rparr>"
  obtain r v where 1: "run_state (loop (analyze_step E ?now) ds []) ?w = (r, v)" by fastforce
  then have ts: "ts = e_sort E by_priority (case r of Inl ts' \<Rightarrow> ts' | Inr _ \<Rightarrow> [])"
    using assms(1) by (auto simp: AnalyzeCaches_def GetCurrentTimeMs_def split: prod.splits)
  have found: "\<exists>t\<in>set ts. mt_cache_dir t = sized (Dir ch) d"
    if ok: "faultless E" "wf_tree (fs w)" "unique_names (fs w)" "d \<in> set ds"
      "resolve (fs w) False (cd_path d) = Some l" "lookup (fs w) l = Some (Dir ch)" "\<not> cd_size_calculated d"
      "\<not> cleaned_recently ?now (state_of (g_states w) (cd_pkg_name d))"
      "ShouldCleanCache (g_config w) (of_nat (tree_bytes (Dir ch)))" for d l ch
  proof -
    obtain us where us: "r = Inl us" "\<exists>t\<in>set us. mt_cache_dir t = sized (Dir ch) d"
      using analyze_loop_complete [OF ok(1) 1] ok(2-) by auto
    have "set ts = set us" unfolding ts us(1) by (simp add: sorted_targets(2) [OF assms(2)])
    with us(2) show ?thesis by simp
  qed
  have "sorted_wrt (\<lambda>a b. sint (mt_priority a) \<ge> sint (mt_priority b)) ts"
    unfolding ts by (rule sorted_targets(3) [OF assms(2)])
  moreover have "\<forall>t\<in>set ts. mt_priority t \<in> {1, 2, 3, 4} \<and>
       ShouldCleanCache (g_config w) (cd_size_bytes (mt_cache_dir t)) \<and>
       (\<exists>d\<in>set ds. cd_path (mt_cache_dir t) = cd_path d \<and> cd_pkg_name (mt_cache_dir t) = cd_pkg_name d)"
    using AnalyzeCaches_targets_ok [OF assms] unfolding target_ok_def by blast
  moreover have "faultless E \<and> wf_tree (fs w) \<and> unique_names (fs w) \<longrightarrow>
       (\<forall>d\<in>set ds. \<forall>l ch. resolve (fs w) False (cd_path d) = Some l \<longrightarrow> lookup (fs w) l = Some (Dir ch) \<longrightarrow>
          \<not> cd_size_calculated d \<longrightarrow> \<not> cleaned_recently ?now (state_of (g_states w) (cd_pkg_name d)) \<longrightarrow>
          ShouldCleanCache (g_config w) (of_nat (tree_bytes (Dir ch))) \<longrightarrow>
          (\<exists>t\<in>set ts. mt_cache_dir t = sized (Dir ch) d))"
    by (intro impI ballI allI, elim conjE, rule found)
  ultimately show ?thesis by (intro conjI)
qed

definition sample_cache :: CacheDirInfo where
  "sample_cache = sample_dir ''/data/app/cache''"

lemma place_sorted:
  assumes "strict_weak before" "sorted_wrt (\<lambda>a b. \<not> before b a) ys"
  shows "mset (place before x ys) = add_mset x (mset ys) \<and> sorted_wrt (\<lambda>a b. \<not> before b a) (place before x ys)"
  using assms(2)
proof (induction ys)
  case (Cons y ys)
  have IH: "mset (place before x ys) = add_mset x (mset ys)" "sorted_wrt (\<lambda>a b. \<not> before b a) (place before x ys)"
    using Cons.IH Cons.prems by simp_all
  then have mem: "set (place before x ys) = insert x (set ys)" by (metis set_mset_add_mset_insert set_mset_mset)
  have y: "\<forall>z\<in>set ys. \<not> before z y" using Cons.prems by simp
  show ?case
  proof (cases "before y x")
    case True
    then have "\<not> before x y" using assms(1) unfolding strict_weak_def by blast
    then show ?thesis using True IH y by (simp add: mem)
  next
    case False
    have "\<forall>z\<in>set ys. \<not> before z x"
    proof
      fix z assume "z \<in> set ys"
      then have "\<not> before z y" using y by blast
      with assms(1) False show "\<not> before z x" unfolding strict_weak_def by blast
    qed
    then show ?thesis using False Cons.prems by simp
  qed
qed simp

lemma sort_spec_sort_by: "sort_spec sort_by"
proof -
  have "mset (sort_by before ts) = mset ts \<and> sorted_wrt (\<lambda>a b. \<not> before b a) (sort_by before ts)"
    if "strict_weak before" for before and ts :: "MaintenanceTarget list"
    unfolding sort_by_def by (induction ts) (auto dest: place_sorted [OF that])
  then show ?thesis by (simp add: sort_spec_def)
qed

lemma sort_spec_dark_env: "sort_spec (e_sort dark_env)"
  by (simp add: sort_spec_sort_by dark_env_def sample_env_def)

text \<open>A configuration under which every size is above the threshold.\<close>

definition eager_world :: world where
  "eager_world = sample_world\<lparr>g_config := default_config\<lparr>cache_threshold_mb := 0\<rparr>\<rparr>"

theorem AnalyzeCaches_targets_witness:
  "\<exists>t\<in>set (fst (run_state (AnalyzeCaches dark_env [sample_cache]) eager_world)).
     cd_size_bytes (mt_cache_dir t) = 15 \<and> mt_priority t \<in> {1, 2, 3, 4}"
proof -
  have f: "fs eager_world = fs sample_world" "g_states eager_world = []" "tick eager_world = 0"
    by (simp_all add: eager_world_def sample_world_def boot_world_def)
  have wf: "wf_tree (fs eager_world)" using wf_sample_tree f(1) by simp
  have un: "unique_names (fs eager_world)"
    and res: "resolve (fs eager_world) False (cd_path sample_cache) = Some [''data'', ''app'', ''cache'']"
    and dir: "lookup (fs eager_world) [''data'', ''app'', ''cache''] =
      Some (Dir [(''img'', Dir [(''a'', File 10), (''up'', Link ''/data'')])])"
    unfolding f(1) by code_simp+
  have old: "\<not> cleaned_recently (timespec_ms (e_real dark_env (tick eager_world)))
      (state_of (g_states eager_world) (cd_pkg_name sample_cache))"
    unfolding f(2,3) by code_simp
  have big: "ShouldCleanCache (g_config eager_world) n" for n
    by (simp add: ShouldCleanCache_def threshold_bytes_def eager_world_def default_config_def)
  let ?ts = "fst (run_state (AnalyzeCaches dark_env [sample_cache]) eager_world)"
  have todo: "sample_cache \<in> set [sample_cache]" "\<not> cd_size_calculated sample_cache"
    by (simp_all add: sample_cache_def sample_dir_def)
  note c = AnalyzeCaches_targets [OF prod.collapse [symmetric] sort_spec_dark_env, of "[sample_cache]" eager_world]
  obtain t where t: "t \<in> set ?ts"
    "mt_cache_dir t = sized (Dir [(''img'', Dir [(''a'', File 10), (''up'', Link ''/data'')])]) sample_cache"
    using c [THEN conjunct2, THEN conjunct2, rule_format, OF _ todo(1) res dir todo(2) old big]
      faultless_dark_env wf un by blast
  moreover have "mt_priority t \<in> {1, 2, 3, 4}" using c t(1) by blast
  moreover have "cd_size_bytes (mt_cache_dir t) = 15" unfolding t(2) by (simp add: sized_def)
  ultimately show ?thesis by blast
qed

subsection \<open>Cooldown\<close>

definition other_package :: "string \<Rightarrow> MaintenanceTarget \<Rightarrow> bool" where
  "other_package pkg t \<longleftrightarrow> HashPackageName (cd_pkg_name (mt_cache_dir t)) \<noteq> HashPackageName pkg"

lemma analyze_loop_cooldown:
  assumes "in_cooldown now st"
  shows "hoare (\<lambda>w. state_of (g_states w) pkg = st \<and> list_all (other_package pkg) ts)
    (loop (analyze_step E now) ds ts)
    (\<lambda>r w. case r of Inl ts' \<Rightarrow> state_of (g_states w) pkg = st \<and> list_all (other_package pkg) ts' | Inr _ \<Rightarrow> False)"
proof (rule hoare_loop [where I = "\<lambda>ts w. state_of (g_states w) pkg = st \<and> list_all (other_package pkg) ts"],
    rule hoareI)
  fix d ts w r w'
  assume w: "state_of (g_states w) pkg = st \<and> list_all (other_package pkg) ts"
    and r: "run_state (analyze_step E now d ts) w = (r, w')"
  let ?P = "\<lambda>r. case r of Inl ts' \<Rightarrow> state_of (g_states w') pkg = st \<and> list_all (other_package pkg) ts' | Inr _ \<Rightarrow> False"
  show "?P r"
  proof (cases "in_cooldown now (state_of (g_states w) (cd_pkg_name d))")
    case True
    then show ?thesis using run_analyze_step(3) [OF r] w by simp
  next
    case False
    then have h: "HashPackageName pkg \<noteq> HashPackageName (cd_pkg_name d)"
      using assms w state_of_hash [of pkg "cd_pkg_name d" "g_states w"] by auto
    from run_analyze_step(4) [OF r False] obtain d' where d': "cd_pkg_name d' = cd_pkg_name d"
      "g_states w' = put_state (cd_pkg_name d)
         (scanned_state now (cd_size_bytes d') (state_of (g_states w) (cd_pkg_name d))) (g_states w)"
      "r = Inl (if ShouldCleanCache (g_config w) (cd_size_bytes d')
           then ts @ [\<lparr>mt_cache_dir = d', mt_priority = target_priority (cd_size_bytes d')
             (scanned_state now (cd_size_bytes d') (state_of (g_states w) (cd_pkg_name d)))\<rparr>]
           else ts)" by blast
    have "state_of (g_states w') pkg = st"
      unfolding d'(2) using store.get_put_other [OF h] w by simp
    moreover have "other_package pkg \<lparr>mt_cache_dir = d', mt_priority = n\<rparr>" for n
      using h d'(1) by (simp add: other_package_def)
    ultimately show ?thesis unfolding d'(3) using w by simp
  qed
qed

lemma analysis_cooldown:
  assumes "in_cooldown (timespec_ms (e_real E (tick w))) (state_of (g_states w) pkg)"
    and "sort_spec (e_sort E)" "run_state (AnalyzeCaches E ds) w = (ts, w')"
  shows "state_of (g_states w') pkg = state_of (g_states w) pkg \<and>
    (\<forall>t\<in>set ts. cd_pkg_name (mt_cache_dir t) \<noteq> pkg)"
proof -
  let ?now = "timespec_ms (e_real E (tick w))" and ?w = "w\<lparr>tick := Suc (tick w)\<rparr>"
  obtain r v where 1: "run_state (loop (analyze_step E ?now) ds []) ?w = (r, v)" by fastforce
  have "case r of Inl ts' \<Rightarrow> state_of (g_states v) pkg = state_of (g_states w) pkg \<and>
      list_all (other_package pkg) ts' | Inr _ \<Rightarrow> False"
    by (rule hoareD [OF analyze_loop_cooldown [OF assms(1)] _ 1]) simp
  then obtain ts' where ts': "r = Inl ts'" "list_all (other_package pkg) ts'"
    and v: "state_of (g_states v) pkg = state_of (g_states w) pkg"
    by (cases r) auto
  obtain v' where 2: "run_state (SaveStateAtomic E) v = ((), v')"
    by (cases "run_state (SaveStateAtomic E) v") auto
  have "ts = e_sort E by_priority ts'" "w' = v'"
    using assms(3) 1 2 ts'(1) by (simp_all add: AnalyzeCaches_def GetCurrentTimeMs_def)
  moreover from this(1) have "set ts = set ts'" using sorted_targets(2) [OF assms(2)] by simp
  ultimately show ?thesis
    using ts'(2) v SaveStateAtomic_result(1) [OF 2] by (auto simp: list_all_iff other_package_def)
qed

subsection \<open>The invariant of the store\<close>

definition keeps_keyed :: "world \<Rightarrow> world \<Rightarrow> bool" where
  "keeps_keyed s t \<longleftrightarrow> (keyed (g_states s) \<longrightarrow> keyed (g_states t))"

interpretation keeps_keyed: step_order keeps_keyed
  by unfold_locales (auto simp: keeps_keyed_def)

lemma keyed_put_state: "keyed m \<Longrightarrow> ps_hash s = HashPackageName p \<Longrightarrow> keyed (put_state p s m)"
  unfolding put_state_def by (rule keyed_update)

lemma ps_hash_scanned [simp]: "ps_hash (scanned_state now n s) = ps_hash s"
  by (simp add: scanned_state_def Let_def)

lemma ps_hash_cleaned [simp]: "ps_hash (cleaned_state now s) = ps_hash s"
  by (simp add: cleaned_state_def)

lemma same_states_keyed: "(\<And>s r t. run_state m s = (r, t) \<Longrightarrow> g_states t = g_states s) \<Longrightarrow> pres keeps_keyed m"
  by (intro presI) (simp add: keeps_keyed_def)

lemma sense_keyed: "keeps sans_sense m \<Longrightarrow> pres keeps_keyed m"
  by (rule same_states_keyed) (rule sans_sense_fields(6), rule pres_run)

lemma removal_keyed: "keeps sans_removal m \<Longrightarrow> pres keeps_keyed m"
  by (rule same_states_keyed) (rule sans_removal_fields(3), rule pres_run)

lemma save_keyed: "pres keeps_keyed (SaveStateAtomic E)"
  by (rule same_states_keyed) (rule SaveStateAtomic_result)

lemma analyze_step_keyed: "pres keeps_keyed (analyze_step E now d ts)"
proof (rule presI)
  fix w r w' assume r: "run_state (analyze_step E now d ts) w = (r, w')"
  let ?s = "state_of (g_states w) (cd_pkg_name d)"
  show "keeps_keyed w w'"
  proof (cases "in_cooldown now ?s")
    case True
    then show ?thesis using run_analyze_step(3) [OF r] by (simp add: keeps_keyed_def)
  next
    case False
    then show ?thesis
      using run_analyze_step(4) [OF r False] keyed_put_state ps_hash_state_of
      by (auto simp: keeps_keyed_def)
  qed
qed

lemma AnalyzeCaches_keyed: "pres keeps_keyed (AnalyzeCaches E ds)"
  unfolding AnalyzeCaches_def GetCurrentTimeMs_def
  by (intro keeps_keyed.p_rules analyze_step_keyed save_keyed sense_keyed [OF observe_keeps]) simp

text \<open>The record of a completed clean.\<close>

lemma clean_record_states:
  assumes "run_state (clean_record E d) w = (r, w')"
  shows "g_states w' = put_state (cd_pkg_name d)
    (cleaned_state (timespec_ms (e_real E (tick w))) (state_of (g_states w) (cd_pkg_name d))) (g_states w)"
proof -
  let ?v = "logged E INFO (''Completed clean of: '' @ cd_path d) w
    \<lparr>tick := Suc (tick w), g_states := put_state (cd_pkg_name d)
      (cleaned_state (timespec_ms (e_real E (tick w))) (state_of (g_states w) (cd_pkg_name d))) (g_states w)\<rparr>"
  obtain u where u: "run_state (SaveStateAtomic E) ?v = ((), u)"
    by (cases "run_state (SaveStateAtomic E) ?v") auto
  have "run_state (clean_record E d) w = (True, u)"
    using u unfolding clean_record_def
    by (simp add: run_GetPackageState run_UpdatePackageState GetCurrentTimeMs_def)
  then show ?thesis using assms SaveStateAtomic_result(1) [OF u] by simp
qed

lemma clean_record_keyed: "pres keeps_keyed (clean_record E d)"
  by (rule presI, drule clean_record_states)
    (simp add: keeps_keyed_def keyed_put_state ps_hash_state_of)

lemma CleanDirectorySafely_keyed: "pres keeps_keyed (CleanDirectorySafely E d)"
  unfolding CleanDirectorySafely_eq clean_child_def clean_record_def [symmetric]
  by (intro keeps_keyed.p_rules clean_record_keyed removal_keyed [OF RemoveRecursiveBatched_keeps]
      sense_keyed [OF Log_keeps_sense] sense_keyed [OF GetDirectoryChildren_keeps])

lemma sweeps_removal: "keeps sans_removal (RunSystemMaintenanceSweeps E)"
  unfolding RunSystemMaintenanceSweeps_def sweep_path_def NativeFstrim_def
  by (intro keep.p_rules RemoveRecursiveBatched_keeps keeps_sense_removal [OF Log_keeps_sense]
      keeps_sense_removal [OF GetDirectoryChildren_keeps] keeps_sense_removal [OF EvaluateIdleState_keeps]
      keeps_sense_removal [OF observe_keeps] emit_keeps_removal) simp_all

interpretation keyed: daemon_order keeps_keyed E for E
  by unfold_locales
    (intro sense_keyed frame_intros AnalyzeCaches_keyed CleanDirectorySafely_keyed
      removal_keyed [OF sweeps_removal] Log_keeps_sense same_states_keyed; simp)+

end
