(* ===== verification/Engine_Correct.thy ===== *)
theory Engine_Correct
  imports Analyzer_Correct
begin

section \<open>The state machine of the decision engine\<close>

text \<open>
  The transitions of the engine as a relation labelled with the verdict they follow, and its paths.
  An evaluation refines one step of the relation and a run of the event loop a path, labelled with the
  verdicts of its timer expiries, all of them and in order; reachability arguments are then about the relation only.
\<close>

inductive engine_step :: "IdleState \<Rightarrow> EngineState \<Rightarrow> EngineState \<Rightarrow> bool" where
  wake: "engine_step Is_NOT_IDLE s ACTIVE"
| settle: "v \<noteq> Is_NOT_IDLE \<Longrightarrow> s \<in> {BOOT, ACTIVE} \<Longrightarrow> engine_step v s SCREEN_OFF"
| wait: "v \<notin> {Is_NOT_IDLE, Is_IDLE_CANDIDATE} \<Longrightarrow> engine_step v SCREEN_OFF SCREEN_OFF"
| candidate: "engine_step Is_IDLE_CANDIDATE SCREEN_OFF IDLE_CANDIDATE"
| deepen: "v \<noteq> Is_NOT_IDLE \<Longrightarrow> engine_step v IDLE_CANDIDATE DEEP_IDLE"
| maintain: "v \<noteq> Is_NOT_IDLE \<Longrightarrow> s \<in> {ACTIVE, ABORTING} \<Longrightarrow> engine_step v DEEP_IDLE s"
| stay: "v \<noteq> Is_NOT_IDLE \<Longrightarrow> engine_step v MAINTENANCE MAINTENANCE"
| recover: "v \<noteq> Is_NOT_IDLE \<Longrightarrow> s \<in> {ABORTING, ERROR_BACKOFF} \<Longrightarrow> engine_step v s ACTIVE"

inductive_simps engine_step_from:
  "engine_step v BOOT t" "engine_step v ACTIVE t" "engine_step v SCREEN_OFF t"
  "engine_step v IDLE_CANDIDATE t" "engine_step v DEEP_IDLE t" "engine_step v MAINTENANCE t"
  "engine_step v ABORTING t" "engine_step v ERROR_BACKOFF t"

inductive_cases engine_step_into:
  "engine_step v s DEEP_IDLE" "engine_step v s IDLE_CANDIDATE" "engine_step v s SCREEN_OFF"

inductive engine_path :: "EngineState \<Rightarrow> IdleState list \<Rightarrow> EngineState \<Rightarrow> bool" for s where
  start: "engine_path s [] s"
| extend: "engine_path s vs t \<Longrightarrow> engine_step v t u \<Longrightarrow> engine_path s (vs @ [v]) u"

inductive_cases engine_path_Nil: "engine_path s [] t"

lemma engine_path_snoc: "engine_path s (vs @ [v]) u \<longleftrightarrow> (\<exists>t. engine_path s vs t \<and> engine_step v t u)"
  by (auto elim: engine_path.cases intro: engine_path.extend)

lemma engine_path_trans: "engine_path t us u \<Longrightarrow> engine_path s vs t \<Longrightarrow> engine_path s (vs @ us) u"
  by (induction rule: engine_path.induct) (auto simp: engine_path_snoc simp flip: append_assoc)

lemma engine_path_single: "engine_step v s t \<Longrightarrow> engine_path s [v] t"
  using engine_path.extend [OF engine_path.start] by simp

subsection \<open>Reachability\<close>

lemma engine_path_rests:
  "engine_path s vs t \<Longrightarrow> s \<notin> {MAINTENANCE, ERROR_BACKOFF} \<Longrightarrow> t \<notin> {MAINTENANCE, ERROR_BACKOFF}"
proof (induction rule: engine_path.induct)
  case (extend vs t v u)
  then show ?case by (auto elim: engine_step.cases)
qed

text \<open>Every path into deep idle ends with three idle verdicts, the second one a candidate.\<close>

lemma engine_path_countdown:
  assumes "engine_path s vs DEEP_IDLE" "s \<in> {BOOT, ACTIVE, ABORTING}"
  shows "\<exists>us a c. vs = us @ [a, Is_IDLE_CANDIDATE, c] \<and> a \<noteq> Is_NOT_IDLE \<and> c \<noteq> Is_NOT_IDLE"
proof -
  have last_step: "\<exists>ws v y. us = ws @ [v] \<and> engine_path s ws y \<and> engine_step v y x"
    if "engine_path s us x" "x \<notin> {BOOT, ACTIVE, ABORTING}" for us x
    using that(1)
  proof (cases rule: engine_path.cases)
    case start
    then show ?thesis using that(2) assms(2) by blast
  qed blast
  obtain v2 c where 1: "vs = v2 @ [c]" "c \<noteq> Is_NOT_IDLE" "engine_path s v2 IDLE_CANDIDATE"
    using last_step [OF assms(1)] by (auto elim: engine_step_into)
  obtain v1 where 2: "v2 = v1 @ [Is_IDLE_CANDIDATE]" "engine_path s v1 SCREEN_OFF"
    using last_step [OF 1(3)] by (auto elim: engine_step_into)
  obtain us a where "v1 = us @ [a]" "a \<noteq> Is_NOT_IDLE"
    using last_step [OF 2(2)] by (auto elim: engine_step_into)
  with 1 2 show ?thesis by auto
qed

subsection \<open>What a maintenance run leaves alone\<close>

definition settings :: "world \<Rightarrow> Configuration \<times> EngineState \<times> bool \<times> u32 option" where
  "settings w = (g_config w, g_current_state w, g_running w, g_timer w)"

lemma settings_sense: "keeps sans_sense m \<Longrightarrow> keeps settings m"
  by (erule keeps_comp [where h = settings]) (simp add: settings_def sans_sense_def)

lemma settings_state: "keeps sans_state m \<Longrightarrow> keeps settings m"
  by (erule keeps_comp [where h = settings]) (simp add: settings_def sans_state_def sans_sense_def)

lemma settings_removal: "keeps sans_removal m \<Longrightarrow> keeps settings m"
  by (erule keeps_comp [where h = settings])
    (simp add: settings_def sans_removal_def sans_batch_def sans_sense_def)

lemma CleanDirectorySafely_settings: "keeps settings (CleanDirectorySafely E d)"
  unfolding CleanDirectorySafely_def GetCurrentTimeMs_def
  by (intro keep.p_rules settings_removal [OF RemoveRecursiveBatched_keeps]
      settings_sense [OF Log_keeps_sense] settings_sense [OF GetDirectoryChildren_keeps]
      settings_sense [OF observe_keeps] settings_state [OF SaveStateAtomic_keeps]
      settings_state [OF UpdatePackageState_keeps] GetPackageState_keeps) simp

lemmas settings_intros =
  settings_removal [OF sweeps_removal] CleanDirectorySafely_settings
  settings_state [OF AnalyzeCaches_keeps] settings_sense [OF ScanPackageCache_keeps]
  settings_sense [OF GetInstalledPackages_keeps] settings_sense [OF IsScreenOn_keeps]
  settings_sense [OF EvaluateIdleState_keeps] settings_sense [OF Log_keeps_sense]
  settings_sense [OF OptimizeDoze_keeps] settings_sense [OF WakeFromDoze_keeps]

lemma settings_run: "keeps settings m \<Longrightarrow> run_state m w = (r, w') \<Longrightarrow> settings w' = settings w"
  by (rule pres_run)

lemma settings_state_eq: "settings w' = settings w \<Longrightarrow> g_current_state w' = g_current_state w"
  by (simp add: settings_def)

lemma hoare_settings:
  "keeps settings m \<Longrightarrow> hoare (\<lambda>w. g_current_state w = s) m (\<lambda>_ w. g_current_state w = s)"
  by (erule hoare_pres) (simp add: settings_def)

lemma run_TransitionTo:
  "run_state (TransitionTo E s) w = (r, w') \<Longrightarrow> g_current_state w' = s \<and> g_config w' = g_config w \<and>
     g_timer w' = g_timer w \<and> g_running w' = g_running w"
  by (auto simp: TransitionTo_def run_whenS split: if_splits)

lemma hoare_TransitionTo: "(\<And>w. g_current_state w = s \<Longrightarrow> Q () w) \<Longrightarrow> hoare P (TransitionTo E s) Q"
  by (rule hoareI) (use run_TransitionTo in auto)

subsection \<open>The result of a maintenance run\<close>

abbreviation in_state :: "EngineState \<Rightarrow> world \<Rightarrow> bool" where
  "in_state s w \<equiv> g_current_state w = s"

lemma scan_packages_step_state:
  "hoare (in_state MAINTENANCE) (scan_packages_step E p ds)
     (\<lambda>r w. case r of Inl _ \<Rightarrow> in_state MAINTENANCE w | Inr _ \<Rightarrow> in_state ABORTING w)"
  unfolding scan_packages_step_def
  by (rule hoare_bind, rule hoare_settings, rule settings_intros, rule hoare_if;
      rule hoare_bind [where R = "\<lambda>_. in_state ABORTING"] hoare_bind [OF hoare_settings];
      (rule hoare_TransitionTo settings_intros | rule hoare_return; simp))

lemma clean_targets_step_state:
  "hoare (in_state MAINTENANCE) (clean_targets_step E t u)
     (\<lambda>r w. case r of Inl _ \<Rightarrow> in_state MAINTENANCE w | Inr _ \<Rightarrow> in_state ABORTING w)"
proof (rule hoareI)
  fix w r w' assume w: "in_state MAINTENANCE w" and run: "run_state (clean_targets_step E t u) w = (r, w')"
  obtain i v where 1: "run_state (EvaluateIdleState E) w = (i, v)" by fastforce
  have v: "in_state MAINTENANCE v"
    using settings_state_eq [OF settings_run [OF settings_intros(7) 1]] w by simp
  obtain ok u where 2: "run_state (CleanDirectorySafely E (mt_cache_dir t)) v = (ok, u)" by fastforce
  have u: "in_state MAINTENANCE u"
    using settings_state_eq [OF settings_run [OF settings_intros(2) 2]] v by simp
  show "case r of Inl _ \<Rightarrow> in_state MAINTENANCE w' | Inr _ \<Rightarrow> in_state ABORTING w'"
    using run 1 2 v u by (auto simp: clean_targets_step_def split: if_splits prod.splits dest: run_TransitionTo)
qed

text \<open>A run that is not aborted ends by forcing Doze, with the engine in \<open>ACTIVE\<close>.\<close>

definition finished :: "world \<Rightarrow> bool" where
  "finished w \<longleftrightarrow> in_state ABORTING w \<or>
     in_state ACTIVE w \<and> (\<exists>es. trace w = es @ [Shell force_idle_cmd])"

lemma PerformMaintenance_state:
  "hoare (in_state MAINTENANCE) (PerformMaintenance E) (\<lambda>_. finished)"
proof (rule hoare_maintenance [where A = UNIV and D = "\<lambda>_. True" and T = "\<lambda>_. True"])
  show "hoare (in_state MAINTENANCE) (TransitionTo E ABORTING) (\<lambda>_. finished)"
    by (rule hoare_TransitionTo) (simp add: finished_def)
  show "hoare (in_state MAINTENANCE) (do { OptimizeDoze E; TransitionTo E ACTIVE }) (\<lambda>_. finished)"
    by (auto simp: hoare_def finished_def OptimizeDoze_def TransitionTo_def run_system_def run_whenS)
  show "hoare (in_state MAINTENANCE) (scan_packages_step E p ds)
      (\<lambda>r w. case r of Inl ds' \<Rightarrow> in_state MAINTENANCE w \<and> list_all (\<lambda>_. True) ds' | Inr _ \<Rightarrow> finished w)" for p ds
    by (rule hoare_conseq [OF scan_packages_step_state]) (auto simp: finished_def list_all_iff split: sum.splits)
  show "hoare (in_state MAINTENANCE) (clean_targets_step E t u)
      (\<lambda>r w. case r of Inl _ \<Rightarrow> in_state MAINTENANCE w | Inr _ \<Rightarrow> finished w)" for t u
    by (rule hoare_conseq [OF clean_targets_step_state]) (auto simp: finished_def split: sum.splits)
qed (rule hoare_conseq [OF hoare_settings], rule settings_intros, simp, simp add: list_all_iff)+

subsection \<open>Refinement\<close>

definition verdict_of :: "env \<Rightarrow> world \<Rightarrow> IdleState" where
  "verdict_of E w = fst (run_state (EvaluateIdleState E) w)"

lemma run_PerformMaintenance:
  "run_state (PerformMaintenance E) w = (u, w') \<Longrightarrow> in_state MAINTENANCE w \<Longrightarrow> finished w'"
  by (rule hoareD [OF PerformMaintenance_state])

lemma finished_states: "finished w \<Longrightarrow> g_current_state w \<in> {ACTIVE, ABORTING}"
  by (auto simp: finished_def)

lemma evaluation_step:
  assumes "run_state (EvaluateAndTransition E) w = (u, w')"
  shows "engine_step (verdict_of E w) (g_current_state w) (g_current_state w')"
proof -
  obtain i v where 1: "run_state (EvaluateIdleState E) w = (i, v)" by fastforce
  have v: "g_current_state v = g_current_state w"
    using settings_state_eq [OF settings_run [OF settings_intros(7) 1]] .
  have i: "verdict_of E w = i" using 1 by (simp add: verdict_of_def)
  show ?thesis
  proof (cases "i = Is_NOT_IDLE")
    case True
    then have "g_current_state w' = ACTIVE"
      using assms 1 v settings_state_eq [OF presD [OF settings_intros(10)]]
      by (auto simp: EvaluateAndTransition_def GetCurrentState_def run_whenS split: if_splits prod.splits
          dest: run_TransitionTo)
    then show ?thesis using i True by (simp add: engine_step.wake)
  next
    case False
    show ?thesis
    proof (cases "g_current_state w")
      case DEEP_IDLE
      obtain v1 where 2: "run_state (TransitionTo E MAINTENANCE) v = ((), v1)"
        by (cases "run_state (TransitionTo E MAINTENANCE) v") auto
      then have "run_state (PerformMaintenance E) v1 = (u, w')"
        using assms 1 False DEEP_IDLE by (simp add: EvaluateAndTransition_def GetCurrentState_def)
      then show ?thesis
        using finished_states [OF run_PerformMaintenance] run_TransitionTo [OF 2] i False DEEP_IDLE
        by (simp add: engine_step_from)
    qed (use assms 1 False i v in \<open>auto simp: EvaluateAndTransition_def GetCurrentState_def run_whenS
          engine_step_from split: if_splits dest: run_TransitionTo\<close>)
  qed
qed

subsection \<open>Paths of a run\<close>

text \<open>
  Nothing ever shortens the trace, and only the operations around a maintenance run, not the run
  itself, start shell commands.
\<close>

definition shell_free :: "effect \<Rightarrow> bool" where
  "shell_free e \<longleftrightarrow> (case e of Shell _ \<Rightarrow> False | Mixer _ _ \<Rightarrow> False | LogUnlink _ _ \<Rightarrow> False | _ \<Rightarrow> True)"

lemma shell_free_simps [simp]:
  "shell_free (IdleEval v)" "shell_free (Unlink p b)" "shell_free (Rmdir p b)" "shell_free (Fitrim p)"
  "shell_free (Usleep n)" "shell_free (Pipe p)" "\<not> shell_free (Shell p)" "\<not> shell_free (Mixer c vs)" "\<not> shell_free (LogUnlink p b)"
  by (simp_all add: shell_free_def)

lemma sensor_free: "traces sensor_effect m \<Longrightarrow> traces shell_free m" "traces pipe_effect m \<Longrightarrow> traces shell_free m"
  by (erule pres_mono, erule grows_mono, auto simp: sensor_effect_def pipe_effect_def split: effect.splits)+

lemma remove_rec_free: "traces shell_free (remove_rec E n p)"
proof (induction n arbitrary: p)
  case 0
  show ?case by (simp add: grow.p_return)
next
  case (Suc n)
  then show ?case
    unfolding remove_rec.simps remove_body_def remove_step_def remove_entry_def batch_check_def
      SafeRemove_def sys_unlink_def sys_rmdir_def sys_remove_def
    by (intro grow.p_rules trace_intros sensor_free(1) [OF EvaluateIdleState_traces]) simp_all
qed

lemma RemoveRecursiveBatched_free: "traces shell_free (RemoveRecursiveBatched E p)"
  unfolding RemoveRecursiveBatched_def by (intro grow.p_rules remove_rec_free)

lemma CleanDirectorySafely_free: "traces shell_free (CleanDirectorySafely E d)"
  unfolding CleanDirectorySafely_def GetCurrentTimeMs_def
  by (intro grow.p_rules trace_intros RemoveRecursiveBatched_free)

lemma sweeps_free: "traces shell_free (RunSystemMaintenanceSweeps E)"
  unfolding RunSystemMaintenanceSweeps_def sweep_path_def NativeFstrim_def
  by (intro grow.p_rules trace_intros RemoveRecursiveBatched_free
      sensor_free(1) [OF EvaluateIdleState_traces]) simp_all

lemma packages_free: "traces shell_free (GetInstalledPackages E)"
  unfolding GetInstalledPackages_def by (intro grow.p_rules trace_intros)

abbreviation logs :: "'a io \<Rightarrow> bool" where
  "logs \<equiv> traces (\<lambda>_. True)"

lemma traces_any: "traces P m \<Longrightarrow> logs m"
  by (erule pres_mono) (erule grows_mono, simp)

lemma system_any: "logs (run_system c)"
  unfolding run_system_def by (intro emit_traces) simp

interpretation growing: daemon_order "grows trace (\<lambda>_. True)" E for E
  by unfold_locales
    (intro traces_any [OF sweeps_free] traces_any [OF packages_free] traces_any [OF CleanDirectorySafely_free]
      traces_any [OF IsScreenOn_traces] traces_any [OF EvaluateIdleState_traces]
      system_any trace_intros; simp)+

text \<open>Effects that the event loop never has: it sets no mixer control and unlinks no log.\<close>

definition loop_effect :: "effect \<Rightarrow> bool" where
  "loop_effect e \<longleftrightarrow> (case e of Mixer _ _ \<Rightarrow> False | LogUnlink _ _ \<Rightarrow> False | _ \<Rightarrow> True)"

lemma free_loop_effect: "traces shell_free m \<Longrightarrow> traces loop_effect m"
  by (erule pres_mono, erule grows_mono) (simp add: shell_free_def loop_effect_def split: effect.splits)

lemma system_loop_effect: "traces loop_effect (run_system c)"
  unfolding run_system_def by (intro emit_traces) (simp add: loop_effect_def)

interpretation loop_effects: daemon_order "grows trace loop_effect" E for E
  by unfold_locales
    (intro free_loop_effect [OF sweeps_free] free_loop_effect [OF packages_free]
      free_loop_effect [OF CleanDirectorySafely_free] free_loop_effect [OF sensor_free(2) [OF IsScreenOn_traces]]
      free_loop_effect [OF sensor_free(1) [OF EvaluateIdleState_traces]] system_loop_effect trace_intros; simp)+

fun verdicts :: "effect list \<Rightarrow> IdleState list" where
  "verdicts [] = []"
| "verdicts (IdleEval v # es) = v # verdicts es"
| "verdicts (e # es) = verdicts es"

lemma verdicts_append [simp]: "verdicts (xs @ ys) = verdicts xs @ verdicts ys"
  by (induction xs rule: verdicts.induct) simp_all

text \<open>
  The verdicts of a run, one for every timer expiry that the loop handles: none for other descriptors
  or a failed read, and none once the loop has been stopped. The read of the timer comes before the evaluation.
\<close>

definition next_verdict :: "env \<Rightarrow> world \<Rightarrow> IdleState" where
  "next_verdict E w = verdict_of E (w\<lparr>g_timer := None\<rparr>)"

fun event_verdicts :: "env \<Rightarrow> (bool \<times> bool) list \<Rightarrow> world \<Rightarrow> IdleState list" where
  "event_verdicts E [] w = []"
| "event_verdicts E (ev # evs) w =
     (if ev = (True, True) then [next_verdict E w] else []) @
     event_verdicts E evs (snd (run_state (handle_event E ev ()) w))"

fun evaluations :: "env \<Rightarrow> sched_input list \<Rightarrow> world \<Rightarrow> IdleState list" where
  "evaluations E [] w = []"
| "evaluations E (Signal # ins) w = evaluations E ins (w\<lparr>g_running := False\<rparr>)"
| "evaluations E (PollFail eintr # ins) w = (if g_running w \<and> eintr then evaluations E ins w else [])"
| "evaluations E (PollReady evs # ins) w =
     (if g_running w then event_verdicts E evs w @ evaluations E ins (snd (run_state (loop (handle_event E) evs ()) w))
      else [])"

text \<open>\<open>follows vs s t\<close>: a path with exactly the labels \<open>vs\<close>, all of them recorded in the trace.\<close>

definition follows :: "IdleState list \<Rightarrow> world \<Rightarrow> world \<Rightarrow> bool" where
  "follows vs s t \<longleftrightarrow> engine_path (g_current_state s) vs (g_current_state t) \<and>
     (\<exists>es. trace t = trace s @ es \<and> subseq vs (verdicts es))"

lemma follows_quiet: "trace t = trace s \<Longrightarrow> g_current_state t = g_current_state s \<Longrightarrow> follows [] s t"
  by (simp add: follows_def engine_path.start)

lemma follows_trans:
  assumes "follows vs s t" "follows us t u"
  shows "follows (vs @ us) s u"
proof -
  obtain es fs where "trace t = trace s @ es" "subseq vs (verdicts es)" "trace u = trace t @ fs" "subseq us (verdicts fs)"
    using assms unfolding follows_def by blast
  then have "trace u = trace s @ (es @ fs)" "subseq (vs @ us) (verdicts (es @ fs))"
    by (simp_all add: list_emb_append_mono)
  moreover have "engine_path (g_current_state s) (vs @ us) (g_current_state u)"
    using assms unfolding follows_def by (blast intro: engine_path_trans)
  ultimately show ?thesis unfolding follows_def by blast
qed

lemma EvaluateAndTransition_follows:
  assumes "run_state (EvaluateAndTransition E) w = (r, w')"
  shows "follows [verdict_of E w] w w'"
proof -
  obtain v w1 where 1: "run_state (EvaluateIdleState E) w = (v, w1)" by fastforce
  obtain es where es: "trace w1 = trace w @ es @ [IdleEval v]"
    using run_EvaluateIdleState_trace [OF 1] by blast
  have "grows trace (\<lambda>_. True) w1 w'"
    using assms unfolding run_EvaluateAndTransition [OF 1] by (rule pres_run [OF growing.act])
  then obtain fs where "trace w' = trace w1 @ fs" by (auto simp: grows_def)
  with es have "trace w' = trace w @ es @ [IdleEval v] @ fs" by simp
  moreover have "subseq [v] (verdicts (es @ [IdleEval v] @ fs))"
    by (simp add: subseq_singleton_left)
  moreover have "verdict_of E w = v" using 1 by (simp add: verdict_of_def)
  ultimately show ?thesis using engine_path_single [OF evaluation_step [OF assms]] unfolding follows_def by blast
qed

lemma handle_event_follows:
  assumes "run_state (handle_event E ev ()) w = (r, w')"
  shows "r = Inl ()" "follows (if ev = (True, True) then [next_verdict E w] else []) w w'"
proof -
  show "r = Inl ()" using assms by (auto simp: handle_event_def split: if_splits prod.splits)
  show "follows (if ev = (True, True) then [next_verdict E w] else []) w w'"
  proof (cases "ev = (True, True)")
    case True
    obtain v where 1: "run_state (EvaluateAndTransition E) (w\<lparr>g_timer := None\<rparr>) = ((), v)"
      by (cases "run_state (EvaluateAndTransition E) (w\<lparr>g_timer := None\<rparr>)") auto
    then have "g_current_state w' = g_current_state v" "trace w' = trace v"
      using assms True by (auto simp: handle_event_def GetCurrentState_def SetTimer_def)
    then show ?thesis
      using EvaluateAndTransition_follows [OF 1] True by (simp add: follows_def next_verdict_def)
  next
    case False
    then show ?thesis using assms by (cases ev) (auto simp: handle_event_def follows_quiet split: if_splits)
  qed
qed

lemma events_follow: "follows (event_verdicts E evs w) w (snd (run_state (loop (handle_event E) evs ()) w))"
proof (induction evs arbitrary: w)
  case Nil
  show ?case by (simp add: follows_quiet)
next
  case (Cons ev evs)
  obtain r v where 1: "run_state (handle_event E ev ()) w = (r, v)" by fastforce
  have "run_state (loop (handle_event E) (ev # evs) ()) w = run_state (loop (handle_event E) evs ()) v"
    using 1 handle_event_follows(1) [OF 1] by simp
  then show ?case using follows_trans [OF handle_event_follows(2) [OF 1] Cons.IH] 1 by simp
qed

lemma sched_loop_follows: "follows (evaluations E ins w) w (snd (run_state (sched_loop E ins) w))"
proof (induction E ins w rule: evaluations.induct)
  case (2 E ins w)
  then show ?case by (simp add: SignalHandler_def follows_def)
next
  case (3 E eintr ins w)
  then show ?case by (auto simp: follows_quiet)
next
  case (4 E evs ins w)
  show ?case
  proof (cases "g_running w")
    case True
    obtain r v where 1: "run_state (loop (handle_event E) evs ()) w = (r, v)" by fastforce
    have "run_state (sched_loop E (PollReady evs # ins)) w = run_state (sched_loop E ins) v"
      using 1 True by (simp del: loop.simps)
    then show ?thesis
      using follows_trans [OF events_follow [of E evs w]] "4.IH" [OF True] 1 True by (simp del: loop.simps)
  qed (simp add: follows_quiet)
qed (simp add: follows_quiet)

definition started :: "env \<Rightarrow> world \<Rightarrow> world" where
  "started E w = (logged E INFO ''Scheduler Event Loop started'' w)\<lparr>g_timer := Some 1\<rparr>"

lemma RunScheduler_follows:
  assumes "run_state (RunScheduler E epoll_ok timer_ok ctl_ok ins) w = (r, w')"
  shows "follows (if epoll_ok \<and> timer_ok \<and> ctl_ok then evaluations E ins (started E w) else []) w w'"
proof (cases "epoll_ok \<and> timer_ok \<and> ctl_ok")
  case True
  obtain b v where 1: "run_state (sched_loop E ins) (started E w) = (b, v)" by fastforce
  then have "g_current_state w' = g_current_state v" "trace w' = trace v"
    using assms True by (cases b; auto simp: RunScheduler_def SetTimer_def started_def run_whenS)+
  then show ?thesis
    using sched_loop_follows [of E ins "started E w"] 1 True by (simp add: follows_def started_def)
next
  case False
  then show ?thesis using assms by (auto simp: RunScheduler_def follows_quiet split: if_splits)
qed

text \<open>
  C10. The event loop implements the state machine: the engine state moves along a path of the
  relation with one step for every timer expiry, labelled with the verdict of that expiry, none left
  out and none added; and the run records these verdicts. An event loop that cannot be set up does not
  move.
\<close>

theorem RunScheduler_refines:
  assumes "run_state (RunScheduler E epoll_ok timer_ok ctl_ok ins) w = (r, w')"
    and "vs = (if epoll_ok \<and> timer_ok \<and> ctl_ok then evaluations E ins (started E w) else [])"
  shows "engine_path (g_current_state w) vs (g_current_state w') \<and>
    (\<exists>es. trace w' = trace w @ es \<and> subseq vs (verdicts es))"
  using RunScheduler_follows [OF assms(1)] unfolding follows_def assms(2) .

theorem RunScheduler_refines_witness:
  "engine_path BOOT [Is_SCREEN_OFF, Is_SCREEN_OFF] (g_current_state (snd (run_state (RunScheduler dark_env True True True
     [PollReady [(True, True)], PollReady [(False, False), (True, True)]]) sample_world)))"
proof -
  have vs: "[Is_SCREEN_OFF, Is_SCREEN_OFF] = (if True \<and> True \<and> True then
      evaluations dark_env [PollReady [(True, True)], PollReady [(False, False), (True, True)]] (started dark_env sample_world) else [])"
    by code_simp
  have "g_current_state sample_world = BOOT" by (simp add: sample_world_def boot_world_def)
  then show ?thesis using RunScheduler_refines [OF prod.collapse [symmetric] vs] by simp
qed

text \<open>
  C12. Maintenance needs a device that has been idle for a while: if a run takes the engine from
  its start to deep idle, the only state maintenance starts from, its last three expiries found the
  device idle, one after the other with no wake-up between, and in the middle one it passed every gate.
\<close>

theorem RunScheduler_deep_idle:
  assumes "run_state (RunScheduler E epoll_ok timer_ok ctl_ok ins) w = (r, w')"
    and "g_current_state w \<in> {BOOT, ACTIVE, ABORTING}" "g_current_state w' = DEEP_IDLE"
  shows "\<exists>us a c. evaluations E ins (started E w) = us @ [a, Is_IDLE_CANDIDATE, c] \<and>
    a \<noteq> Is_NOT_IDLE \<and> c \<noteq> Is_NOT_IDLE"
proof -
  have "engine_path (g_current_state w) (if epoll_ok \<and> timer_ok \<and> ctl_ok then evaluations E ins (started E w) else []) DEEP_IDLE"
    using RunScheduler_follows [OF assms(1)] assms(3) by (simp add: follows_def)
  from engine_path_countdown [OF this assms(2)] show ?thesis by (auto split: if_splits)
qed

definition patient_world :: world where
  "patient_world = sample_world\<lparr>g_config := default_config\<lparr>idle_delay_minutes := 0, thermal_protection := False\<rparr>\<rparr>"

theorem RunScheduler_deep_idle_witness:
  "\<exists>us a c. evaluations dark_env (replicate 3 (PollReady [(True, True)])) (started dark_env patient_world) =
     us @ [a, Is_IDLE_CANDIDATE, c] \<and> a \<noteq> Is_NOT_IDLE \<and> c \<noteq> Is_NOT_IDLE"
proof -
  have t: "g_current_state patient_world \<in> {BOOT, ACTIVE, ABORTING}"
    by (simp add: patient_world_def sample_world_def boot_world_def)
  have "g_current_state (snd (run_state (RunScheduler dark_env True True True
       (replicate 3 (PollReady [(True, True)]))) patient_world)) = DEEP_IDLE"
    by code_simp
  with t show ?thesis by (rule RunScheduler_deep_idle [OF prod.collapse [symmetric]])
qed

text \<open>
  Between two waits the engine is never in \<open>MAINTENANCE\<close>, where nothing would take it out, and
  never in \<open>ERROR_BACKOFF\<close>, which nothing enters.
\<close>

lemma RunScheduler_rests:
  assumes "run_state (RunScheduler E epoll_ok timer_ok ctl_ok ins) w = (r, w')"
    and "g_current_state w \<notin> {MAINTENANCE, ERROR_BACKOFF}"
  shows "g_current_state w' \<notin> {MAINTENANCE, ERROR_BACKOFF}"
  using RunScheduler_follows [OF assms(1)] engine_path_rests assms(2)
  unfolding follows_def by blast

subsection \<open>Expiries outside deep idle\<close>

definition storage :: "world \<Rightarrow> node \<times> (string \<rightharpoonup> u8 list) \<times> (u32 \<times> PackageState) list" where
  "storage w = (fs w, disk w, g_states w)"

lemma storage_sense: "keeps sans_sense m \<Longrightarrow> keeps storage m"
  by (erule keeps_comp [where h = storage]) (simp add: storage_def sans_sense_def)

lemma TransitionTo_storage: "keeps storage (TransitionTo E s)"
  unfolding TransitionTo_def
  by (intro keep.p_rules storage_sense [OF Log_keeps_sense] keep.p_mod) (simp add: storage_def)

text \<open>
  C35. Only an expiry in deep idle with the verdict of an idle device can change the files, the
  daemon's own file or the package states: every other one leaves them as they are.
\<close>

theorem EvaluateAndTransition_quiet:
  assumes "run_state (EvaluateAndTransition E) w = (r, w')"
    and "g_current_state w \<noteq> DEEP_IDLE \<or> verdict_of E w = Is_NOT_IDLE"
  shows "fs w' = fs w \<and> disk w' = disk w \<and> g_states w' = g_states w"
proof -
  obtain v w1 where 1: "run_state (EvaluateIdleState E) w = (v, w1)" by fastforce
  have "v = Is_NOT_IDLE \<or> g_current_state w \<noteq> DEEP_IDLE" using assms(2) 1 by (auto simp: verdict_of_def)
  then have "keeps storage (after_verdict E v (g_current_state w))"
    unfolding after_verdict_def
    by (cases "g_current_state w"; simp only: EngineState.case if_True simp_thms;
        intro keep.p_rules TransitionTo_storage storage_sense [OF WakeFromDoze_keeps]; simp)
  from pres_run [OF this assms(1) [unfolded run_EvaluateAndTransition [OF 1]]]
  show ?thesis using storage_sense [OF EvaluateIdleState_keeps] 1
    by (auto simp: storage_def dest: pres_run)
qed

theorem EvaluateAndTransition_quiet_witness:
  "fs (snd (run_state (EvaluateAndTransition lit_env) sample_world)) = sample_tree"
  using EvaluateAndTransition_quiet [OF prod.collapse [symmetric], of sample_world lit_env]
  by (simp add: sample_world_def boot_world_def)

subsection \<open>The timer\<close>

text \<open>The configuration is the one loaded at the start, and only the signal handler stops the loop.\<close>

definition fixture :: "world \<Rightarrow> Configuration \<times> bool" where
  "fixture w = (g_config w, g_running w)"

lemma fixture_settings: "keeps settings m \<Longrightarrow> keeps fixture m"
  by (erule keeps_comp [where h = "\<lambda>(c, s, b, t). (c, b)"]) (simp add: settings_def fixture_def)

lemma TransitionTo_fixture: "keeps fixture (TransitionTo E s)"
  by (rule presI) (auto simp: fixture_def dest: run_TransitionTo)

lemma PerformMaintenance_fixture: "keeps fixture (PerformMaintenance E)"
  unfolding PerformMaintenance_def scan_packages_step_def clean_targets_step_def
  by (intro keep.p_rules TransitionTo_fixture fixture_settings settings_intros)

lemma EvaluateAndTransition_fixture: "keeps fixture (EvaluateAndTransition E)"
proof -
  have act: "keeps fixture (after_verdict E v s)" for v s
    unfolding after_verdict_def
    by (cases s; simp only: EngineState.case; intro keep.p_rules TransitionTo_fixture
        PerformMaintenance_fixture fixture_settings settings_intros)
  show ?thesis
    unfolding EvaluateAndTransition_eq GetCurrentState_def
    by (intro keep.p_rules act fixture_settings [OF settings_intros(7)])
qed

text \<open>A timer expiry ends with the timer armed for the state the evaluation ended in.\<close>

lemma run_handle_event:
  assumes "run_state (handle_event E ev u) w = (r, w')"
  shows "r = Inl ()" "fixture w' = fixture w"
    "ev \<noteq> (True, True) \<Longrightarrow> w' = w"
    "ev = (True, True) \<Longrightarrow> g_timer w' =
       (let n = next_sleep_sec (g_config w) (g_current_state w') in if n = 0 then None else Some n)"
proof -
  show "r = Inl ()" using assms by (auto simp: handle_event_def split: if_splits prod.splits)
  show "ev \<noteq> (True, True) \<Longrightarrow> w' = w"
    using assms by (cases ev) (auto simp: handle_event_def split: if_splits)
  obtain v where 1: "run_state (EvaluateAndTransition E) (w\<lparr>g_timer := None\<rparr>) = ((), v)"
    by (cases "run_state (EvaluateAndTransition E) (w\<lparr>g_timer := None\<rparr>)") auto
  have v: "g_config v = g_config w" "g_running v = g_running w"
    using pres_run [OF EvaluateAndTransition_fixture 1] by (simp_all add: fixture_def)
  show "fixture w' = fixture w"
    using assms 1 v by (cases ev) (auto simp: handle_event_def GetCurrentState_def SetTimer_def fixture_def
        split: if_splits)
  show "ev = (True, True) \<Longrightarrow> g_timer w' =
       (let n = next_sleep_sec (g_config w) (g_current_state w') in if n = 0 then None else Some n)"
    using assms 1 v by (auto simp: handle_event_def GetCurrentState_def SetTimer_def Let_def)
qed

definition intervals_ok :: "Configuration \<Rightarrow> bool" where
  "intervals_ok g \<longleftrightarrow> check_interval_active_sec g \<noteq> 0 \<and> check_interval_screen_off_sec g \<noteq> 0 \<and>
     check_interval_deep_idle_sec g \<noteq> 0"

lemma next_sleep_nonzero: "intervals_ok g \<Longrightarrow> next_sleep_sec g s \<noteq> 0"
  by (cases s) (simp_all add: next_sleep_sec_def intervals_ok_def)

definition armed :: "world \<Rightarrow> bool" where
  "armed w \<longleftrightarrow> intervals_ok (g_config w) \<and> g_timer w \<noteq> None"

lemma handle_event_armed:
  "hoare armed (handle_event E ev u) (\<lambda>r w. case r of Inl _ \<Rightarrow> armed w | Inr _ \<Rightarrow> False)"
proof (rule hoareI)
  fix w r w' assume w: "armed w" and run: "run_state (handle_event E ev u) w = (r, w')"
  have c: "g_config w' = g_config w" using run_handle_event(2) [OF run] by (simp add: fixture_def)
  have "armed w'"
  proof (cases "ev = (True, True)")
    case True
    then show ?thesis
      using run_handle_event(4) [OF run] next_sleep_nonzero w c by (simp add: armed_def Let_def)
  next
    case False
    then show ?thesis using run_handle_event(3) [OF run] w by simp
  qed
  then show "case r of Inl _ \<Rightarrow> armed w' | Inr _ \<Rightarrow> False" using run_handle_event(1) [OF run] by simp
qed

lemma events_armed:
  "run_state (loop (handle_event E) evs ()) w = (r, w') \<Longrightarrow> armed w \<Longrightarrow> armed w'"
  using hoareD [OF hoare_loop [where I = "\<lambda>_. armed", OF handle_event_armed]]
  by (fastforce split: sum.splits)

lemma armed_simps [simp]:
  "armed (logged E l m w) \<longleftrightarrow> armed w" "armed (w\<lparr>g_running := b\<rparr>) \<longleftrightarrow> armed w"
  by (simp_all add: armed_def)

lemma sched_loop_armed: "run_state (sched_loop E ins) w = (r, w') \<Longrightarrow> armed w \<Longrightarrow> armed w'"
proof (induction ins arbitrary: w)
  case (Cons i ins)
  then show ?case
    by (cases i) (auto simp: SignalHandler_def split: if_splits prod.splits dest: events_armed)
qed simp

text \<open>The configuration file cannot set the intervals, and the defaults are not 0.\<close>

lemma apply_option_intervals: "intervals_ok (apply_option key value g) = intervals_ok g"
  by (simp add: apply_option_def intervals_ok_def)

lemma config_line_intervals: "intervals_ok (config_line l g) = intervals_ok g"
  by (simp add: config_line_def Let_def apply_option_intervals split: option.split)

lemma LoadConfig_intervals: "intervals_ok (snd (LoadConfig file default_config))"
proof -
  have "intervals_ok (fold config_line ls g) = intervals_ok g" for ls g
    by (induction ls arbitrary: g) (simp_all add: config_line_intervals)
  moreover have "intervals_ok default_config" by (simp add: intervals_ok_def default_config_def)
  ultimately show ?thesis by (simp add: LoadConfig_def split: option.split)
qed

text \<open>
  C21. The daemon never waits for a timer that is not armed: under any configuration that can be
  loaded, the timer is armed again after any sequence of inputs.
\<close>

theorem RunScheduler_armed:
  assumes "run_state (RunScheduler E True True True ins) w = (r, w')"
    and "g_config w = snd (LoadConfig file default_config)"
  shows "g_timer w' \<noteq> None"
proof -
  let ?w = "(logged E INFO ''Scheduler Event Loop started'' w)\<lparr>g_timer := Some 1\<rparr>"
  obtain b v where 1: "run_state (sched_loop E ins) ?w = (b, v)" by fastforce
  have "armed ?w" using LoadConfig_intervals assms(2) by (simp add: armed_def)
  with 1 have "armed v" by (rule sched_loop_armed)
  moreover have "g_timer w' = g_timer v"
    using assms(1) 1 by (cases b) (auto simp: RunScheduler_def SetTimer_def run_whenS)
  ultimately show ?thesis by (simp add: armed_def)
qed

theorem RunScheduler_armed_witness:
  "g_timer (snd (run_state (RunScheduler dark_env True True True [PollReady [(True, True)]]) sample_world)) \<noteq> None"
proof -
  have "g_config sample_world = snd (LoadConfig None default_config)"
    by (simp add: sample_world_def boot_world_def LoadConfig_def)
  then show ?thesis by (rule RunScheduler_armed [OF prod.collapse [symmetric]])
qed

subsection \<open>Stopping\<close>

text \<open>
  A signal stops the loop at its next turn: whatever becomes ready afterwards, nothing is
  evaluated, deleted or logged any more.
\<close>

lemma sched_loop_signal:
  "run_state (sched_loop E (Signal # ins)) w = (True, w\<lparr>g_running := False\<rparr>)"
proof (induction ins arbitrary: w)
  case (Cons i ins)
  then show ?case by (cases i) (simp_all add: SignalHandler_def)
qed (simp add: SignalHandler_def)

subsection \<open>Progress\<close>

text \<open>The world after \<open>n\<close> expiries of the timer.\<close>

definition after_expiries :: "env \<Rightarrow> nat \<Rightarrow> world \<Rightarrow> world" where
  "after_expiries E n w = snd (run_state (sched_loop E (replicate n (PollReady [(True, True)]))) w)"

definition expiry :: "env \<Rightarrow> world \<Rightarrow> world" where
  "expiry E w = snd (run_state (handle_event E (True, True) ()) w)"

lemma expiry_running: "g_running (expiry E w) = g_running w"
  using run_handle_event(2) [OF prod.collapse [symmetric], of E "(True, True)" "()" w]
  by (simp add: expiry_def fixture_def)

lemma after_expiries_Suc:
  assumes "g_running w"
  shows "after_expiries E (Suc n) w = expiry E (after_expiries E n w)"
proof -
  have iter: "after_expiries E n w = (expiry E ^^ n) w" if "g_running w" for n and w :: world
    using that
  proof (induction n arbitrary: w)
    case (Suc n)
    obtain v where v: "run_state (handle_event E (True, True) ()) w = (Inl (), v)"
      using run_handle_event(1) [of E "(True, True)" "()" w] by (metis surj_pair)
    then have e: "expiry E w = v" by (simp add: expiry_def)
    with expiry_running [of E w] Suc.prems have "g_running v" by simp
    from Suc.IH [OF this] e have "(expiry E ^^ Suc n) w = after_expiries E n v"
      by (simp add: funpow_swap1)
    moreover have "after_expiries E (Suc n) w = after_expiries E n v"
      using v Suc.prems by (simp add: after_expiries_def)
    ultimately show ?case by simp
  qed (simp add: after_expiries_def)
  show ?thesis using iter [OF assms, of n] iter [OF assms, of "Suc n"] by simp
qed

lemma expiry_evaluates:
  obtains u where "run_state (EvaluateAndTransition E) (w\<lparr>g_timer := None\<rparr>) = ((), u)"
    and "g_current_state (expiry E w) = g_current_state u" "trace (expiry E w) = trace u"
proof -
  obtain u where "run_state (EvaluateAndTransition E) (w\<lparr>g_timer := None\<rparr>) = ((), u)"
    by (cases "run_state (EvaluateAndTransition E) (w\<lparr>g_timer := None\<rparr>)") auto
  then show thesis
    by (intro that) (auto simp: expiry_def handle_event_def GetCurrentState_def SetTimer_def)
qed

lemma expiry_step: "engine_step (next_verdict E w) (g_current_state w) (g_current_state (expiry E w))"
proof -
  obtain u where u: "run_state (EvaluateAndTransition E) (w\<lparr>g_timer := None\<rparr>) = ((), u)"
    "g_current_state (expiry E w) = g_current_state u"
    by (rule expiry_evaluates)
  show ?thesis using evaluation_step [OF u(1)] u(2) by (simp add: next_verdict_def)
qed

subsection \<open>Doze\<close>

text \<open>Whether Doze is forced, by the last of the two commands in the trace.\<close>

fun forced :: "bool \<Rightarrow> effect list \<Rightarrow> bool" where
  "forced b [] = b"
| "forced b (Shell c # es) = forced (if c = force_idle_cmd then True else if c = unforce_cmd then False else b) es"
| "forced b (e # es) = forced b es"

lemma forced_append: "forced b (xs @ ys) = forced (forced b xs) ys"
  by (induction b xs rule: forced.induct) auto

lemma force_neq_unforce: "unforce_cmd \<noteq> force_idle_cmd"
  by (simp add: unforce_cmd_def force_idle_cmd_def)

lemma forced_quiet: "list_all pipe_effect es \<Longrightarrow> forced b es = b"
  by (induction b es rule: forced.induct) (auto simp: pipe_effect_def)

lemma trace_TransitionTo: "run_state (TransitionTo E s) w = (r, w') \<Longrightarrow> trace w' = trace w"
  by (auto simp: TransitionTo_def run_whenS split: if_splits)

lemma wake_run:
  assumes "run_state (EvaluateAndTransition E) w = (r, w')" "verdict_of E w = Is_NOT_IDLE"
  shows "g_current_state w' = ACTIVE \<and>
    forced b (trace w') = (g_current_state w = ACTIVE \<and> forced b (trace w))"
proof -
  obtain w1 where 1: "run_state (EvaluateIdleState E) w = (Is_NOT_IDLE, w1)"
    using assms(2) by (metis prod.collapse verdict_of_def)
  obtain es where es: "trace w1 = trace w @ es @ [IdleEval Is_NOT_IDLE]" "list_all pipe_effect es"
    using run_EvaluateIdleState_trace [OF 1] by blast
  have s1: "g_current_state w1 = g_current_state w"
    using settings_state_eq [OF settings_run [OF settings_intros(7) 1]] .
  have f1: "forced b (trace w1) = forced b (trace w)" for b
    using es by (simp add: forced_append forced_quiet)
  have "run_state (after_verdict E Is_NOT_IDLE (g_current_state w)) w1 = (r, w')"
    using assms(1) unfolding run_EvaluateAndTransition [OF 1] .
  then show ?thesis
    using s1 f1 force_neq_unforce
    by (auto simp: after_verdict_def run_whenS WakeFromDoze_def run_system_def forced_append
        split: if_splits dest: run_TransitionTo trace_TransitionTo)
qed

text \<open>
  C34. When the device is in use the engine goes to \<open>ACTIVE\<close>, and Doze is released if the engine
  was not \<open>ACTIVE\<close> before; otherwise Doze stays as it is.
\<close>

theorem wake_from_doze:
  assumes "run_state (EvaluateAndTransition E) w = (r, w')" "verdict_of E w = Is_NOT_IDLE"
  shows "g_current_state w' = ACTIVE \<and>
    forced b (trace w') = (g_current_state w = ACTIVE \<and> forced b (trace w))"
  using assms by (rule wake_run)

theorem wake_from_doze_witness:
  "g_current_state (snd (run_state (EvaluateAndTransition lit_env) patient_world)) = ACTIVE"
proof -
  have "verdict_of lit_env patient_world = Is_NOT_IDLE" by code_simp
  from wake_from_doze [OF prod.collapse [symmetric] this] show ?thesis by blast
qed

text \<open>The first expiry after a completed run that finds the device in use leaves Doze forced.\<close>

lemma doze_left_forced:
  assumes "run_state (PerformMaintenance E) w = (r, w1)" "g_current_state w = MAINTENANCE"
    and "g_current_state w1 = ACTIVE"
    and "run_state (EvaluateAndTransition E) w1 = (r', w2)" "verdict_of E w1 = Is_NOT_IDLE"
  shows "g_current_state w2 = ACTIVE \<and> forced b (trace w2)"
proof -
  obtain es where "trace w1 = es @ [Shell force_idle_cmd]"
    using run_PerformMaintenance [OF assms(1,2)] assms(3) by (auto simp: finished_def)
  then have "forced b (trace w1)" by (simp add: forced_append)
  then show ?thesis using wake_run [OF assms(4,5), of b] assms(3) by simp
qed

end
