(* ===== verification/Scope.thy ===== *)
theory Scope
  imports Engine_Correct
begin

section \<open>What the daemon may delete\<close>

text \<open>
  The containment of the removal, the policy of the scanner and the targets of the analysis, put
  together over a run of the event loop: the set of locations the daemon may delete is fixed by the
  tree, the configuration and the package list it starts with.
\<close>

subsection \<open>The scope\<close>

definition sweep_scope :: "node \<Rightarrow> string list set" where
  "sweep_scope t = {l. \<exists>p\<in>set paths_to_sweep. \<exists>r c. resolve t False p = Some r \<and>
     kind_at t (r @ [c]) = Some KDir \<and> \<not> contains c ''freshcore.log'' \<and> l \<in> at_below (r @ [c])}"

definition installed :: "env \<Rightarrow> PackageInfo set" where
  "installed E = {pkg. \<exists>n text. e_text E n ''/data/system/packages.list'' = Some text \<and>
     pkg \<in> set (packages_of text)}"

definition cleanable :: "env \<Rightarrow> Configuration \<Rightarrow> node \<Rightarrow> PackageInfo \<Rightarrow> string \<Rightarrow> bool" where
  "cleanable E g t pkg cand \<longleftrightarrow> pkg \<in> installed E \<and> package_included g pkg \<and>
     cand \<in> set (cache_candidates g pkg) \<and> listed_candidate t pkg cand"

definition cache_scope :: "env \<Rightarrow> Configuration \<Rightarrow> node \<Rightarrow> string list set" where
  "cache_scope E g t = {l. \<exists>pkg cand q. cleanable E g t pkg cand \<and> resolve t False cand = Some q \<and>
     l \<in> strictly_below q}"

definition scope :: "env \<Rightarrow> world \<Rightarrow> string list set" where
  "scope E w = sweep_scope (fs w) \<union> cache_scope E (g_config w) (fs w)"

text \<open>\<open>later w v\<close>: \<open>v\<close> comes after \<open>w\<close> in a run that stays in scope.\<close>

definition later :: "env \<Rightarrow> world \<Rightarrow> world \<Rightarrow> bool" where
  "later E w v \<longleftrightarrow> g_config v = g_config w \<and> changes (scope E w) w v"

lemma later_below: "later E w v \<Longrightarrow> tree_below (fs v) (fs w)"
  by (simp add: later_def changes_def)

lemma later_refl: "later E w w"
  by (simp add: later_def changes.R_refl)

lemma later_step: "later E w v \<Longrightarrow> g_config u = g_config v \<Longrightarrow> changes (scope E w) v u \<Longrightarrow> later E w u"
  by (auto simp: later_def intro: changes.R_trans)

lemma later_quiet: "keeps sans_sense m \<Longrightarrow> hoare (later E w) m (\<lambda>_. later E w)"
  by (rule hoareI) (auto intro: later_step changes_same_fs dest: keeps_fs keeps_config)

lemma later_stays:
  "keeps fixture m \<Longrightarrow> stays w (changes (scope E w)) m \<Longrightarrow> hoare (later E w) m (\<lambda>_. later E w)"
proof (rule hoareI)
  fix v r u assume k: "keeps fixture m" and m: "stays w (changes (scope E w)) m"
    and v: "later E w v" and run: "run_state m v = (r, u)"
  have "changes (scope E w) v u"
    using stays_run [OF stays_below [OF m later_below [OF v]] run] .
  moreover have "g_config u = g_config v" using pres_run [OF k run] by (simp add: fixture_def)
  ultimately show "later E w u" using v by (blast intro: later_step)
qed

subsection \<open>Sweeps\<close>

text \<open>A removal changes something only where its path names a directory.\<close>

lemma RemoveRecursiveBatched_dir:
  assumes wf: "wf_tree (fs w)"
    and S: "\<And>q. resolve (fs w) False p = Some q \<Longrightarrow> kind_at (fs w) q = Some KDir \<Longrightarrow> at_below q \<subseteq> S"
  shows "stays w (changes S) (RemoveRecursiveBatched E p)"
  unfolding stays_def
proof (intro allI impI)
  fix v :: world assume v: "tree_below (fs v) (fs w)"
  have wfv: "wf_tree (fs v)" using wf v by (rule wf_tree_below)
  obtain r u where run: "run_state (RemoveRecursiveBatched E p) v = (r, u)" by fastforce
  obtain ch v1 where 1: "run_state (GetDirectoryChildren E p) v = (ch, v1)" by fastforce
  have "changes S v u"
  proof (cases ch)
    case None
    then have "fs u = fs v"
      using run 1 keeps_fs [OF GetDirectoryChildren_keeps 1]
      by (auto simp: RemoveRecursiveBatched_def remove_body_def)
    then show ?thesis by (rule changes_same_fs)
  next
    case (Some names)
    from run_GetDirectoryChildren [OF 1 [unfolded Some] wfv]
    obtain q where q: "resolve (fs v) False p = Some q" "kind_at (fs v) q = Some KDir" by blast
    have "confined q v u"
      by (rule stays_run [OF RemoveRecursiveBatched_stays run]) (use wfv q in auto)
    moreover have "at_below q \<subseteq> S"
      by (rule S [OF resolve_mono [OF q(1) v] tree_belowD [OF v q(2)]])
    ultimately show ?thesis by (rule changes_mono)
  qed
  then show "changes S v (snd (run_state (RemoveRecursiveBatched E p) v))" using run by simp
qed

lemma sweep_path_stays:
  assumes wf: "wf_tree (fs w)" and p: "p \<in> set paths_to_sweep"
  shows "stays w (changes (sweep_scope (fs w))) (sweep_path E p u)"
  unfolding stays_def
proof (intro allI impI)
  fix v :: world assume v: "tree_below (fs v) (fs w)"
  have wfv: "wf_tree (fs v)" using wf v by (rule wf_tree_below)
  let ?S = "sweep_scope (fs w)"
  obtain i v1 where 1: "run_state (EvaluateIdleState E) v = (i, v1)" by fastforce
  obtain ch v2 where 2: "run_state (GetDirectoryChildren E p) v1 = (ch, v2)" by fastforce
  have f: "fs v1 = fs v" "fs v2 = fs v"
    using keeps_fs [OF EvaluateIdleState_keeps 1] keeps_fs [OF GetDirectoryChildren_keeps 2] by simp_all
  show "changes ?S v (snd (run_state (sweep_path E p u) v))"
  proof (cases "i \<noteq> Is_NOT_IDLE \<and> ch \<noteq> None")
    case False
    then have "fs (snd (run_state (sweep_path E p u) v)) = fs v"
      using 1 2 f by (auto simp: sweep_path_def)
    then show ?thesis by (rule changes_same_fs)
  next
    case True
    then obtain names where names: "ch = Some names" by blast
    from run_GetDirectoryChildren [OF 2 [unfolded names]] f wfv
    obtain r where r: "resolve (fs v) False p = Some r" "kind_at (fs v) r = Some KDir"
      and plain: "\<And>c. c \<in> set names \<Longrightarrow> plain_name c" by auto
    have child: "stays v2 (changes ?S) (RemoveRecursiveBatched E (p @ ''/'' @ c))" if c: "c \<in> set names" "\<not> contains c ''freshcore.log''" for c
    proof (rule RemoveRecursiveBatched_dir)
      show "wf_tree (fs v2)" using wfv f by simp
      fix q assume q: "resolve (fs v2) False (p @ ''/'' @ c) = Some q" "kind_at (fs v2) q = Some KDir"
      have "q = r @ [c]" using child_resolves_below [OF r plain [OF c(1)]] q(1) f by simp
      with q(2) f have "kind_at (fs w) (r @ [c]) = Some KDir" using tree_belowD [OF v] by simp
      then show "at_below q \<subseteq> ?S"
        using p c(2) resolve_mono [OF r(1) v] \<open>q = r @ [c]\<close> by (auto simp: sweep_scope_def)
    qed
    have "stays v2 (changes ?S) (do {
        (_ :: unit + unit) \<leftarrow> loop (\<lambda>child (_ :: unit).
            if contains child ''freshcore.log'' then ret (Inl ())
            else do { _ \<leftarrow> RemoveRecursiveBatched E (p @ ''/'' @ child); ret (Inl ()) }) names ();
        ret (Inl ()) } :: (unit + unit) io)"
      by (intro changes.s_rules child)
    then have "changes ?S v2 (snd (run_state (sweep_path E p u) v))"
      using 1 2 True names unfolding stays_def by (simp add: sweep_path_def split: prod.splits)
    then show ?thesis using f by (simp add: changes_def)
  qed
qed

lemma sweeps_stays:
  assumes "wf_tree (fs w)"
  shows "stays w (changes (sweep_scope (fs w))) (RunSystemMaintenanceSweeps E)"
  unfolding RunSystemMaintenanceSweeps_def NativeFstrim_def
  by (intro changes.s_rules sweep_path_stays assms changes.s_pres quiet_changes
      keeps_sense_changes [OF observe_keeps]) simp_all

subsection \<open>Scanning, analysis and cleaning\<close>

lemma listed_candidate_mono:
  "listed_candidate t' pkg cand \<Longrightarrow> tree_below t' t \<Longrightarrow> listed_candidate t pkg cand"
  unfolding listed_candidate_def cache_location_def by (blast intro: resolve_mono tree_belowD)

definition found :: "env \<Rightarrow> world \<Rightarrow> CacheDirInfo \<Rightarrow> bool" where
  "found E w d \<longleftrightarrow> (\<exists>pkg. cleanable E (g_config w) (fs w) pkg (cd_path d))"

lemma GetInstalledPackages_found:
  "hoare (later E w) (GetInstalledPackages E) (\<lambda>ps v. later E w v \<and> set ps \<subseteq> installed E)"
proof (rule hoare_conj)
  show "hoare (later E w) (GetInstalledPackages E) (\<lambda>ps v. set ps \<subseteq> installed E)"
    by (rule hoareI) (auto simp: GetInstalledPackages_def read_text_def installed_def split: option.splits)
qed (rule later_quiet, rule GetInstalledPackages_keeps)

lemma TransitionTo_later: "hoare (later E w) (TransitionTo E s) (\<lambda>_. later E w)"
proof (rule hoareI)
  fix v r u assume v: "later E w v" and run: "run_state (TransitionTo E s) v = (r, u)"
  have "fs u = fs v" using pres_run [OF TransitionTo_storage run] by (simp add: storage_def)
  moreover have "g_config u = g_config v" using run_TransitionTo [OF run] by simp
  ultimately show "later E w u" using v by (blast intro: later_step changes_same_fs)
qed

lemma scan_packages_step_found:
  assumes wf: "wf_tree (fs w)" and pkg: "pkg \<in> installed E" and ds: "list_all (found E w) ds"
  shows "hoare (later E w) (scan_packages_step E pkg ds)
    (\<lambda>r v. later E w v \<and> (case r of Inl ds' \<Rightarrow> list_all (found E w) ds' | Inr _ \<Rightarrow> True))"
proof (rule hoareI)
  fix v r u assume v: "later E w v" and run: "run_state (scan_packages_step E pkg ds) v = (r, u)"
  obtain on v1 where 1: "run_state (IsScreenOn E) v = (on, v1)" by fastforce
  have v1: "later E w v1" using hoareD [OF later_quiet [OF IsScreenOn_keeps] v 1] .
  show "later E w u \<and> (case r of Inl ds' \<Rightarrow> list_all (found E w) ds' | Inr _ \<Rightarrow> True)"
  proof (cases on)
    case True
    obtain v2 where 2: "run_state (TransitionTo E ABORTING) v1 = ((), v2)"
      by (cases "run_state (TransitionTo E ABORTING) v1") auto
    have "later E w v2" using hoareD [OF TransitionTo_later v1 2] .
    then show ?thesis using run 1 2 True by (auto simp: scan_packages_step_def)
  next
    case False
    obtain new v2 where 2: "run_state (ScanPackageCache E pkg) v1 = (new, v2)" by fastforce
    have "later E w v2" using hoareD [OF later_quiet [OF ScanPackageCache_keeps] v1 2] .
    moreover have "found E w d" if d: "d \<in> set new" for d
    proof -
      have t: "tree_below (fs v1) (fs w)" using v1 by (rule later_below)
      obtain cand where c: "cand \<in> set (cache_candidates (g_config v1) pkg)" "d = cache_info pkg cand"
        "listed_candidate (fs v1) pkg cand" "package_included (g_config v1) pkg"
        using ScanPackageCache_sound [OF wf_tree_below [OF wf t] 2 d] by blast
      have "g_config v1 = g_config w" using v1 by (simp add: later_def)
      with c have "cleanable E (g_config w) (fs w) pkg cand"
        using pkg listed_candidate_mono [OF c(3) t] by (simp add: cleanable_def)
      then show ?thesis using c(2) by (auto simp: found_def cache_info_def)
    qed
    ultimately show ?thesis
      using run 1 2 False ds by (auto simp: scan_packages_step_def list_all_iff)
  qed
qed

lemma AnalyzeCaches_found:
  assumes "sort_spec (e_sort E)" "list_all (found E w) ds"
  shows "hoare (later E w) (AnalyzeCaches E ds)
    (\<lambda>ts v. later E w v \<and> list_all (\<lambda>t. found E w (mt_cache_dir t)) ts)"
proof (rule hoareI)
  fix v ts u assume v: "later E w v" and run: "run_state (AnalyzeCaches E ds) v = (ts, u)"
  have f: "sans_state u = sans_state v" using AnalyzeCaches_keeps run by (rule pres_run)
  have "later E w u"
    using later_step [OF v sans_state_fields(1) [OF f] changes_same_fs [OF sans_state_fields(3) [OF f]]] .
  moreover have "found E w (mt_cache_dir t)" if "t \<in> set ts" for t
    using AnalyzeCaches_targets_ok [OF run assms(1) that] assms(2)
    by (auto simp: target_ok_def found_def list_all_iff)
  ultimately show "later E w u \<and> list_all (\<lambda>t. found E w (mt_cache_dir t)) ts"
    by (simp add: list_all_iff)
qed

lemma CleanDirectorySafely_later:
  assumes wf: "wf_tree (fs w)" and d: "found E w d"
  shows "hoare (later E w) (CleanDirectorySafely E d) (\<lambda>_. later E w)"
proof (rule later_stays)
  show "keeps fixture (CleanDirectorySafely E d)" by (intro fixture_settings settings_intros)
  show "stays w (changes (scope E w)) (CleanDirectorySafely E d)"
  proof (rule CleanDirectorySafely_stays [OF wf])
    fix q assume "resolve (fs w) False (cd_path d) = Some q"
    then show "strictly_below q \<subseteq> scope E w"
      using d by (auto simp: found_def scope_def cache_scope_def)
  qed
qed

lemma clean_targets_step_later:
  assumes "wf_tree (fs w)" "found E w (mt_cache_dir t)"
  shows "hoare (later E w) (clean_targets_step E t u) (\<lambda>_. later E w)"
  unfolding clean_targets_step_def
  by (intro hoare_bind [OF later_quiet [OF EvaluateIdleState_keeps]] hoare_if
      hoare_bind [OF TransitionTo_later] hoare_bind [OF CleanDirectorySafely_later [OF assms]]
      hoare_bind [OF later_quiet [OF Log_keeps_sense]] hoare_return)

text \<open>A maintenance run and an evaluation stay in scope.\<close>

lemma PerformMaintenance_later:
  assumes wf: "wf_tree (fs w)" and sort: "sort_spec (e_sort E)"
  shows "hoare (later E w) (PerformMaintenance E) (\<lambda>_. later E w)"
proof (rule hoare_maintenance [where A = "installed E" and D = "found E w" and T = "\<lambda>t. found E w (mt_cache_dir t)"])
  show "hoare (later E w) (RunSystemMaintenanceSweeps E) (\<lambda>_. later E w)"
    by (rule later_stays [OF fixture_settings [OF settings_intros(1)] stays_mono [OF sweeps_stays [OF wf]]])
      (erule changes_mono, simp add: scope_def)
  show "hoare (later E w) (scan_packages_step E p ds)
      (\<lambda>r v. case r of Inl ds' \<Rightarrow> later E w v \<and> list_all (found E w) ds' | Inr _ \<Rightarrow> later E w v)"
    if "p \<in> installed E" "list_all (found E w) ds" for p ds
    by (rule hoare_conseq [OF scan_packages_step_found [OF wf that]]) (auto split: sum.splits)
  show "hoare (later E w) (clean_targets_step E t u) (\<lambda>r v. case r of Inl _ \<Rightarrow> later E w v | Inr _ \<Rightarrow> later E w v)"
    if "found E w (mt_cache_dir t)" for t u
    by (rule hoare_conseq [OF clean_targets_step_later [OF wf that]]) (auto split: sum.splits)
  show "hoare (later E w) (do { OptimizeDoze E; TransitionTo E ACTIVE }) (\<lambda>_. later E w)"
    by (rule hoare_bind [OF later_quiet [OF OptimizeDoze_keeps]]) (rule TransitionTo_later)
qed (rule later_quiet [OF IsScreenOn_keeps] TransitionTo_later GetInstalledPackages_found
  AnalyzeCaches_found [OF sort] | assumption)+

subsection \<open>The event loop\<close>

definition in_scope :: "env \<Rightarrow> world \<Rightarrow> world \<Rightarrow> bool" where
  "in_scope E s t \<longleftrightarrow> (\<forall>w. wf_tree (fs w) \<longrightarrow> sort_spec (e_sort E) \<longrightarrow> later E w s \<longrightarrow> later E w t)"

lemma in_scope_hoare:
  "(\<And>w. wf_tree (fs w) \<Longrightarrow> sort_spec (e_sort E) \<Longrightarrow> hoare (later E w) m (\<lambda>_. later E w)) \<Longrightarrow>
     pres (in_scope E) m"
  by (rule presI) (auto simp: in_scope_def dest: hoareD)

lemma after_verdict_scope:
  assumes "wf_tree (fs w)" "sort_spec (e_sort E)"
  shows "hoare (later E w) (after_verdict E v s) (\<lambda>_. later E w)"
  unfolding after_verdict_def whenS_def
  by (cases s; simp only: EngineState.case;
      intro hoare_if TransitionTo_later hoare_bind [OF TransitionTo_later] hoare_return
        hoare_bind [OF later_quiet [OF WakeFromDoze_keeps]] PerformMaintenance_later [OF assms])

lemma same_scope: "(\<And>w. fs (f w) = fs w \<and> g_config (f w) = g_config w) \<Longrightarrow> pres (in_scope E) (modS f)"
  by (simp add: pres_def in_scope_def later_def changes_def)

interpretation in_scope: event_order "in_scope E" E for E
proof
  show "in_scope E s s" for s by (simp add: in_scope_def)
  show "in_scope E s u" if "in_scope E s t" "in_scope E t u" for s t u
    using that by (auto simp: in_scope_def)
  show "pres (in_scope E) (EvaluateAndTransition E)"
    unfolding EvaluateAndTransition_eq
  proof (rule in_scope_hoare)
    fix w :: world assume w: "wf_tree (fs w)" "sort_spec (e_sort E)"
    have "hoare (later E w) GetCurrentState (\<lambda>_. later E w)"
      by (simp add: hoare_def GetCurrentState_def)
    then show "hoare (later E w) (do { s \<leftarrow> GetCurrentState; v \<leftarrow> EvaluateIdleState E; after_verdict E v s })
        (\<lambda>_. later E w)"
      by (rule hoare_bind) (rule hoare_bind [OF later_quiet [OF EvaluateIdleState_keeps] after_verdict_scope [OF w]])
  qed
  show "pres (in_scope E) (Log E l m)" for l m
    by (rule in_scope_hoare) (rule later_quiet [OF Log_keeps_sense])
qed (rule same_scope, simp)+

lemma run_in_scope:
  assumes "wf_tree (fs w)" "sort_spec (e_sort E)"
    and "run_state (RunScheduler E epoll_ok timer_ok ctl_ok ins) w = (r, w')"
  shows "changes (scope E w) w w'"
  using pres_run [OF in_scope.scheduler assms(3)] assms(1,2) later_refl by (auto simp: in_scope_def later_def)

subsection \<open>What the daemon never deletes\<close>

lemma walk_last:
  "walk t f n cur ds = Some l \<Longrightarrow> \<not> f \<Longrightarrow> ds = cs @ [c] \<Longrightarrow> plain_name c \<Longrightarrow> \<exists>m. l = m @ [c]"
proof (induction t f n cur ds arbitrary: cs rule: walk.induct)
  case (2 t f n cur d ds)
  show ?case
  proof (cases cs)
    case Nil
    then have "ds = []" "d = c" using "2.prems"(3) by simp_all
    then show ?thesis
      using "2.prems"(1,2,4) by (auto simp: plain_name_def split: option.splits kind.splits)
  next
    case (Cons e cs')
    then have ds: "ds = cs' @ [c]" using "2.prems"(3) by simp
    have link: "split_path tgt @ ds = (split_path tgt @ cs') @ [c]" for tgt using ds by simp
    show ?thesis
      using "2.prems"(1,2,4) "2.IH" ds link
      by (auto split: option.splits kind.splits nat.splits if_splits)
  qed
qed simp

lemma resolve_last:
  assumes "resolve t False (p @ CHR ''/'' # c) = Some l" "plain_name c"
  shows "l \<noteq> [] \<and> last l = c"
proof -
  have "split_path c = [c]" using assms(2) by (intro split_path_name) (simp add: plain_name_def)
  then have "split_path (p @ CHR ''/'' # c) = split_path p @ [c]" by (simp add: split_path_append)
  then show ?thesis
    using assms walk_last [of t False max_links "[]" "split_path (p @ CHR ''/'' # c)" l "split_path p" c]
    by (auto simp: resolve_def split: if_splits)
qed

lemma candidate_last:
  assumes "cand \<in> set (cache_candidates g pkg)" "resolve t False cand = Some q"
  shows "q \<noteq> [] \<and> last q \<in> {''cache'', ''code_cache''}"
proof -
  have "\<exists>p c. cand = p @ CHR ''/'' # c \<and> c \<in> {''cache'', ''code_cache''}"
  proof -
    consider "cand = pi_data_dir pkg @ CHR ''/'' # ''cache''" | "cand = pi_data_dir pkg @ CHR ''/'' # ''code_cache''"
      | "cand = (external_root @ pi_name pkg) @ CHR ''/'' # ''cache''"
      using assms(1) by (auto simp: cache_candidates_def split: if_splits)
    then show ?thesis by cases blast+
  qed
  then obtain p c where c: "cand = p @ CHR ''/'' # c" "c \<in> {''cache'', ''code_cache''}" by blast
  then have "plain_name c" by (auto simp: plain_name_def)
  then show ?thesis using resolve_last [of t p c q] assms(2) c by auto
qed

lemma cache_scope_component: "l \<in> cache_scope E g t \<Longrightarrow> set l \<inter> {''cache'', ''code_cache''} \<noteq> {}"
proof -
  assume "l \<in> cache_scope E g t"
  then obtain pkg cand q where q: "cand \<in> set (cache_candidates g pkg)" "resolve t False cand = Some q"
    "strict_prefix q l"
    by (auto simp: cache_scope_def cleanable_def strictly_below_def)
  have l: "q \<noteq> []" "last q \<in> {''cache'', ''code_cache''}" using candidate_last [OF q(1,2)] by simp_all
  have "set q \<subseteq> set l" using q(3) by (intro set_mono_prefix) (simp add: strict_prefix_def)
  with l show ?thesis using last_in_set [of q] by blast
qed

end
