(* ===== verification/Boot_Correct.thy ===== *)
theory Boot_Correct
  imports Tweaks Samples
begin

section \<open>The boot tweaks\<close>

text \<open>What \<open>ApplyBootTweaks\<close> writes to the kernel's nodes, in which order, and that it does nothing else.\<close>

definition read_ahead_node :: "string \<Rightarrow> string" where
  "read_ahead_node entry = ''/sys/block/'' @ entry @ ''/queue/read_ahead_kb''"

definition read_ahead_writes :: "(string \<times> bool) list \<Rightarrow> effect list" where
  "read_ahead_writes ws = map (\<lambda>(entry, ok). WriteNode (read_ahead_node entry) ''2048'' ok) ws"

text \<open>The successes and failures of a list of writes.\<close>

definition tally :: "bool list \<Rightarrow> nat \<times> nat" where
  "tally oks = (length (filter id oks), length (filter Not oks))"

lemma tally_simps [simp]:
  "tally [] = (0, 0)"
  "tally (ok # oks) = (if ok then (fst (tally oks) + 1, snd (tally oks)) else (fst (tally oks), snd (tally oks) + 1))"
  by (simp_all add: tally_def)

lemma run_tweak:
  "run_state (tweak E path val c) w =
     (if e_write E (tick w) path then (fst c + 1, snd c) else (fst c, snd c + 1),
      w\<lparr>tick := Suc (tick w), trace := trace w @ [WriteNode path val (e_write E (tick w) path)]\<rparr>)"
  by (simp add: tweak_def WriteToFile_def)

text \<open>
  What becomes of each entry of the listing, from tick \<open>t\<close> on: it is looked up as a directory, its
  node is looked up, and only then is the node written.
\<close>

fun read_ahead_results :: "env \<Rightarrow> nat \<Rightarrow> string list \<Rightarrow> (string \<times> bool) list" where
  "read_ahead_results E t [] = []"
| "read_ahead_results E t (entry # entries) =
     (if e_dir E t (''/sys/block/'' @ entry) = None then read_ahead_results E (t + 1) entries
      else if e_text E (t + 1) (read_ahead_node entry) = None then read_ahead_results E (t + 2) entries
      else (entry, e_write E (t + 2) (read_ahead_node entry)) # read_ahead_results E (t + 3) entries)"

definition block_results :: "env \<Rightarrow> nat \<Rightarrow> (string \<times> bool) list" where
  "block_results E t =
     (if e_dir E t ''/sys/block'' = None then []
      else (case e_dir E (t + 1) ''/sys/block'' of None \<Rightarrow> []
        | Some entries \<Rightarrow> read_ahead_results E (t + 2) entries))"

lemma run_read_ahead_step:
  "\<exists>k ok. run_state (read_ahead_step E entry c) w =
     (Inl (fst c + fst (tally (map snd ok)), snd c + snd (tally (map snd ok))), k) \<and>
     trace k = trace w @ read_ahead_writes ok \<and>
     read_ahead_results E (tick w) (entry # entries) = ok @ read_ahead_results E (tick k) entries"
proof (cases "e_dir E (tick w) (''/sys/block/'' @ entry) \<noteq> None \<and>
    e_text E (Suc (tick w)) (read_ahead_node entry) \<noteq> None")
  case True
  let ?ok = "e_write E (Suc (Suc (tick w))) (read_ahead_node entry)"
  show ?thesis
    using True
    by (simp add: read_ahead_step_def WriteToFile_def Let_def read_ahead_node_def,
        intro conjI impI exI [of _ "[(entry, ?ok)]"])
      (auto simp: read_ahead_writes_def read_ahead_node_def numeral_3_eq_3)
next
  case False
  then show ?thesis
    by (auto simp: read_ahead_step_def Let_def read_ahead_writes_def read_ahead_node_def
        intro!: exI [of _ "[]"])
qed

lemma run_read_ahead:
  "\<exists>w'. run_state (loop (read_ahead_step E) entries c) w =
       (Inl (fst c + fst (tally (map snd (read_ahead_results E (tick w) entries))),
             snd c + snd (tally (map snd (read_ahead_results E (tick w) entries)))), w') \<and>
     trace w' = trace w @ read_ahead_writes (read_ahead_results E (tick w) entries)"
proof (induction entries arbitrary: c w)
  case Nil
  show ?case by (simp add: read_ahead_writes_def)
next
  case (Cons e es)
  obtain v us where 1: "run_state (read_ahead_step E e c) w =
      (Inl (fst c + fst (tally (map snd us)), snd c + snd (tally (map snd us))), v)"
    "trace v = trace w @ read_ahead_writes us"
    "read_ahead_results E (tick w) (e # es) = us @ read_ahead_results E (tick v) es"
    using run_read_ahead_step [of E e c w es] by (elim exE conjE) (rule that)
  let ?c = "(fst c + fst (tally (map snd us)), snd c + snd (tally (map snd us)))"
  let ?ws = "read_ahead_results E (tick v) es"
  obtain w' where 2: "run_state (loop (read_ahead_step E) es ?c) v =
      (Inl (fst ?c + fst (tally (map snd ?ws)), snd ?c + snd (tally (map snd ?ws))), w')"
    "trace w' = trace v @ read_ahead_writes ?ws"
    using Cons.IH [of ?c v] by (elim exE conjE) (rule that)
  have "fst (tally (xs @ ys)) = fst (tally xs) + fst (tally ys)"
    "snd (tally (xs @ ys)) = snd (tally xs) + snd (tally ys)" for xs ys
    by (simp_all add: tally_def)
  moreover have "read_ahead_writes (us @ ?ws) = read_ahead_writes us @ read_ahead_writes ?ws"
    by (simp add: read_ahead_writes_def)
  ultimately show ?case
    unfolding 1(3) using 1(1,2) 2 by (intro exI [of _ w']) simp
qed

definition boot_report :: "nat \<times> nat \<Rightarrow> string" where
  "boot_report c = ''Boot-Time Tweaks Finished: '' @ fmt_u (fst c) @ '' Applied Successfully, '' @
     fmt_u (snd c) @ '' Failed (Locked/Missing)''"

text \<open>The part after the three settings, and the part after the loop.\<close>

definition boot_end :: "env \<Rightarrow> nat \<times> nat \<Rightarrow> (nat \<times> nat) + unit \<Rightarrow> unit io" where
  "boot_end E c r = do {
     run_system dexopt_cmd;
     LOGI E (boot_report (case r of Inl c' \<Rightarrow> c' | Inr _ \<Rightarrow> c))
   }"

definition boot_rest :: "env \<Rightarrow> nat \<times> nat \<Rightarrow> unit io" where
  "boot_rest E c = do {
     present \<leftarrow> observe (\<lambda>t. e_dir E t ''/sys/block'' \<noteq> None);
     blocks \<leftarrow> (if present then observe (\<lambda>t. e_dir E t ''/sys/block'') else ret None);
     r \<leftarrow> (case blocks of None \<Rightarrow> ret (Inl c) | Some entries \<Rightarrow> loop (read_ahead_step E) entries c);
     boot_end E c r
   }"

lemma ApplyBootTweaks_eq:
  "ApplyBootTweaks E = do {
     LOGI E ''Applying Boot-Time System Tweaks...'';
     c \<leftarrow> tweak E ''/proc/sys/net/ipv4/tcp_window_scaling'' ''1'' (0, 0);
     c \<leftarrow> tweak E ''/proc/sys/net/ipv4/tcp_rmem'' ''4096 87380 16777216'' c;
     c \<leftarrow> tweak E ''/proc/sys/net/ipv4/tcp_wmem'' ''4096 16384 16777216'' c;
     boot_rest E c
   }"
  unfolding ApplyBootTweaks_def boot_rest_def boot_end_def boot_report_def Let_def ..

lemma run_boot_rest:
  assumes "run_state (boot_rest E c) w = (u, w')"
  shows "\<exists>v. trace v = trace w @ read_ahead_writes (block_results E (tick w)) @ [Shell dexopt_cmd] \<and>
    w' = logged E INFO (boot_report (fst c + fst (tally (map snd (block_results E (tick w)))),
      snd c + snd (tally (map snd (block_results E (tick w)))))) v"
proof -
  have finish: "run_state (boot_end E c (Inl c')) v = ((), logged E INFO (boot_report c') (v\<lparr>trace := trace v @ [Shell dexopt_cmd]\<rparr>))"
    for c' v by (simp add: boot_end_def run_system_def)
  show ?thesis
  proof (cases "e_dir E (tick w) ''/sys/block'' = None \<or> e_dir E (Suc (tick w)) ''/sys/block'' = None")
    case True
    then have none: "block_results E (tick w) = []" by (auto simp: block_results_def)
    from True obtain t where "run_state (boot_rest E c) w = run_state (boot_end E c (Inl c)) (w\<lparr>tick := t\<rparr>)"
      by (cases "e_dir E (tick w) ''/sys/block''") (auto simp: boot_rest_def)
    then have "w' = logged E INFO (boot_report c) (w\<lparr>tick := t, trace := trace w @ [Shell dexopt_cmd]\<rparr>)"
      using assms finish [of c "w\<lparr>tick := t\<rparr>"] by simp
    then show ?thesis
      unfolding none by (intro exI [of _ "w\<lparr>tick := t, trace := trace w @ [Shell dexopt_cmd]\<rparr>"])
        (simp add: read_ahead_writes_def)
  next
    case False
    then obtain es where es: "e_dir E (Suc (tick w)) ''/sys/block'' = Some es" by auto
    let ?w = "w\<lparr>tick := Suc (Suc (tick w))\<rparr>"
    let ?ws = "read_ahead_results E (tick ?w) es"
    have ws: "block_results E (tick w) = ?ws" using False es by (auto simp: block_results_def)
    obtain v where 1: "run_state (loop (read_ahead_step E) es c) ?w =
        (Inl (fst c + fst (tally (map snd ?ws)), snd c + snd (tally (map snd ?ws))), v)"
      "trace v = trace ?w @ read_ahead_writes ?ws"
      using run_read_ahead [of E es c ?w] by (elim exE conjE) (rule that)
    let ?c = "(fst c + fst (tally (map snd ?ws)), snd c + snd (tally (map snd ?ws)))"
    have "run_state (boot_rest E c) w = run_state (boot_end E c (Inl ?c)) v"
      using False es 1(1) by (simp add: boot_rest_def)
    then have "w' = logged E INFO (boot_report ?c) (v\<lparr>trace := trace v @ [Shell dexopt_cmd]\<rparr>)"
      using assms finish [of ?c v] by simp
    then show ?thesis
      unfolding ws using 1(2) by (intro exI [of _ "v\<lparr>trace := trace v @ [Shell dexopt_cmd]\<rparr>"]) simp
  qed
qed

text \<open>The results of all writes of the boot tweaks, in their order.\<close>

definition setting_results :: "env \<Rightarrow> nat \<Rightarrow> bool list" where
  "setting_results E t = [e_write E t ''/proc/sys/net/ipv4/tcp_window_scaling'',
     e_write E (t + 1) ''/proc/sys/net/ipv4/tcp_rmem'', e_write E (t + 2) ''/proc/sys/net/ipv4/tcp_wmem'']"

definition boot_writes :: "env \<Rightarrow> nat \<Rightarrow> effect list" where
  "boot_writes E t = map2 (\<lambda>(path, val) ok. WriteNode path val ok)
     [(''/proc/sys/net/ipv4/tcp_window_scaling'', ''1''),
      (''/proc/sys/net/ipv4/tcp_rmem'', ''4096 87380 16777216''),
      (''/proc/sys/net/ipv4/tcp_wmem'', ''4096 16384 16777216'')] (setting_results E t) @
     read_ahead_writes (block_results E (t + 3))"

lemma run_ApplyBootTweaks:
  assumes "run_state (ApplyBootTweaks E) w = (u, w')"
  shows "trace w' = trace w @ boot_writes E (tick w) @ [Shell dexopt_cmd] \<and>
    (\<exists>v. w' = logged E INFO (boot_report
      (tally (setting_results E (tick w) @ map snd (block_results E (tick w + 3))))) v) \<and>
    sans_sense w' = sans_sense w"
proof -
  let ?c = "tally (setting_results E (tick w))"
  define v0 where "v0 = logged E INFO ''Applying Boot-Time System Tweaks...'' w"
  let ?v1 = "v0\<lparr>tick := tick w + 3, trace := trace w @
    [WriteNode ''/proc/sys/net/ipv4/tcp_window_scaling'' ''1'' (e_write E (tick w) ''/proc/sys/net/ipv4/tcp_window_scaling''),
     WriteNode ''/proc/sys/net/ipv4/tcp_rmem'' ''4096 87380 16777216'' (e_write E (tick w + 1) ''/proc/sys/net/ipv4/tcp_rmem''),
     WriteNode ''/proc/sys/net/ipv4/tcp_wmem'' ''4096 16384 16777216'' (e_write E (tick w + 2) ''/proc/sys/net/ipv4/tcp_wmem'')]\<rparr>"
  have v0: "tick v0 = tick w" "trace v0 = trace w" by (simp_all add: v0_def)
  have "run_state (ApplyBootTweaks E) w = run_state (boot_rest E ?c) ?v1"
    unfolding ApplyBootTweaks_eq
    by (simp add: v0_def [symmetric] v0 run_tweak setting_results_def numeral_3_eq_3)
  with assms have "run_state (boot_rest E ?c) ?v1 = (u, w')" by simp
  from run_boot_rest [OF this] obtain v where r:
    "trace v = trace ?v1 @ read_ahead_writes (block_results E (tick w + 3)) @ [Shell dexopt_cmd]"
    "w' = logged E INFO (boot_report (fst ?c + fst (tally (map snd (block_results E (tick w + 3)))),
       snd ?c + snd (tally (map snd (block_results E (tick w + 3)))))) v"
    by auto
  have "(fst ?c + fst (tally xs), snd ?c + snd (tally xs)) = tally (setting_results E (tick w) @ xs)" for xs
    by (simp add: setting_results_def)
  with r(2) have report: "w' = logged E INFO (boot_report
      (tally (setting_results E (tick w) @ map snd (block_results E (tick w + 3))))) v" by simp
  have "trace w' = trace w @ boot_writes E (tick w) @ [Shell dexopt_cmd]"
    using r(1) by (simp add: report boot_writes_def setting_results_def)
  then show ?thesis using report pres_run [OF ApplyBootTweaks_keeps assms] by blast
qed

text \<open>
  C33. The boot tweaks write the three TCP settings and then, in the order of the listing, the read-ahead of every
  block device \<open>/sys/block\<close> lists that is a directory and has the node; they start the compiler job,
  and do nothing else; the last line of the log reports how many of exactly these writes succeeded
  and how many failed.
\<close>

theorem ApplyBootTweaks_exact:
  assumes "run_state (ApplyBootTweaks E) w = (u, w')"
  shows "trace w' = trace w @ boot_writes E (tick w) @ [Shell dexopt_cmd] \<and>
    (\<exists>v. w' = logged E INFO (boot_report
      (tally (setting_results E (tick w) @ map snd (block_results E (tick w + 3))))) v) \<and>
    sans_sense w' = sans_sense w"
  using assms by (rule run_ApplyBootTweaks)

text \<open>A device with three entries under \<open>/sys/block\<close>, the first without a read-ahead node.\<close>

definition block_env :: env where
  "block_env = dark_env\<lparr>
     e_dir := (\<lambda>t p. if p = ''/sys/block'' then Some [''loop0'', ''sda'', ''sdb'']
       else if p \<in> {''/sys/block/loop0'', ''/sys/block/sda'', ''/sys/block/sdb''} then Some [] else None),
     e_text := (\<lambda>t p. if p \<in> {''/sys/block/sda/queue/read_ahead_kb'', ''/sys/block/sdb/queue/read_ahead_kb''}
       then Some ''128'' else None),
     e_write := (\<lambda>t p. p \<noteq> ''/sys/block/sdb/queue/read_ahead_kb'')\<rparr>"

theorem ApplyBootTweaks_exact_witness:
  "trace (snd (run_state (ApplyBootTweaks block_env) sample_world)) =
     [WriteNode ''/proc/sys/net/ipv4/tcp_window_scaling'' ''1'' True,
      WriteNode ''/proc/sys/net/ipv4/tcp_rmem'' ''4096 87380 16777216'' True,
      WriteNode ''/proc/sys/net/ipv4/tcp_wmem'' ''4096 16384 16777216'' True,
      WriteNode ''/sys/block/sda/queue/read_ahead_kb'' ''2048'' True,
      WriteNode ''/sys/block/sdb/queue/read_ahead_kb'' ''2048'' False, Shell dexopt_cmd]"
proof -
  have "boot_writes block_env (tick sample_world) =
     [WriteNode ''/proc/sys/net/ipv4/tcp_window_scaling'' ''1'' True,
      WriteNode ''/proc/sys/net/ipv4/tcp_rmem'' ''4096 87380 16777216'' True,
      WriteNode ''/proc/sys/net/ipv4/tcp_wmem'' ''4096 16384 16777216'' True,
      WriteNode ''/sys/block/sda/queue/read_ahead_kb'' ''2048'' True,
      WriteNode ''/sys/block/sdb/queue/read_ahead_kb'' ''2048'' False]" by code_simp
  moreover have "trace sample_world = []" by (simp add: sample_world_def boot_world_def)
  ultimately show ?thesis
    using ApplyBootTweaks_exact [OF prod.collapse [symmetric], of block_env sample_world] by simp
qed

end
