(* ===== verification/Primitives.thy ===== *)
theory Primitives
  imports Daemon
begin

section \<open>Preorders on single assignments\<close>

text \<open>
  The most detailed of the interfaces to a run: a preorder that every single assignment of the daemon
  moves along, to whichever variable. Every operation of a maintenance run, an evaluation and the event
  loop then do as well.
\<close>

locale assignment_order = step_order R for R :: "world \<Rightarrow> world \<Rightarrow> bool" +
  fixes E :: env
  assumes clock: "R w (w\<lparr>tick := Suc (tick w)\<rparr>)"
    and effect: "R w (w\<lparr>trace := trace w @ [e]\<rparr>)"
    and line: "R w (logged E l m w)"
    and backlight: "p \<in> set screen_nodes \<Longrightarrow> R w (w\<lparr>g_backlight_path := p\<rparr>)"
    and supported: "R w (w\<lparr>g_screen_supported := False\<rparr>)"
    and capacity: "R w (w\<lparr>g_battery_capacity_path := p1\<rparr>)"
    and status: "R w (w\<lparr>g_battery_status_path := p2\<rparr>)"
    and zones: "R w (w\<lparr>g_thermal_zones := zs\<rparr>)"
    and off_time: "R w (w\<lparr>g_screen_off_time := t\<rparr>)"
    and batch_start: "R w (w\<lparr>g_batch_start_time_ms := t\<rparr>)"
    and files: "R w (w\<lparr>g_total_files_processed_run := n\<rparr>)"
    and bytes: "R w (w\<lparr>g_total_bytes_freed_run := k\<rparr>)"
    and states: "R w (w\<lparr>g_states := st\<rparr>)"
    and tree: "R w (w\<lparr>fs := nd\<rparr>)"
    and written: "R w (w\<lparr>disk := (disk w)(STATE_FILE_TMP \<mapsto> bs)\<rparr>)"
    and renamed: "R w (w\<lparr>disk := (disk w)(STATE_FILE := x, STATE_FILE_TMP := None)\<rparr>)"
    and engine: "R w (w\<lparr>g_current_state := s\<rparr>)"
    and timer: "R w (w\<lparr>g_timer := tm\<rparr>)"
    and running: "R w (w\<lparr>g_running := r\<rparr>)"
begin

lemma basic:
  "pres R (observe f)" "pres R (emit e)" "pres R (Log E l m)"
  by (auto simp: pres_def intro: clock effect line)

lemma calls: "pres R (read_text E p)" "pres R (run_pipe E c)" "pres R (run_system c)" "pres R (faulty E p)"
  unfolding read_text_def run_pipe_def run_system_def faulty_def by (intro p_rules basic)+

subsection \<open>Sensors\<close>

lemma detection: "pres R (DetectScreenNode E)" "pres R (DetectBatteryNodes E)" "pres R (DetectThermalZones E)"
proof -
  show "pres R (DetectScreenNode E)"
    unfolding DetectScreenNode_def by (intro p_rules calls basic p_mod backlight supported)
  show "pres R (DetectBatteryNodes E)"
    unfolding DetectBatteryNodes_def by (intro p_rules calls basic p_mod capacity status)
  show "pres R (DetectThermalZones E)"
    unfolding DetectThermalZones_def Let_def by (intro p_rules calls basic p_mod zones)
qed

lemma screen_read: "pres R (IsScreenOn E)"
  unfolding IsScreenOn_def by (intro p_rules calls detection)

lemma gate: "pres R (gates E)"
  unfolding gates_def IsBatterySafe_def IsThermalSafe_def IsMemoryPressureSafe_def GetMemoryPSI_def
    IsHeavyForegroundActivity_def
  by (intro p_rules calls basic detection screen_read)

lemma evaluation: "pres R (EvaluateIdleState E)"
  unfolding EvaluateIdleState_def idle_verdict_def GetMonotonicTimeSec_def
  by (intro p_rules basic gate screen_read p_mod off_time)

subsection \<open>Files\<close>

lemma listing: "pres R (GetDirectoryChildren E p)" "pres R (sys_lstat E p)" "pres R (GetCanonicalPath E p)"
  unfolding GetDirectoryChildren_def sys_readdir_def sys_lstat_def GetCanonicalPath_def sys_realpath_def
  by (intro p_rules calls)+

lemma remove_one: "pres R (SafeRemove E p)"
  unfolding SafeRemove_def sys_unlink_def sys_rmdir_def sys_remove_def
  by (intro p_rules calls basic listing p_mod tree)

lemma batches: "pres R (StartBatch E)" "pres R (EndBatch E n b)"
  unfolding StartBatch_def EndBatch_def GetMonotonicTimeMs_def CheckSelfLimits_def GetCurrentUsage_def Let_def
  by (intro p_rules calls basic p_mod batch_start files bytes)+

lemma remove_rec: "pres R (remove_rec E n p)"
proof (induction n arbitrary: p)
  case 0
  show ?case by (simp add: p_return)
next
  case (Suc n)
  then show ?case
    unfolding remove_rec.simps remove_body_def remove_step_def remove_entry_def batch_check_def
    by (intro p_rules evaluation listing remove_one batches basic)
qed

lemma removal: "pres R (RemoveRecursiveBatched E p)"
  unfolding RemoveRecursiveBatched_def by (intro p_rules remove_rec)

lemma dir_sizes: "pres R (dir_size E n p)"
proof (induction n arbitrary: p)
  case 0
  show ?case by (simp add: p_return)
next
  case (Suc n)
  then show ?case
    unfolding dir_size.simps size_step_def Let_def by (intro p_rules listing)
qed

lemma scanning: "pres R (ScanPackageCache E pkg)" "pres R (CalculateCacheSize E i)"
  unfolding ScanPackageCache_def scan_step_def IsValidCachePath_def IsPathUnderRoot_def CalculateCacheSize_def GetDirectorySize_def
  by (intro p_rules listing dir_sizes)+

lemma saving: "pres R (SaveStateAtomic E)"
  unfolding SaveStateAtomic_def Let_def by (intro p_rules calls basic p_mod written renamed)

lemma state_access: "pres R (GetPackageState p)" "pres R (UpdatePackageState p s)" "pres R (GetCurrentTimeMs E)"
  unfolding GetPackageState_def UpdatePackageState_def GetCurrentTimeMs_def Let_def
  by (intro p_rules basic p_mod states)+

lemma analysis: "pres R (AnalyzeCaches E ds)"
  unfolding AnalyzeCaches_def analyze_step_def Let_def by (intro p_rules state_access saving scanning)

lemma cleaning: "pres R (CleanDirectorySafely E d)"
  unfolding CleanDirectorySafely_def by (intro p_rules basic listing removal state_access saving)

lemma sweeping: "pres R (RunSystemMaintenanceSweeps E)"
  unfolding RunSystemMaintenanceSweeps_def sweep_path_def NativeFstrim_def
  by (intro p_rules basic evaluation listing removal)

lemma package_list: "pres R (GetInstalledPackages E)"
  unfolding GetInstalledPackages_def by (intro p_rules calls)

subsection \<open>Boot\<close>

lemma tweaks: "pres R (ApplyBootTweaks E)"
  unfolding ApplyBootTweaks_def tweak_def read_ahead_step_def WriteToFile_def Let_def
  by (intro p_rules calls basic)

end

sublocale assignment_order \<subseteq> daemon_order R E
proof
  show "pres R (modS (\<lambda>w. w\<lparr>g_current_state := s\<rparr>))" for s by (intro p_mod engine)
  show "pres R (modS (\<lambda>w. w\<lparr>g_timer := t\<rparr>))" for t by (intro p_mod timer)
  show "pres R (modS (\<lambda>w. w\<lparr>g_running := b\<rparr>))" for b by (intro p_mod running)
qed (rule sweeping package_list scanning analysis cleaning screen_read evaluation basic calls)+

subsection \<open>The daemon's own files\<close>

text \<open>
  The logger writes to its file and to the one it rotates to, the state storage to its file and to the
  temporary one: every other entry of the two stores stays as it is.
\<close>

definition log_paths :: "string \<Rightarrow> string set" where
  "log_paths p = {p, old_path p}"

definition own_files :: "world \<Rightarrow> world \<Rightarrow> bool" where
  "own_files s t \<longleftrightarrow> log_path (w_log t) = log_path (w_log s) \<and>
     (\<forall>p. p \<notin> log_paths (log_path (w_log s)) \<longrightarrow> log_files (w_log t) p = log_files (w_log s) p) \<and>
     (\<forall>p. p \<notin> {STATE_FILE, STATE_FILE_TMP} \<longrightarrow> disk t p = disk s p)"

lemma own_files_refl: "own_files s s"
  by (simp add: own_files_def)

lemma own_files_trans: "own_files s t \<Longrightarrow> own_files t u \<Longrightarrow> own_files s u"
  by (simp add: own_files_def)

lemma log_rotate_own:
  "p \<notin> log_paths (log_path s) \<Longrightarrow> log_files (log_rotate E s) p = log_files s p"
  by (auto simp: log_rotate_def log_fopen_def log_paths_def Let_def split: option.split)

lemma log_append_own:
  "log_path (log_append E l m s) = log_path s"
  "p \<notin> log_paths (log_path s) \<Longrightarrow> log_files (log_append E l m s) p = log_files s p"
  by (auto simp: log_append_def log_paths_def)

lemma own_files_logged: "own_files w (logged E l m w)"
proof -
  let ?s = "log_append E l m (log_rotate E (w_log w))"
  have "logged E l m w = w \<or> logged E l m w = w\<lparr>w_log := ?s\<rparr>"
    by (simp add: logged_def Log_def del: run_Log)
  then show ?thesis
  proof
    assume e: "logged E l m w = w\<lparr>w_log := ?s\<rparr>"
    have "log_files ?s p = log_files (w_log w) p" if p: "p \<notin> log_paths (log_path (w_log w))" for p
    proof -
      have "log_files ?s p = log_files (log_rotate E (w_log w)) p"
        using p by (intro log_append_own(2)) simp
      also have "\<dots> = log_files (w_log w) p" using p by (rule log_rotate_own)
      finally show ?thesis .
    qed
    then show ?thesis unfolding e own_files_def by (simp add: log_append_own(1))
  qed (simp add: own_files_refl)
qed

interpretation own: assignment_order own_files E for E
  by unfold_locales
    (rule own_files_refl, erule own_files_trans, assumption, (rule own_files_logged | simp add: own_files_def)+)

subsection \<open>The screen node\<close>

text \<open>The path of the brightness node is one of those that are looked for, or unset.\<close>

definition lit_nodes :: "string set" where
  "lit_nodes = insert [] (set screen_nodes)"

definition known_node :: "world \<Rightarrow> bool" where
  "known_node w \<longleftrightarrow> g_backlight_path w \<in> lit_nodes"

definition keeps_node :: "world \<Rightarrow> world \<Rightarrow> bool" where
  "keeps_node s t \<longleftrightarrow> (known_node s \<longrightarrow> known_node t)"

interpretation node: assignment_order keeps_node E for E
  by unfold_locales (auto simp: keeps_node_def known_node_def lit_nodes_def)

end
