(* ===== verification/Main_Correct.thy ===== *)
theory Main_Correct
  imports Scope Boot_Correct Primitives
begin

section \<open>The whole program\<close>

text \<open>
  \<open>main\<close> from the start of the process: what it does before the event loop, and the properties of
  the event loop carried over to the program with the configuration it has read.
\<close>

subsection \<open>Up to the event loop\<close>

definition loaded_config :: "env \<Rightarrow> world \<Rightarrow> Configuration" where
  "loaded_config E w = snd (LoadConfig (e_text E (tick w) config_path) (g_config w))"

text \<open>What only the event loop changes, and the trace.\<close>

definition engine_part :: "world \<Rightarrow> EngineState \<times> (u32 \<times> PackageState) list \<times> node \<times> (string \<rightharpoonup> u8 list) \<times> bool \<times> u32 option" where
  "engine_part w = (g_current_state w, g_states w, fs w, disk w, g_running w, g_timer w)"

lemma engine_part_sense: "keeps sans_sense m \<Longrightarrow> keeps engine_part m"
  by (erule keeps_comp [where h = engine_part]) (simp add: engine_part_def sans_sense_def)

lemma run_StartPolling:
  assumes "run_state (StartPolling E) w = (u, w')"
  shows "engine_part w' = engine_part w \<and> trace w' = trace w \<and> g_config w' = g_config w"
proof -
  have watch: "keeps (\<lambda>w. (engine_part w, trace w, g_config w)) (loop (watch_step E) ns b)" for ns b
    unfolding watch_step_def by (intro keep.p_rules observe_keeps) (simp add: engine_part_def)
  have "keeps (\<lambda>w. (engine_part w, trace w, g_config w)) (StartPolling E)"
    unfolding StartPolling_def
    by (intro keep.p_rules observe_keeps watch keep.p_mod) (simp_all add: engine_part_def logged_fields Log_def
        pres_def)
  from pres_run [OF this assms] show ?thesis by simp
qed

definition boot_effect :: "effect \<Rightarrow> bool" where
  "boot_effect e \<longleftrightarrow> (case e of WriteNode _ _ _ \<Rightarrow> True | Shell c \<Rightarrow> c = dexopt_cmd | _ \<Rightarrow> False)"

lemma boot_tweaks_effects:
  assumes "run_state (ApplyBootTweaks E) w = (u, w')"
  shows "\<exists>es. trace w' = trace w @ es \<and> list_all boot_effect es"
proof -
  have "list_all boot_effect (read_ahead_writes ws)" for ws
    by (auto simp: read_ahead_writes_def boot_effect_def list_all_iff)
  then have "list_all boot_effect (boot_writes E (tick w))"
    by (simp add: boot_writes_def setting_results_def boot_effect_def)
  then show ?thesis
    using run_ApplyBootTweaks [OF assms] by (intro exI [of _ "boot_writes E (tick w) @ [Shell dexopt_cmd]"]) (simp add: boot_effect_def)
qed

definition main_start :: "env \<Rightarrow> unit io" where
  "main_start E = do {
     _ \<leftarrow> Initialize E report_path default_max_size;
     LOGI E ''=================================================='';
     LOGI E ''FreshCore Native v1.0 started.'';
     LOGI E ''==================================================''
   }"

definition main_config :: "env \<Rightarrow> Configuration io" where
  "main_config E = do {
     file \<leftarrow> read_text E config_path;
     w \<leftarrow> getS;
     let (ok, cfg) = LoadConfig file (g_config w);
     modS (\<lambda>w. w\<lparr>g_config := cfg\<rparr>);
     whenS (\<not> ok) (LOGW E ''Failed to load config, using defaults.'');
     ret cfg
   }"

definition main_arm :: "env \<Rightarrow> unit io" where
  "main_arm E = do {
     ApplyBootTweaks E;
     LOGI E ''[SYSTEM] Background Maintenance and Cache Cleaner armed.'';
     LOGI E ''[SYSTEM] Sweep will trigger automatically after 15 minutes of Screen-Off Idle.'';
     StartPolling E
   }"

lemma main_eq:
  "main E a b c ins = do {
     main_start E;
     cfg \<leftarrow> main_config E;
     if \<not> enabled cfg then do { LOGI E ''FreshCore disabled in config. Exiting.''; Shutdown }
     else do {
       main_arm E;
       stopped \<leftarrow> RunScheduler E a b c ins;
       whenS stopped (do { StopPolling; Shutdown })
     }
   }"
  unfolding main_def main_start_def main_config_def main_arm_def Let_def case_prod_beta
  by (simp only: State_Monad.bind_assoc State_Monad.bind_left_identity)

text \<open>
  The start of the program opens the log. It deletes a log that was last written more than three days ago, and the one
  before it; \<open>start_effects\<close> are these deletions.
\<close>

definition start_effects :: "env \<Rightarrow> world \<Rightarrow> effect list" where
  "start_effects E w = snd (fst (Initialize_log E report_path default_max_size (w_log w)))"

definition log_outdated :: "env \<Rightarrow> world \<Rightarrow> bool" where
  "log_outdated E w \<longleftrightarrow> \<not> log_open (w_log w) \<and> (\<exists>txt mtime. log_files (w_log w) report_path = Some (txt, mtime) \<and>
     3 * 24 * 60 * 60 < e_wall E (Suc (log_clock (w_log w))) - mtime)"

lemma start_effects_cases:
  "start_effects E w = [] \<or> log_outdated E w \<and>
     (\<exists>a b. start_effects E w = [LogUnlink report_path a, LogUnlink (old_path report_path) b])"
  by (auto simp: start_effects_def Initialize_log_def log_purge_def log_outdated_def purge_seconds_def Let_def
      split: option.splits prod.splits if_splits)

lemma run_main_start:
  assumes "run_state (main_start E) w = (u, w')"
  shows "sans_log w' = (sans_log w)\<lparr>trace := trace w @ start_effects E w\<rparr>"
proof -
  let ?v = "snd (run_state (Initialize E report_path default_max_size) w)"
  have "sans_log w' = sans_log ?v"
    using assms by (auto simp: main_start_def sans_log_logged split: prod.splits)
  then show ?thesis by (simp add: run_Initialize start_effects_def sans_log_def)
qed

lemma run_main_config:
  assumes "run_state (main_config E) w = (cfg, w')"
  shows "cfg = loaded_config E w \<and> g_config w' = cfg \<and> engine_part w' = engine_part w \<and> trace w' = trace w"
  using assms
  by (auto simp: main_config_def read_text_def loaded_config_def engine_part_def run_whenS split: prod.splits if_splits)

lemma run_main_arm:
  assumes "run_state (main_arm E) w = (u, w')"
  shows "engine_part w' = engine_part w \<and> g_config w' = g_config w \<and>
    (\<exists>es. trace w' = trace w @ es \<and> list_all boot_effect es)"
proof -
  obtain w1 where 1: "run_state (ApplyBootTweaks E) w = ((), w1)"
    by (cases "run_state (ApplyBootTweaks E) w") auto
  let ?l1 = "logged E INFO ''[SYSTEM] Background Maintenance and Cache Cleaner armed.'' w1"
  let ?l2 = "logged E INFO ''[SYSTEM] Sweep will trigger automatically after 15 minutes of Screen-Off Idle.'' ?l1"
  have "run_state (StartPolling E) ?l2 = (u, w')"
    using assms 1 by (simp add: main_arm_def)
  from run_StartPolling [OF this]
  have s: "engine_part w' = engine_part w1 \<and> trace w' = trace w1 \<and> g_config w' = g_config w1"
    by (simp add: engine_part_def)
  have "engine_part w1 = engine_part w" "g_config w1 = g_config w"
    using pres_run [OF engine_part_sense [OF ApplyBootTweaks_keeps] 1] keeps_config [OF ApplyBootTweaks_keeps 1] by simp_all
  then show ?thesis using s boot_tweaks_effects [OF 1] by simp
qed

text \<open>
  The program is the event loop between a start that leaves the engine alone and an end that does too;
  or, disabled, nothing at all.
\<close>

lemma run_main:
  assumes "run_state (main E a b c ins) w = (u, w')"
  obtains (disabled) "\<not> enabled (loaded_config E w)" "engine_part w' = engine_part w" "trace w' = trace w @ start_effects E w"
      "g_config w' = loaded_config E w"
  | (enabled) w1 r w2 es where "enabled (loaded_config E w)"
      "engine_part w1 = engine_part w" "g_config w1 = loaded_config E w"
      "trace w1 = trace w @ start_effects E w @ es" "list_all boot_effect es"
      "run_state (RunScheduler E a b c ins) w1 = (r, w2)"
      "engine_part w' = engine_part w2" "g_config w' = g_config w2" "trace w' = trace w2"
proof -
  obtain v where v: "run_state (main_start E) w = ((), v)"
    by (cases "run_state (main_start E) w") auto
  have "sans_log v = sans_log (w\<lparr>trace := trace w @ start_effects E w\<rparr>)"
    using run_main_start [OF v] by (simp add: sans_log_def)
  note vf = sans_log_fields [OF this]
  have vc: "loaded_config E v = loaded_config E w" "engine_part v = engine_part w"
    "trace v = trace w @ start_effects E w"
    by (simp_all add: loaded_config_def engine_part_def vf)
  obtain cfg x where x: "run_state (main_config E) v = (cfg, x)" by fastforce
  note xf = run_main_config [OF x]
  show thesis
  proof (cases "enabled cfg")
    case False
    then have "run_state Shutdown (logged E INFO ''FreshCore disabled in config. Exiting.'' x) = (u, w')"
      using assms v x by (simp add: main_eq)
    then have "sans_log w' = sans_log x" using pres_run [OF Shutdown_keeps] by (simp add: sans_log_logged)
    note wf = sans_log_fields [OF this]
    show thesis
      by (rule disabled) (use False xf vc wf in \<open>auto simp: engine_part_def\<close>)
  next
    case True
    obtain w1 where 1: "run_state (main_arm E) x = ((), w1)" by (cases "run_state (main_arm E) x") auto
    obtain r w2 where 2: "run_state (RunScheduler E a b c ins) w1 = (r, w2)" by fastforce
    obtain es where es: "trace w1 = trace x @ es" "list_all boot_effect es" and
      arm: "engine_part w1 = engine_part x" "g_config w1 = g_config x"
      using run_main_arm [OF 1] by blast
    have "run_state (whenS r (do { StopPolling; Shutdown })) w2 = (u, w')"
      using assms v x True 1 2 by (simp add: main_eq)
    then have "engine_part w' = engine_part w2 \<and> g_config w' = g_config w2 \<and> trace w' = trace w2"
      by (auto simp: run_whenS StopPolling_def Shutdown_def engine_part_def split: if_splits)
    then show thesis
      by (intro enabled [of w1 es r w2]) (use True xf vc es arm 2 in auto)
  qed
qed

lemma engine_part_fields:
  assumes "engine_part w' = engine_part w"
  shows "g_current_state w' = g_current_state w" "g_states w' = g_states w" "fs w' = fs w" "disk w' = disk w"
    "g_running w' = g_running w" "g_timer w' = g_timer w"
  using assms by (simp_all add: engine_part_def)

subsection \<open>The daemon's own files\<close>

text \<open>
  The four files the daemon writes itself; the model keeps them apart from the tree, in the stores of the
  logger and of the state storage.
\<close>

definition daemon_files :: "string set" where
  "daemon_files = {report_path, old_path report_path, STATE_FILE, STATE_FILE_TMP}"

lemma Initialize_own:
  assumes "\<not> log_open s" "q \<notin> log_paths p"
  shows "log_files (snd (Initialize_log E p n s)) q = log_files s q"
    "log_path (snd (Initialize_log E p n s)) = p"
  using assms
  by (auto simp: Initialize_log_def log_purge_def log_unlink_def log_fopen_def log_paths_def Let_def
      split: option.splits prod.splits if_splits)

lemma main_rest_own:
  "pres own_files (main_config E)" "pres own_files (main_arm E)" "pres own_files StopPolling" "pres own_files Shutdown"
  unfolding main_config_def main_arm_def StartPolling_def StopPolling_def Shutdown_def watch_step_def Let_def
  by (intro own.p_rules own.basic own.calls own.tweaks own.p_mod; simp add: own_files_def)+

lemma main_own:
  assumes "\<not> log_open (w_log w)" "run_state (main E a b c ins) w = (u, w')" "p \<notin> daemon_files"
  shows "log_files (w_log w') p = log_files (w_log w) p \<and> disk w' p = disk w p"
proof -
  let ?v = "snd (run_state (Initialize E report_path default_max_size) w)"
  have v: "log_path (w_log ?v) = report_path" "disk ?v = disk w" "log_files (w_log ?v) p = log_files (w_log w) p"
    using Initialize_own [OF assms(1), of p report_path E default_max_size] assms(3)
    by (simp_all add: run_Initialize log_paths_def daemon_files_def)
  let ?rest = "do {
     LOGI E ''=================================================='';
     LOGI E ''FreshCore Native v1.0 started.'';
     LOGI E ''=================================================='';
     cfg \<leftarrow> main_config E;
     if \<not> enabled cfg then do { LOGI E ''FreshCore disabled in config. Exiting.''; Shutdown }
     else do {
       main_arm E;
       stopped \<leftarrow> RunScheduler E a b c ins;
       whenS stopped (do { StopPolling; Shutdown })
     } }"
  have "pres own_files ?rest" by (intro own.p_rules own.basic main_rest_own own.scheduler)
  moreover have "run_state ?rest ?v = (u, w')"
    using assms(2)
    by (simp only: main_eq main_start_def State_Monad.bind_assoc run_state_bind [of "Initialize E report_path default_max_size"]
        case_prod_beta)
  ultimately have "own_files ?v w'" by (rule pres_run)
  then show ?thesis using v assms(3) by (auto simp: own_files_def log_paths_def daemon_files_def)
qed

subsection \<open>What the program may delete\<close>

lemma main_in_scope:
  assumes "wf_tree (fs w)" "sort_spec (e_sort E)" "run_state (main E a b c ins) w = (u, w')"
  shows "changes (sweep_scope (fs w) \<union> cache_scope E (loaded_config E w) (fs w)) w w'"
  using assms(3)
proof (cases rule: run_main)
  case disabled
  show ?thesis using engine_part_fields(3) [OF disabled(2)] by (simp add: changes_def)
next
  case (enabled w1 r w2 es)
  note f1 = engine_part_fields [OF enabled(2)] and f2 = engine_part_fields [OF enabled(7)]
  have "wf_tree (fs w1)" using assms(1) f1(3) by simp
  from run_in_scope [OF this assms(2) enabled(6)] show ?thesis
    using f1(3) f2(3) enabled(3) by (simp add: changes_def scope_def)
qed

text \<open>
  C1. What the program may delete: started on any tree with any configuration file, it removes only
  locations at or below a subdirectory of one of the three swept directories, or strictly below a
  cache directory that the scanner would list for an installed package the loaded configuration
  includes, and its own four files: the report and the one before it, the state file and its temporary file.
  Everything else is as before, in the tree and among the files kept apart from it, whatever the screen, the sensors, the signals
  and failing system calls do.
\<close>

theorem main_scope:
  assumes "wf_tree (fs w)" "sort_spec (e_sort E)" "\<not> log_open (w_log w)"
    and "run_state (main E epoll_ok timer_ok ctl_ok ins) w = (u, w')"
    and "g = snd (LoadConfig (e_text E (tick w) config_path) (g_config w))"
  shows "tree_below (fs w') (fs w) \<and>
    {l. kind_at (fs w') l \<noteq> kind_at (fs w) l} \<subseteq>
      {l. \<exists>p\<in>set paths_to_sweep. \<exists>r c. resolve (fs w) False p = Some r \<and>
         kind_at (fs w) (r @ [c]) = Some KDir \<and> \<not> contains c ''freshcore.log'' \<and> prefix (r @ [c]) l} \<union>
      {l. \<exists>pkg cand q. pkg \<in> installed E \<and> package_included g pkg \<and>
         cand \<in> set (cache_candidates g pkg) \<and> listed_candidate (fs w) pkg cand \<and>
         resolve (fs w) False cand = Some q \<and> strict_prefix q l} \<and>
    (\<forall>p. p \<notin> daemon_files \<longrightarrow> log_files (w_log w') p = log_files (w_log w) p \<and> disk w' p = disk w p)"
proof -
  have "sweep_scope (fs w) \<union> cache_scope E (loaded_config E w) (fs w) =
      {l. \<exists>p\<in>set paths_to_sweep. \<exists>r c. resolve (fs w) False p = Some r \<and>
         kind_at (fs w) (r @ [c]) = Some KDir \<and> \<not> contains c ''freshcore.log'' \<and> prefix (r @ [c]) l} \<union>
      {l. \<exists>pkg cand q. pkg \<in> installed E \<and> package_included g pkg \<and>
         cand \<in> set (cache_candidates g pkg) \<and> listed_candidate (fs w) pkg cand \<and>
         resolve (fs w) False cand = Some q \<and> strict_prefix q l}"
    by (simp only: sweep_scope_def cache_scope_def cleanable_def at_below_def strictly_below_def
        mem_Collect_eq conj_assoc loaded_config_def assms(5))
  from main_in_scope [OF assms(1,2,4), unfolded this] show ?thesis
    unfolding changes_def using main_own [OF assms(3,4)] by blast
qed

theorem main_scope_witness:
  "tree_below (fs (snd (run_state (main dark_env True True True [PollReady [(True, True)]]) sample_world))) sample_tree \<and>
   disk (snd (run_state (main dark_env True True True [PollReady [(True, True)]]) sample_world)) ''/sdcard/a'' = None"
proof -
  have "\<not> log_open (w_log sample_world)" "fs sample_world = sample_tree" "disk sample_world = Map.empty"
    by (simp_all add: sample_world_def boot_world_def closed_log_def)
  moreover have "''/sdcard/a'' \<notin> daemon_files"
    by (simp add: daemon_files_def report_path_def old_path_def STATE_FILE_def STATE_FILE_TMP_def)
  ultimately show ?thesis
    using main_scope [OF wf_sample_tree sort_spec_dark_env _ prod.collapse [symmetric] refl] by simp
qed

text \<open>
  C4. User data is safe: a file or directory that has no component named \<open>cache\<close> or \<open>code_cache\<close> on
  its location, is not at or below a subdirectory of a swept directory and is not one of the daemon's own
  four files is there after any run of the program if it was there before. In particular the plain files in the
  swept directories themselves always stay.
\<close>

theorem main_keeps_user_data:
  assumes "wf_tree (fs w)" "sort_spec (e_sort E)" "\<not> log_open (w_log w)"
    and "run_state (main E epoll_ok timer_ok ctl_ok ins) w = (u, w')"
    and "set l \<inter> {''cache'', ''code_cache''} = {}"
    and "\<And>p r c. p \<in> set paths_to_sweep \<Longrightarrow> resolve (fs w) False p = Some r \<Longrightarrow> prefix (r @ [c]) l \<Longrightarrow>
      kind_at (fs w) (r @ [c]) \<noteq> Some KDir"
    and "loc_str l \<notin> daemon_files"
  shows "kind_at (fs w') l = kind_at (fs w) l \<and> disk w' (loc_str l) = disk w (loc_str l) \<and>
    log_files (w_log w') (loc_str l) = log_files (w_log w) (loc_str l)"
proof -
  have "l \<notin> cache_scope E (loaded_config E w) (fs w)" using cache_scope_component assms(5) by blast
  moreover have "l \<notin> sweep_scope (fs w)" using assms(6) by (auto simp: sweep_scope_def at_below_def)
  ultimately show ?thesis using main_in_scope [OF assms(1,2,4)] main_own [OF assms(3,4,7)] by (simp add: changes_def)
qed

text \<open>A tombstone kept as a plain file.\<close>

theorem main_keeps_user_data_witness:
  "kind_at (fs (snd (run_state (main dark_env True True True [PollReady [(True, True)]]) crash_world)))
     [''data'', ''tombstones'', ''c''] = Some (KFile 5)"
proof -
  have wf: "wf_tree (fs crash_world)" by (rule wf_treeI; code_simp)
  have res: "map (\<lambda>p. resolve (fs crash_world) False p) paths_to_sweep = [Some [''data'', ''tombstones''], None, None]"
    by code_simp
  have k: "kind_at (fs crash_world) [''data'', ''tombstones'', ''c''] = Some (KFile 5)" by code_simp
  show ?thesis
    unfolding k [symmetric]
  proof (rule main_keeps_user_data [OF wf sort_spec_dark_env _ prod.collapse [symmetric], THEN conjunct1])
    show "\<not> log_open (w_log crash_world)" by (simp add: crash_world_def boot_world_def closed_log_def)
    have "loc_str [''data'', ''tombstones'', ''c''] = ''/data/tombstones/c''" by code_simp
    then show "loc_str [''data'', ''tombstones'', ''c''] \<notin> daemon_files"
      by (simp add: daemon_files_def report_path_def old_path_def STATE_FILE_def STATE_FILE_TMP_def)
  next
    fix p r c assume p: "p \<in> set paths_to_sweep" "resolve (fs crash_world) False p = Some r"
      and pre: "prefix (r @ [c]) [''data'', ''tombstones'', ''c'']"
    have "r = [''data'', ''tombstones'']" using p res by (auto simp: paths_to_sweep_def)
    with pre have "r @ [c] = [''data'', ''tombstones'', ''c'']" by simp
    with k show "kind_at (fs crash_world) (r @ [c]) \<noteq> Some KDir" by simp
  qed simp
qed

subsection \<open>When it deletes\<close>

lemma boot_effects_guarded: "list_all boot_effect es \<Longrightarrow> guarded b es"
  by (rule guarded_harmless) (auto simp: list_all_iff boot_effect_def harmless_def split: effect.splits)

lemma start_guarded: "guarded b (start_effects E w)" "verdict_after b (start_effects E w) = b"
  using start_effects_cases [of E w] by auto

lemma main_shrinks:
  assumes "wf_tree (fs w)" "run_state (main E a b c ins) w = (u, w')"
  shows "guards w w'"
  using assms(2)
proof (cases rule: run_main)
  case disabled
  show ?thesis
    using disabled(3) engine_part_fields(3) [OF disabled(2)] start_guarded by (simp add: guards_def guarded_append)
next
  case (enabled w1 r w2 es)
  note f1 = engine_part_fields [OF enabled(2)] and f2 = engine_part_fields [OF enabled(7)]
  have "guards w1 w2"
    using pres_run [OF guard.scheduler enabled(6)] assms(1) f1(3) by (simp add: guards_wf_def)
  then show ?thesis
    using f1(3) f2(3) enabled(4,9) boot_effects_guarded [OF enabled(5)] start_guarded
    by (simp add: guards_def guarded_append)
qed

text \<open>The effects of the program after its start.\<close>

lemma main_effects:
  assumes "run_state (main E a b c ins) w = (u, w')"
  shows "\<exists>es. trace w' = trace w @ start_effects E w @ es \<and> list_all loop_effect es"
  using assms
proof (cases rule: run_main)
  case disabled
  then show ?thesis by simp
next
  case (enabled w1 r w2 es)
  obtain fs where "trace w2 = trace w1 @ fs" "list_all loop_effect fs"
    using pres_run [OF loop_effects.scheduler enabled(6)] by (auto simp: grows_def)
  moreover have "list_all loop_effect es"
    using enabled(5) by (auto simp: list_all_iff boot_effect_def loop_effect_def split: effect.splits)
  ultimately show ?thesis using enabled(4,9) by simp
qed

text \<open>\<open>purges E w xs\<close>: \<open>xs\<close> is nothing, or the unlinking of a log that is out of date and of the one before it.\<close>

definition purges :: "env \<Rightarrow> world \<Rightarrow> effect list \<Rightarrow> bool" where
  "purges E w xs \<longleftrightarrow> xs = [] \<or> log_outdated E w \<and>
     (\<exists>a b. xs = [LogUnlink report_path a, LogUnlink (old_path report_path) b])"

lemma main_purges:
  assumes "run_state (main E a b c ins) w = (u, w')"
  shows "purges E w (start_effects E w) \<and>
    (\<exists>es. trace w' = trace w @ start_effects E w @ es \<and> (\<forall>p ok. LogUnlink p ok \<notin> set es))"
proof -
  obtain es where es: "trace w' = trace w @ start_effects E w @ es" "list_all loop_effect es"
    using main_effects [OF assms] by blast
  have "purges E w (start_effects E w)" using start_effects_cases by (simp add: purges_def)
  moreover have "\<forall>p ok. LogUnlink p ok \<notin> set es" using es(2) by (auto simp: list_all_iff loop_effect_def)
  ultimately show ?thesis using es(1) by blast
qed

text \<open>
  C2. But for the daemon's own log, no file is unlinked and no file system is trimmed unless the latest idle
  verdict before it was one of an idle device, in any run of the program, over any configuration, any
  sequence of signals and timer expiries and any behaviour of the screen, the sensors and the file
  system. The log and the one before it are unlinked without a verdict, but only as the very first effects of the
  program and only if the log was last written more than three days ago.
\<close>

theorem main_deletes_when_idle:
  assumes "wf_tree (fs w)" "guarded False (trace w)"
    and "run_state (main E epoll_ok timer_ok ctl_ok ins) w = (u, w')"
  shows "guarded False (trace w') \<and> purges E w (start_effects E w) \<and>
    (\<exists>es. trace w' = trace w @ start_effects E w @ es \<and> (\<forall>p ok. LogUnlink p ok \<notin> set es))"
  using main_shrinks [OF assms(1,3)] assms(2) main_purges [OF assms(3)] by (simp add: guards_def)

text \<open>A report that was last written four days before the start.\<close>

definition old_log_world :: world where
  "old_log_world = boot_world sample_tree Map.empty [report_path \<mapsto> (''x'', - 4 * 86400)]"

lemma old_log_world_simps: "fs old_log_world = sample_tree" "trace old_log_world = []" "g_current_state old_log_world = BOOT"
  by (simp_all add: old_log_world_def boot_world_def)

lemma old_log_purged:
  "start_effects dark_env old_log_world = [LogUnlink report_path True, LogUnlink (old_path report_path) False]"
  by (simp add: start_effects_def Initialize_log_def log_purge_def log_unlink_def old_log_world_def boot_world_def
      closed_log_def dark_env_def sample_env_def purge_seconds_def Let_def)

theorem main_deletes_when_idle_witness:
  "\<exists>es. trace (snd (run_state (main dark_env True True True [PollReady [(True, True)]]) old_log_world)) =
     [LogUnlink report_path True, LogUnlink (old_path report_path) False] @ es \<and> guarded False es"
proof -
  have "wf_tree (fs old_log_world)"
    using wf_sample_tree old_log_world_simps(1) by (simp add: sample_world_def boot_world_def)
  from main_deletes_when_idle [OF this _ prod.collapse [symmetric], of dark_env True True True
      "[PollReady [(True, True)]]"]
  show ?thesis unfolding old_log_purged old_log_world_simps(2) by (auto simp: guarded_append)
qed

subsection \<open>The state it keeps\<close>

text \<open>
  The well-formed worlds: a tree without clashes, package states filed under their own hashes and
  once, and an engine that is not in \<open>MAINTENANCE\<close>, where nothing would take it out, nor in
  \<open>ERROR_BACKOFF\<close>, which nothing enters.
\<close>

definition world_ok :: "world \<Rightarrow> bool" where
  "world_ok w \<longleftrightarrow> wf_tree (fs w) \<and> keyed (g_states w) \<and> g_current_state w \<notin> {MAINTENANCE, ERROR_BACKOFF}"

text \<open>
  C23. The type of the state: the program ends every run, and waits for every event, in a well-formed
  world if it has started in one, as it does with the globals at their initial values.
\<close>

theorem main_world_ok:
  assumes "world_ok w" "run_state (main E epoll_ok timer_ok ctl_ok ins) w = (u, w')"
  shows "world_ok w'"
proof -
  have "tree_below (fs w') (fs w)"
    using main_shrinks [OF _ assms(2)] assms(1) by (simp add: world_ok_def guards_def)
  then have wf: "wf_tree (fs w')" using assms(1) by (auto simp: world_ok_def intro: wf_tree_below)
  from assms(2) show ?thesis
  proof (cases rule: run_main)
    case disabled
    show ?thesis using assms(1) wf engine_part_fields [OF disabled(2)] by (simp add: world_ok_def)
  next
    case (enabled w1 r w2 es)
    note f1 = engine_part_fields [OF enabled(2)] and f2 = engine_part_fields [OF enabled(7)]
    have "keyed (g_states w2)"
      using pres_run [OF keyed.scheduler enabled(6)] assms(1) f1(2) by (simp add: keeps_keyed_def world_ok_def)
    moreover have "g_current_state w2 \<notin> {MAINTENANCE, ERROR_BACKOFF}"
      by (rule RunScheduler_rests [OF enabled(6)]) (use assms(1) f1(1) in \<open>simp add: world_ok_def\<close>)
    ultimately show ?thesis using wf f2(1,2) by (simp add: world_ok_def)
  qed
qed

theorem main_world_ok_witness:
  "world_ok (snd (run_state (main dark_env True True True [PollReady [(True, True)], Signal]) sample_world))"
  by (rule main_world_ok [OF _ prod.collapse [symmetric]])
    (use wf_sample_tree in \<open>simp add: world_ok_def keyed_def sample_world_def boot_world_def\<close>)

text \<open>
  C39. The saved package states are never read: whatever is in the state file, a program that has just
  started and waits for its first event has no package states.
\<close>

theorem main_ignores_saved_states:
  assumes "run_state (main E epoll_ok timer_ok ctl_ok []) (boot_world tree saved old_logs) = (u, w')"
  shows "g_states w' = [] \<and> state_of (g_states w') pkg = default_state (HashPackageName pkg)"
proof -
  have "g_states w' = []"
    using assms
  proof (cases rule: run_main)
    case disabled
    show ?thesis using engine_part_fields(2) [OF disabled(2)] by (simp add: boot_world_def)
  next
    case (enabled w1 r w2 es)
    have "g_states w2 = g_states w1"
      using enabled(6) by (auto simp: RunScheduler_def SetTimer_def run_whenS split: if_splits)
    then show ?thesis
      using engine_part_fields(2) [OF enabled(2)] engine_part_fields(2) [OF enabled(7)] by (simp add: boot_world_def)
  qed
  then show ?thesis by (simp add: state_of_def)
qed

theorem main_ignores_saved_states_witness:
  "g_states (snd (run_state (main dark_env True True True []) (boot_world sample_tree
     (Map.empty(STATE_FILE \<mapsto> [1, 2, 3])) Map.empty))) = []"
  using main_ignores_saved_states [OF prod.collapse [symmetric]] by blast

subsection \<open>Switched off\<close>

text \<open>
  A configuration that disables the daemon is obeyed before anything is done but for the start of the log: no tweak is
  written, no command run, nothing evaluated, deleted or armed, whatever events come.
\<close>

theorem main_disabled:
  assumes "run_state (main E epoll_ok timer_ok ctl_ok ins) w = (u, w')"
    and "\<not> enabled (snd (LoadConfig (e_text E (tick w) config_path) (g_config w)))"
  shows "trace w' = trace w @ start_effects E w \<and> fs w' = fs w \<and> disk w' = disk w \<and> g_states w' = g_states w \<and>
    g_current_state w' = g_current_state w \<and> g_timer w' = g_timer w"
  using assms(1)
proof (cases rule: run_main)
  case disabled
  show ?thesis using disabled(3) engine_part_fields [OF disabled(2)] by simp
next
  case enabled
  then show ?thesis using assms(2) by (simp add: loaded_config_def)
qed

definition off_env :: env where
  "off_env = dark_env\<lparr>e_text := (\<lambda>_ _. Some ''enabled = false'')\<rparr>"

theorem main_disabled_witness:
  "trace (snd (run_state (main off_env True True True [PollReady [(True, True)]]) sample_world)) = []"
proof -
  have "\<not> enabled (snd (LoadConfig (e_text off_env (tick sample_world) config_path) (g_config sample_world)))"
    by code_simp
  moreover have "start_effects off_env sample_world = []"
    using start_effects_cases [of off_env sample_world] by (simp add: log_outdated_def sample_world_def boot_world_def closed_log_def)
  ultimately show ?thesis
    using main_disabled [OF prod.collapse [symmetric], of off_env sample_world] by (simp add: sample_world_def boot_world_def)
qed

end
