(* ===== verification/License.thy ===== *)
theory License
  imports Main_Correct
begin

section \<open>Deletions need a candidate verdict\<close>

text \<open>
  A maintenance run is licensed by a verdict that passed the idle delay and every gate. The license
  ends when Doze is released, because the device is in use, and when it is forced, at the end of a
  completed run. Every deletion of the program happens under a license, but for the purge of its own log
  at the start.
\<close>

definition license :: "bool \<Rightarrow> effect \<Rightarrow> bool" where
  "license b e = (case e of
       IdleEval v \<Rightarrow> b \<or> v = Is_IDLE_CANDIDATE
     | Shell c \<Rightarrow> b \<and> c \<noteq> force_idle_cmd \<and> c \<noteq> unforce_cmd
     | _ \<Rightarrow> b)"

fun licensed :: "bool \<Rightarrow> effect list \<Rightarrow> bool" where
  "licensed b [] = True"
| "licensed b (e # es) =
     ((case e of Unlink _ _ \<Rightarrow> b | Rmdir _ _ \<Rightarrow> b | Fitrim _ \<Rightarrow> b | _ \<Rightarrow> True) \<and> licensed (license b e) es)"

abbreviation license_after :: "bool \<Rightarrow> effect list \<Rightarrow> bool" where
  "license_after \<equiv> foldl license"

lemma licensed_append: "licensed b (xs @ ys) \<longleftrightarrow> licensed b xs \<and> licensed (license_after b xs) ys"
  by (induction xs arbitrary: b) auto

lemma licensed_free: "list_all shell_free es \<Longrightarrow> licensed True es \<and> license_after True es"
  by (induction es) (auto simp: license_def shell_free_def split: effect.splits)

lemma licensed_start: "licensed b (start_effects E w)" "license_after b (start_effects E w) = b"
  using start_effects_cases [of E w] by (auto simp: license_def)

lemma licensed_pipes: "list_all pipe_effect es \<Longrightarrow> licensed b es \<and> license_after b es = b"
  by (induction es) (auto simp: license_def pipe_effect_def split: effect.splits)

lemma licensed_boot: "list_all boot_effect es \<Longrightarrow> licensed b es \<and> (license_after b es \<longrightarrow> b)"
proof (induction es arbitrary: b)
  case (Cons e es)
  then have "license b e \<longrightarrow> b" by (auto simp: boot_effect_def license_def split: effect.splits)
  then show ?case using Cons by (auto simp: boot_effect_def split: effect.splits)
qed simp

subsection \<open>The invariant\<close>

definition under_license :: "world \<Rightarrow> bool" where
  "under_license w \<longleftrightarrow> licensed False (trace w) \<and> license_after False (trace w)"

definition license_ok :: "world \<Rightarrow> bool" where
  "license_ok w \<longleftrightarrow> licensed False (trace w) \<and>
     (g_current_state w \<in> {IDLE_CANDIDATE, DEEP_IDLE, MAINTENANCE} \<longrightarrow> license_after False (trace w))"

lemma under_license_ok: "under_license w \<Longrightarrow> license_ok w"
  by (simp add: under_license_def license_ok_def)

lemma under_license_free:
  assumes "traces shell_free m"
  shows "hoare under_license m (\<lambda>_. under_license)"
proof (rule hoare_pres [OF assms])
  fix s t assume "under_license s" "grows trace shell_free s t"
  then show "under_license t"
    using licensed_free by (auto simp: under_license_def grows_def licensed_append)
qed

lemma TransitionTo_free: "traces shell_free (TransitionTo E s)"
  unfolding TransitionTo_def by (intro grow.p_rules trace_intros) simp

lemma scan_step_free: "traces shell_free (scan_packages_step E p ds)"
  unfolding scan_packages_step_def
  by (intro grow.p_rules TransitionTo_free sensor_free(2) [OF IsScreenOn_traces] trace_intros)

lemma clean_step_free: "traces shell_free (clean_targets_step E t u)"
  unfolding clean_targets_step_def
  by (intro grow.p_rules TransitionTo_free sensor_free(1) [OF EvaluateIdleState_traces] CleanDirectorySafely_free
      trace_intros)

lemma finish_license: "hoare under_license (do { OptimizeDoze E; TransitionTo E ACTIVE }) (\<lambda>_. license_ok)"
proof (rule hoareI)
  fix w r w' assume "under_license w" and run: "run_state (do { OptimizeDoze E; TransitionTo E ACTIVE }) w = (r, w')"
  moreover obtain v where v: "run_state (OptimizeDoze E) w = ((), v)"
    by (cases "run_state (OptimizeDoze E) w") auto
  ultimately have t: "run_state (TransitionTo E ACTIVE) v = (r, w')" by simp
  have "trace v = trace w @ [Shell force_idle_cmd]"
    using v by (auto simp: OptimizeDoze_def run_system_def)
  then show "license_ok w'"
    using \<open>under_license w\<close> run_TransitionTo [OF t] trace_TransitionTo [OF t]
    by (simp add: license_ok_def under_license_def licensed_append)
qed

lemma PerformMaintenance_license: "hoare under_license (PerformMaintenance E) (\<lambda>_. license_ok)"
proof (rule hoare_maintenance [where A = UNIV and D = "\<lambda>_. True" and T = "\<lambda>_. True"])
  have ok: "hoare under_license m (\<lambda>_. license_ok)" if "traces shell_free m" for m :: "'a io"
    by (rule hoare_conseq [OF under_license_free [OF that]]) (simp_all add: under_license_ok)
  show "hoare under_license (do { OptimizeDoze E; TransitionTo E ACTIVE }) (\<lambda>_. license_ok)"
    by (rule finish_license)
  show "hoare under_license (TransitionTo E ABORTING) (\<lambda>_. license_ok)" by (rule ok) (rule TransitionTo_free)
  show "hoare under_license (scan_packages_step E p ds)
      (\<lambda>r s. case r of Inl ds' \<Rightarrow> under_license s \<and> list_all (\<lambda>_. True) ds' | Inr _ \<Rightarrow> license_ok s)" for p ds
    by (rule hoare_conseq [OF under_license_free [OF scan_step_free]]) (auto simp: under_license_ok list_all_iff split: sum.split)
  show "hoare under_license (clean_targets_step E t u) (\<lambda>r s. case r of Inl _ \<Rightarrow> under_license s | Inr _ \<Rightarrow> license_ok s)" for t u
    by (rule hoare_conseq [OF under_license_free [OF clean_step_free]]) (auto simp: under_license_ok split: sum.split)
qed (rule hoare_conseq [OF under_license_free], (rule sweeps_free packages_free sensor_free(2) [OF IsScreenOn_traces] trace_intros), simp, simp add: list_all_iff)+

lemma licensed_move:
  assumes "run_state (TransitionTo E s) x = (u, y)" "licensed False (trace x)"
    "s \<in> {IDLE_CANDIDATE, DEEP_IDLE, MAINTENANCE} \<longrightarrow> license_after False (trace x)"
  shows "license_ok y"
  using assms run_TransitionTo [OF assms(1)] trace_TransitionTo [OF assms(1)] by (auto simp: license_ok_def)

lemma licensed_wake:
  assumes l: "licensed False (trace w)" and s: "g_current_state w = s"
    and run: "run_state (after_verdict E Is_NOT_IDLE s) w = (u, w')"
  shows "license_ok w'"
proof (cases "s = ACTIVE")
  case True
  then have "w' = w" using run by (simp add: after_verdict_def run_whenS)
  then show ?thesis using l s True by (simp add: license_ok_def)
next
  case False
  obtain y where y: "run_state (WakeFromDoze E) w = ((), y)" "trace y = trace w @ [Shell unforce_cmd]"
    by (cases "run_state (WakeFromDoze E) w") (auto simp: WakeFromDoze_def run_system_def)
  then have "run_state (TransitionTo E ACTIVE) y = (u, w')"
    using run False by (simp add: after_verdict_def run_whenS)
  then show ?thesis by (rule licensed_move) (use y(2) l in \<open>simp_all add: licensed_append\<close>)
qed

lemma evaluation_license:
  assumes "license_ok w" "run_state (EvaluateAndTransition E) w = (u, w')"
  shows "license_ok w'"
proof -
  obtain v w1 where 1: "run_state (EvaluateIdleState E) w = (v, w1)" by fastforce
  obtain es where es: "trace w1 = trace w @ es @ [IdleEval v]" "list_all pipe_effect es"
    using run_EvaluateIdleState_trace [OF 1] by blast
  have s1: "g_current_state w1 = g_current_state w"
    using settings_state_eq [OF settings_run [OF settings_intros(7) 1]] .
  have l1: "licensed False (trace w1)" "license_after False (trace w1) \<longleftrightarrow>
      license_after False (trace w) \<or> v = Is_IDLE_CANDIDATE"
    using assms(1) licensed_pipes [OF es(2)] by (auto simp: license_ok_def es(1) licensed_append license_def)
  have act: "run_state (after_verdict E v (g_current_state w)) w1 = (u, w')"
    using assms(2) unfolding run_EvaluateAndTransition [OF 1] .
  show ?thesis
  proof (cases "v = Is_NOT_IDLE")
    case True
    show ?thesis by (rule licensed_wake [OF l1(1) s1 act [unfolded True]])
  next
    case idle: False
    show ?thesis
    proof (cases "g_current_state w")
      case DEEP_IDLE
      obtain y where y: "run_state (TransitionTo E MAINTENANCE) w1 = ((), y)"
        by (cases "run_state (TransitionTo E MAINTENANCE) w1") auto
      then have "run_state (PerformMaintenance E) y = (u, w')"
        using act idle DEEP_IDLE by (simp add: after_verdict_def)
      moreover have "under_license y"
        using assms(1) l1 trace_TransitionTo [OF y] DEEP_IDLE by (simp add: under_license_def license_ok_def)
      ultimately show ?thesis by (rule hoareD [OF PerformMaintenance_license, rotated])
    next
      case SCREEN_OFF
      then show ?thesis
        using act idle l1 s1 licensed_move by (auto simp: after_verdict_def run_whenS license_ok_def split: if_splits)
    next
      case IDLE_CANDIDATE
      then have "run_state (TransitionTo E DEEP_IDLE) w1 = (u, w')" using act idle by (simp add: after_verdict_def)
      then show ?thesis by (rule licensed_move) (use assms(1) l1 IDLE_CANDIDATE in \<open>simp_all add: license_ok_def\<close>)
    next
      case MAINTENANCE
      then show ?thesis using act idle l1 s1 assms(1) by (auto simp: after_verdict_def license_ok_def)
    qed (use act idle l1(1) licensed_move in \<open>auto simp: after_verdict_def\<close>)
  qed
qed

definition license_order :: "world \<Rightarrow> world \<Rightarrow> bool" where
  "license_order s t \<longleftrightarrow> (license_ok s \<longrightarrow> license_ok t)"

lemma license_same: "(\<And>w. trace (f w) = trace w \<and> g_current_state (f w) = g_current_state w) \<Longrightarrow>
    pres license_order (modS f)"
  by (simp add: pres_def license_order_def license_ok_def)

lemma license_Log: "pres license_order (Log E l m)"
  by (simp add: pres_def license_order_def license_ok_def)

interpretation licensing: event_order license_order E for E
proof
  show "pres license_order (EvaluateAndTransition E)"
    by (rule presI) (simp add: license_order_def evaluation_license)
qed (auto simp: license_order_def intro: license_same license_Log)

subsection \<open>The program\<close>

lemma main_licensed:
  assumes "licensed False (trace w)" "g_current_state w \<in> {BOOT, ACTIVE, SCREEN_OFF, ABORTING}"
    and "run_state (main E a b c ins) w = (u, w')"
  shows "licensed False (trace w')"
  using assms(3)
proof (cases rule: run_main)
  case disabled
  then show ?thesis using assms(1) licensed_start by (simp add: licensed_append)
next
  case (enabled w1 r w2 es)
  have "g_current_state w1 = g_current_state w" by (rule engine_part_fields(1) [OF enabled(2)])
  then have "license_ok w1"
    using assms(1,2) licensed_boot [OF enabled(5)] licensed_start
    by (auto simp: license_ok_def enabled(4) licensed_append)
  then have "license_ok w2" using pres_run [OF licensing.scheduler enabled(6)] by (simp add: license_order_def)
  then show ?thesis by (simp add: license_ok_def enabled(9))
qed

text \<open>
  C3. But for its own old log, the program deletes nothing before the device has been idle for the configured delay
  with every gate open: in any run, every unlink, every removal of a directory and every trim comes after
  a verdict that the device is a candidate, with Doze neither forced nor released since. The
  log and the one before it are unlinked only as the very first effects of the program and only if the log was last
  written more than three days ago.
\<close>

theorem main_deletes_as_candidate:
  assumes "licensed False (trace w)" "g_current_state w \<in> {BOOT, ACTIVE, SCREEN_OFF, ABORTING}"
    and "run_state (main E epoll_ok timer_ok ctl_ok ins) w = (u, w')"
  shows "licensed False (trace w') \<and> purges E w (start_effects E w) \<and>
    (\<exists>es. trace w' = trace w @ start_effects E w @ es \<and> (\<forall>p ok. LogUnlink p ok \<notin> set es))"
  using main_licensed [OF assms] main_purges [OF assms(3)] by (rule conjI)

theorem main_deletes_as_candidate_witness:
  "licensed False (trace (snd (run_state (main dark_env True True True (replicate 4 (PollReady [(True, True)]))) sample_world)))"
  by (rule main_deletes_as_candidate [OF _ _ prod.collapse [symmetric], THEN conjunct1])
    (simp_all add: sample_world_def boot_world_def)

end
