(* ===== verification/MicFixer_Correct.thy ===== *)
theory MicFixer_Correct
  imports MicFixer Samples
begin

unbundle bit_operations_syntax

section \<open>Muting of the transmission line\<close>

text \<open>
  Both microphone threads first mute the line, then rebuild the routes, then unmute it. Whether the
  line is muted is read off the trace: the last value a mixer command has set for the voice control.
  A command that the mixer rejects, or that cannot be started, sets nothing, and the code goes on all the same;
  \<open>mixer_works\<close> says that none is. Under it the polling thread refines a small machine over the audio modes
  it reads, and the ALSA thread never leaves the line muted.
\<close>

fun muted_after :: "bool \<Rightarrow> effect list \<Rightarrow> bool" where
  "muted_after b [] = b"
| "muted_after b (Mixer c vs # es) =
     muted_after (if c = ''Voice Tx Mute'' then vs = [''1'', ''1'', ''1''] else b) es"
| "muted_after b (e # es) = muted_after b es"

lemma muted_after_append: "muted_after b (xs @ ys) = muted_after (muted_after b xs) ys"
  by (induction b xs rule: muted_after.induct) auto

abbreviation muted :: "world \<Rightarrow> bool" where
  "muted w \<equiv> muted_after False (trace w)"

definition mixer_works :: "env \<Rightarrow> bool" where
  "mixer_works E \<longleftrightarrow> (\<forall>t path control a b c. case e_pipe E t (tinymix_cmd path control a b c) of
     None \<Rightarrow> False | Some out \<Rightarrow> \<not> tinymix_failed (strip_newlines out))"

subsection \<open>Mixer commands\<close>

text \<open>The commands that were piped, and the notifications shown.\<close>

fun pipes :: "effect list \<Rightarrow> string list" where
  "pipes [] = []"
| "pipes (Pipe c # es) = c # pipes es"
| "pipes (e # es) = pipes es"

lemma pipes_append [simp]: "pipes (xs @ ys) = pipes xs @ pipes ys"
  by (induction xs rule: pipes.induct) auto

definition shown :: "world \<Rightarrow> nat" where
  "shown w = count_list (trace w) (Shell notification_cmd)"

text \<open>A control with its three values, the command for it, and what it does to the line.\<close>

type_synonym setting = "string \<times> string \<times> string \<times> string"

definition command :: "string \<Rightarrow> setting \<Rightarrow> string" where
  "command path s = (case s of (control, a, b, c) \<Rightarrow> tinymix_cmd path control a b c)"

definition line_after :: "setting \<Rightarrow> bool \<Rightarrow> bool" where
  "line_after s mute = (case s of (control, a, b, c) \<Rightarrow>
     if control = ''Voice Tx Mute'' then [a, b, c] = [''1'', ''1'', ''1''] else mute)"

text \<open>\<open>sets E ss m\<close>: what \<open>m\<close> does is to run the mixer commands \<open>ss\<close>, one observation each.\<close>

definition sets :: "env \<Rightarrow> setting list \<Rightarrow> 'a io \<Rightarrow> bool" where
  "sets E ss m \<longleftrightarrow> (\<forall>w r w'. run_state m w = (r, w') \<longrightarrow>
     tick w' = tick w + length ss \<and> g_mic_running w' = g_mic_running w \<and> g_tinymix_path w' = g_tinymix_path w \<and>
     pipes (trace w') = pipes (trace w) @ map (command (g_tinymix_path w)) ss \<and> shown w' = shown w \<and>
     (mixer_works E \<longrightarrow> muted w' = fold line_after ss (muted w)))"

lemma setsD:
  assumes "sets E ss m" "run_state m w = (r, w')"
  shows "tick w' = tick w + length ss" "g_mic_running w' = g_mic_running w" "g_tinymix_path w' = g_tinymix_path w"
    "pipes (trace w') = pipes (trace w) @ map (command (g_tinymix_path w)) ss" "shown w' = shown w"
    "mixer_works E \<Longrightarrow> muted w' = fold line_after ss (muted w)"
  using assms unfolding sets_def by blast+

lemma sets_bind:
  assumes "sets E ss m" "\<And>x. sets E ts (n x)"
  shows "sets E (ss @ ts) (State_Monad.bind m n)"
  unfolding sets_def
proof (intro allI impI)
  fix w r w' assume run: "run_state (State_Monad.bind m n) w = (r, w')"
  obtain x v where 1: "run_state m w = (x, v)" by fastforce
  with run have 2: "run_state (n x) v = (r, w')" by simp
  show "tick w' = tick w + length (ss @ ts) \<and> g_mic_running w' = g_mic_running w \<and> g_tinymix_path w' = g_tinymix_path w \<and>
     pipes (trace w') = pipes (trace w) @ map (command (g_tinymix_path w)) (ss @ ts) \<and> shown w' = shown w \<and>
     (mixer_works E \<longrightarrow> muted w' = fold line_after (ss @ ts) (muted w))"
    using setsD [OF assms(1) 1] setsD [OF assms(2) 2] by simp
qed

lemma sets_seq: "sets E [] m \<Longrightarrow> (\<And>x. sets E ts (n x)) \<Longrightarrow> sets E ts (State_Monad.bind m n)"
  using sets_bind [of E "[]" m ts n] by simp

lemma sets_cons: "sets E [s] m \<Longrightarrow> (\<And>x. sets E ts (n x)) \<Longrightarrow> sets E (s # ts) (State_Monad.bind m n)"
  using sets_bind [of E "[s]" m ts n] by simp

lemma sets_quiet:
  "sets E [] (ret x)" "sets E [] getS" "sets E [] (Log E l m)" "sets E [] (emit (Usleep n))" "sets E [] (emit (Setpriority p))"
  by (auto simp: sets_def shown_def muted_after_append)

lemma sets_if: "sets E ss m \<Longrightarrow> sets E ss n \<Longrightarrow> sets E ss (if b then m else n)"
  by simp

lemma sets_tinymix: "sets E [(c, v1, v2, v3)] (RunTinymix E c v1 v2 v3)"
  unfolding sets_def
proof (intro allI impI)
  fix w r w' assume run: "run_state (RunTinymix E c v1 v2 v3) w = (r, w')"
  let ?cmd = "tinymix_cmd (g_tinymix_path w) c v1 v2 v3"
  let ?out = "e_pipe E (tick w) ?cmd"
  let ?set = "?out \<noteq> None \<and> \<not> tinymix_failed (strip_newlines (case ?out of None \<Rightarrow> [] | Some out \<Rightarrow> out))"
  have w': "tick w' = Suc (tick w)" "g_mic_running w' = g_mic_running w" "g_tinymix_path w' = g_tinymix_path w"
    "trace w' = trace w @ Pipe ?cmd # (if ?set then [Mixer c [v1, v2, v3]] else [])"
    using run by (auto simp: RunTinymix_def ExecCommand_def run_pipe_def Let_def read_all_id run_whenS
        split: option.splits if_splits)
  have "?set" if "mixer_works E"
    using that unfolding mixer_works_def by (auto split: option.splits dest!: spec [of _ "tick w"])
  then show "tick w' = tick w + length [(c, v1, v2, v3)] \<and> g_mic_running w' = g_mic_running w \<and>
     g_tinymix_path w' = g_tinymix_path w \<and>
     pipes (trace w') = pipes (trace w) @ map (command (g_tinymix_path w)) [(c, v1, v2, v3)] \<and> shown w' = shown w \<and>
     (mixer_works E \<longrightarrow> muted w' = fold line_after [(c, v1, v2, v3)] (muted w))"
    using w' by (auto simp: command_def line_after_def shown_def muted_after_append)
qed

lemma sets_route: "sets E [(c, v, [], [])] (route E c v)"
  unfolding route_def by (rule sets_cons [OF sets_tinymix sets_quiet(1)])

text \<open>The two lists of settings, first muting and last unmuting the line.\<close>

definition pre_init_settings :: "setting list" where
  "pre_init_settings =
     [(''Voice Tx Mute'', ''1'', ''1'', ''1''), (''Voip Tx Mute'', ''1'', ''1'', []),
      (''TX_AIF1_CAP Mixer DEC0'', ''1'', [], []), (''TX_AIF1_CAP Mixer DEC1'', ''1'', [], []),
      (''ADC1_MIXER Switch'', ''1'', [], []), (''ADC2_MIXER Switch'', ''1'', [], []),
      (''ADC1 MUX'', ''INP2'', [], []), (''ADC2 MUX'', ''INP3'', [], []), (''IIR0 INP0 MUX'', ''DEC0'', [], [])]"

definition mic_fix_settings :: "setting list" where
  "mic_fix_settings =
     [(''TX_CDC_DMA_TX_3 Channels'', ''Two'', [], []), (''TX DEC0 MUX'', ''SWR_MIC'', [], []),
      (''TX DEC1 MUX'', ''SWR_MIC'', [], []), (''TX SMIC MUX0'', ''ADC0'', [], []), (''TX SMIC MUX1'', ''ADC2'', [], []),
      (''IIR0 INP0 MUX'', ''DEC0'', [], []), (''RX_RX0 Digital Volume'', ''84'', [], []),
      (''TX_DEC0 Volume'', ''84'', [], []), (''TX_DEC1 Volume'', ''84'', [], []),
      (''Voice Tx Mute'', ''0'', ''0'', ''0''), (''Voip Tx Mute'', ''0'', ''0'', [])]"

lemma ApplyPreInit_sets: "sets E pre_init_settings (ApplyPreInit E)"
  unfolding ApplyPreInit_def pre_init_settings_def by (rule sets_route | rule sets_cons, rule sets_tinymix sets_route)+

lemma ApplyMicFix_sets: "sets E mic_fix_settings (ApplyMicFix E)"
  unfolding ApplyMicFix_def mic_fix_settings_def
  by (rule sets_quiet(1) | rule sets_cons, rule sets_tinymix sets_route)+

lemma settings_line: "fold line_after pre_init_settings m" "\<not> fold line_after mic_fix_settings m"
    "length pre_init_settings = 9" "length mic_fix_settings = 11"
  by (simp_all add: pre_init_settings_def mic_fix_settings_def line_after_def)

text \<open>A notification, between other commands.\<close>

lemma run_ShowNotification:
  "run_state ShowNotification w = (u, w') \<Longrightarrow> tick w' = tick w \<and> g_mic_running w' = g_mic_running w \<and>
     g_tinymix_path w' = g_tinymix_path w \<and> pipes (trace w') = pipes (trace w) \<and> shown w' = Suc (shown w) \<and>
     muted w' = muted w"
  by (auto simp: ShowNotification_def run_system_def shown_def muted_after_append)

subsection \<open>The polling thread\<close>

text \<open>The machine it implements: active, pre-initialised, muted.\<close>

fun call_step :: "string \<Rightarrow> (bool \<times> bool) \<times> bool \<Rightarrow> (bool \<times> bool) \<times> bool" where
  "call_step mode ((active, pre_init), mute) =
     (if ringing mode then (if pre_init then ((active, pre_init), mute) else ((active, True), True))
      else if in_call mode then (if active then ((active, pre_init), mute) else ((True, pre_init), False))
      else ((False, False), mute))"

text \<open>The observations of a turn after the mode is read: one for each mixer command.\<close>

fun call_cost :: "string \<Rightarrow> bool \<times> bool \<Rightarrow> nat" where
  "call_cost mode (active, pre_init) =
     (if ringing mode then (if pre_init then 0 else 9)
      else if in_call mode then (if active then 0 else 20) else 0)"

lemma poll_turn_step:
  assumes "run_state (poll_turn E mode flags) w = (flags', w')" "mixer_works E"
  shows "(flags', muted w') = call_step mode (flags, muted w) \<and>
    tick w' = tick w + call_cost mode flags \<and> g_mic_running w' = g_mic_running w"
proof -
  obtain active pre_init where f: "flags = (active, pre_init)" by fastforce
  consider (ring) "ringing mode" "\<not> pre_init" | (call) "\<not> ringing mode" "in_call mode" "\<not> active"
    | (other) "ringing mode \<and> pre_init \<or> \<not> ringing mode \<and> (in_call mode \<longrightarrow> active)" by blast
  then show ?thesis
  proof cases
    case ring
    let ?v = "logged E INFO ''RINGTONE DETECTED! Powering on Audio Hardware early...'' w"
    obtain u where 1: "run_state (ApplyPreInit E) ?v = ((), u)" by (cases "run_state (ApplyPreInit E) ?v") auto
    then have "flags' = (active, True)" "w' = u" using assms(1) f ring by (simp_all add: poll_turn_def)
    then show ?thesis using setsD [OF ApplyPreInit_sets 1] assms(2) f ring by (simp add: settings_line)
  next
    case call
    let ?v = "logged E INFO ''CALL CONNECTED! Aggressively fully re-initializing Handset Mic route!'' w"
    obtain v1 where 1: "run_state ShowNotification ?v = ((), v1)" by (cases "run_state ShowNotification ?v") auto
    obtain v2 where 2: "run_state (ApplyPreInit E) v1 = ((), v2)" by (cases "run_state (ApplyPreInit E) v1") auto
    obtain v3 where 3: "run_state (ApplyMicFix E) v2 = ((), v3)" by (cases "run_state (ApplyMicFix E) v2") auto
    have "flags' = (True, pre_init)" "w' = logged E INFO ''Hardware Primed and Ready!'' v3"
      using assms(1) f call 1 2 3 by (simp_all add: poll_turn_def)
    then show ?thesis
      using run_ShowNotification [OF 1] setsD [OF ApplyPreInit_sets 2] setsD [OF ApplyMicFix_sets 3] assms(2) f call
      by (simp add: settings_line)
  next
    case other
    then show ?thesis using assms(1) f by (auto simp: poll_turn_def run_whenS split: if_splits)
  qed
qed

text \<open>The audio mode read at tick \<open>t\<close>, and the modes that \<open>n\<close> turns read from tick \<open>t\<close> on.\<close>

definition mode_at :: "env \<Rightarrow> nat \<Rightarrow> string" where
  "mode_at E t = (case e_pipe E t mode_cmd of None \<Rightarrow> [] | Some out \<Rightarrow> out)"

primrec modes_read :: "env \<Rightarrow> nat \<Rightarrow> nat \<Rightarrow> bool \<times> bool \<Rightarrow> string list" where
  "modes_read E t 0 flags = []"
| "modes_read E t (Suc n) flags = (let mode = mode_at E t in
     mode # modes_read E (t + 1 + call_cost mode flags) n (fst (call_step mode (flags, False))))"

lemma call_step_flags: "fst (call_step mode (flags, m)) = fst (call_step mode (flags, m'))"
  by (cases flags) simp

lemma poll_sleep_sets: "sets E [] poll_sleep"
proof -
  have "sets E [] (loop (\<lambda>i (_ :: unit). do {
         w \<leftarrow> getS;
         if g_mic_running w then do { emit (Usleep 100000); ret (Inl ()) } else ret (Inr ())
       }) xs () :: (unit + unit) io)" for xs :: "nat list"
  proof (induction xs)
    case Nil
    show ?case by (simp add: sets_quiet)
  next
    case (Cons x xs)
    show ?case
      unfolding loop.simps
    proof (rule sets_seq)
      show "sets E [] (do { w \<leftarrow> getS;
          if g_mic_running w then do { emit (Usleep 100000); ret (Inl ()) } else ret (Inr ()) } :: (unit + unit) io)"
        by (intro sets_seq [OF sets_quiet(2)] sets_if sets_seq [OF sets_quiet(4)] sets_quiet(1))
    qed (use Cons in \<open>auto split: sum.split intro: sets_quiet\<close>)
  qed
  then show ?thesis unfolding poll_sleep_def by (rule sets_seq) (rule sets_quiet)
qed

lemma run_mode:
  "run_state (ExecCommand E mode_cmd) w = (mode, w') \<Longrightarrow> mode = mode_at E (tick w) \<and> tick w' = Suc (tick w) \<and>
     g_mic_running w' = g_mic_running w \<and> muted w' = muted w"
  by (auto simp: ExecCommand_def run_pipe_def mode_at_def read_all_id muted_after_append split: option.splits)

lemma poll_turns_exact:
  assumes "mixer_works E"
  shows "run_state (poll_turns E n flags) w = (flags', w') \<Longrightarrow> g_mic_running w \<Longrightarrow>
     (flags', muted w') = fold call_step (modes_read E (tick w) n flags) (flags, muted w)"
proof (induction n arbitrary: flags w)
  case 0
  then show ?case by auto
next
  case (Suc n)
  obtain mode w1 where 1: "run_state (ExecCommand E mode_cmd) w = (mode, w1)" by fastforce
  obtain fl w2 where 2: "run_state (poll_turn E mode flags) w1 = (fl, w2)" by fastforce
  obtain w3 where 3: "run_state poll_sleep w2 = ((), w3)" by (cases "run_state poll_sleep w2") auto
  note r = run_mode [OF 1] poll_turn_step [OF 2 assms] setsD [OF poll_sleep_sets [of E] 3]
  have "run_state (poll_turns E n fl) w3 = (flags', w')" using Suc.prems 1 2 3 by simp
  from Suc.IH [OF this] r Suc.prems(2)
  have IH: "(flags', muted w') = fold call_step (modes_read E (tick w3) n fl) (fl, muted w3)" by simp
  have w3: "(fl, muted w3) = call_step mode (flags, muted w)" "tick w3 = tick w + 1 + call_cost mode flags"
    "mode = mode_at E (tick w)" using r assms by simp_all
  have "fl = fst (call_step mode (flags, muted w))" using w3(1) by (metis fst_conv)
  then have fl: "fl = fst (call_step mode (flags, False))" by (simp only: call_step_flags [of mode flags "muted w" False])
  have ms: "modes_read E (tick w) (Suc n) flags = mode # modes_read E (tick w3) n fl"
    by (simp only: modes_read.simps Let_def w3(3) [symmetric] w3(2) fl)
  show ?case unfolding ms fold.simps o_apply w3(1) [symmetric] by (rule IH)
qed

lemma run_DiscoverTinymix:
  "run_state (DiscoverTinymix E) w = (b, w') \<Longrightarrow> tick w' = Suc (tick w) \<and> g_mic_running w' = g_mic_running w \<and>
     shown w' = shown w \<and> muted w' = muted w"
  by (auto simp: DiscoverTinymix_def ExecCommand_def run_pipe_def Let_def shown_def muted_after_append
      split: if_splits option.splits)

lemma run_PollLoop:
  assumes "mixer_works E" "g_mic_running w" "run_state (PollLoop E n) w = (flags, w')"
  shows "(flags, muted w') =
    fold call_step (modes_read E (tick w + 1) n (False, False)) ((False, False), muted w)"
proof -
  let ?w0 = "w\<lparr>trace := trace w @ [Setpriority 19]\<rparr>"
  obtain b w1 where 1: "run_state (DiscoverTinymix E) ?w0 = (b, w1)" by fastforce
  let ?w2 = "snd (run_state (do { whenS (\<not> b) (LOGW E ''tinymix not found in PATH! Using default.'');
      LOGI E ''MicFix Engine started. Polling call state reliably at low priority.'' }) w1)"
  have w2: "muted ?w2 = muted w1 \<and> tick ?w2 = tick w1 \<and> g_mic_running ?w2 = g_mic_running w1"
    by (cases b) (simp_all add: run_whenS)
  have "run_state (poll_turns E n (False, False)) ?w2 = (flags, w')"
    using assms(3) 1 by (cases b) (simp_all add: PollLoop_def run_whenS)
  from poll_turns_exact [OF assms(1) this] run_DiscoverTinymix [OF 1] assms(2) w2
  show ?thesis by (simp add: muted_after_append)
qed

text \<open>
  C14. The polling thread refines the call machine: while it runs and the mixer carries out its commands, its two
  flags and the state of the transmission line after \<open>n\<close> turns are those the machine reaches over the
  \<open>n\<close> audio modes that the turns read, each at its own time.
\<close>

theorem PollLoop_refines:
  assumes "mixer_works E" "g_mic_running w" "run_state (PollLoop E n) w = (flags, w')"
  shows "length (modes_read E (tick w + 1) n (False, False)) = n \<and>
    (flags, muted w') = fold call_step (modes_read E (tick w + 1) n (False, False)) ((False, False), muted w)"
proof -
  have "length (modes_read E t n fl) = n" for t fl
    by (induction n arbitrary: t fl) (simp_all add: Let_def)
  then show ?thesis using run_PollLoop [OF assms] by simp
qed

text \<open>
  A device on which the mixer works, in an outgoing call; at tick 22 a second call comes in. The thread runs.
\<close>

definition call_env :: env where
  "call_env = dark_env\<lparr>e_pipe := (\<lambda>t c. Some (if c = mode_cmd then (if t = 22 then ''mMode=1'' else ''mMode=2'') else []))\<rparr>"

definition call_world :: world where
  "call_world = sample_world\<lparr>g_mic_running := True\<rparr>"

lemma mixer_works_call_env: "mixer_works call_env"
proof -
  have "\<not> tinymix_failed (strip_newlines out)" if "out \<in> {''mMode=1'', ''mMode=2'', []}" for out
    using that by (auto simp: tinymix_failed_def strip_newlines_def contains_def)
  then show ?thesis by (simp add: mixer_works_def call_env_def)
qed

lemma call_world_simps [simp]: "g_mic_running call_world" "tick call_world = 0" "trace call_world = []"
  by (simp_all add: call_world_def sample_world_def boot_world_def)

lemma call_modes:
  "\<not> ringing ''mMode=2''" "in_call ''mMode=2''" "ringing ''mMode=1''"
  by (simp_all add: ringing_def in_call_def contains_def)

lemma modes_read_call: "modes_read call_env (Suc 0) 3 (False, False) = [''mMode=2'', ''mMode=1'', ''mMode=2'']"
  by (simp add: numeral_3_eq_3 Let_def mode_at_def call_env_def call_modes)

theorem PollLoop_refines_witness:
  "fst (run_state (PollLoop call_env 3) call_world) = (True, True) \<and>
   muted (snd (run_state (PollLoop call_env 3) call_world))"
  using PollLoop_refines [OF mixer_works_call_env call_world_simps(1) prod.collapse [symmetric], of 3]
  by (simp add: modes_read_call call_modes)

text \<open>Where the machine goes wrong.\<close>

lemma call_step_stays:
  assumes "(\<forall>m\<in>set ms. in_call m \<longrightarrow> ringing m) \<or> (active \<and> (\<forall>m\<in>set ms. ringing m \<or> in_call m))"
  shows "snd (fold call_step ms ((active, True), True))"
proof -
  have missed: "snd (fold call_step ms (fl, True))" if "\<forall>m\<in>set ms. in_call m \<longrightarrow> ringing m" for ms fl
    using that by (induction ms arbitrary: fl) (auto split: prod.splits)
  have waiting: "snd (fold call_step ms ((True, True), True))" if "\<forall>m\<in>set ms. ringing m \<or> in_call m" for ms
    using that by (induction ms) auto
  show ?thesis using assms missed waiting by auto
qed

lemma run_PollLoop_muted:
  assumes "mixer_works E" "g_mic_running w" "run_state (PollLoop E n) w = (flags, w')"
    and "modes_read E (tick w + 1) n (False, False) = ms @ ring # rest" "ringing ring"
    and "fst (fold call_step ms ((False, False), muted w)) = (active, False)"
    and "(\<forall>m\<in>set rest. in_call m \<longrightarrow> ringing m) \<or> (active \<and> (\<forall>m\<in>set rest. ringing m \<or> in_call m))"
  shows "muted w'"
proof -
  obtain m where m: "fold call_step ms ((False, False), muted w) = ((active, False), m)"
    using assms(6) by (metis prod.collapse)
  have "(flags, muted w') = fold call_step rest ((active, True), True)"
    unfolding run_PollLoop [OF assms(1-3)] assms(4) using m assms(5) by simp
  then show ?thesis using call_step_stays [OF assms(7)] by (metis snd_conv)
qed

text \<open>
  C38. Where the machine goes wrong. A ringing that the thread has not seen before mutes the line,
  whatever the modes before it. If no call is connected after it, because nobody answers, the line stays
  muted however long the thread runs on; and if it comes in during another call, the line stays muted as long as
  the phone rings or is in a call, and so for the rest of that call.
\<close>

theorem poll_leaves_muted:
  assumes "mixer_works E" "g_mic_running w" "run_state (PollLoop E n) w = (flags, w')"
    and "modes_read E (tick w + 1) n (False, False) = ms @ ring # rest" "ringing ring"
    and "fst (fold call_step ms ((False, False), muted w)) = (active, False)"
    and "(\<forall>m\<in>set rest. in_call m \<longrightarrow> ringing m) \<or> (active \<and> (\<forall>m\<in>set rest. ringing m \<or> in_call m))"
  shows "muted w'"
  using assms by (rule run_PollLoop_muted)

theorem poll_leaves_muted_witness: "muted (snd (run_state (PollLoop call_env 3) call_world))"
  by (rule poll_leaves_muted [OF mixer_works_call_env call_world_simps(1) prod.collapse [symmetric],
        where ms = "[''mMode=2'']" and ring = "''mMode=1''" and rest = "[''mMode=2'']" and active = True])
    (simp_all add: modes_read_call call_modes)

subsection \<open>The ALSA thread\<close>

text \<open>
  What an operation of this thread does while it goes on: it initialises the hardware \<open>k\<close> times, each time
  with the same commands and a notification.
\<close>

definition init_settings :: "setting list" where
  "init_settings = pre_init_settings @ mic_fix_settings"

definition inits :: "env \<Rightarrow> nat \<Rightarrow> world \<Rightarrow> world \<Rightarrow> bool" where
  "inits E k w w' \<longleftrightarrow> g_tinymix_path w' = g_tinymix_path w \<and>
     pipes (trace w') = pipes (trace w) @ concat (replicate k (map (command (g_tinymix_path w)) init_settings)) \<and>
     shown w' = shown w + k \<and> (mixer_works E \<longrightarrow> muted w' = (k = 0 \<and> muted w))"

lemma inits_zero [simp]: "inits E 0 w w"
  by (simp add: inits_def)

lemma inits_add: "inits E k u v \<Longrightarrow> inits E l v w \<Longrightarrow> inits E (k + l) u w"
  by (auto simp: inits_def replicate_add)

lemma inits_logged [simp]: "inits E 0 w (logged E' l m w)"
  by (simp add: inits_def shown_def)

lemma run_alsa_open:
  assumes "run_state (alsa_open E n) w = (n', w')"
  shows "n' = n + 1 \<and> inits E (if n = 0 then 1 else 0) w w'"
proof (cases "n = 0")
  case True
  let ?v = "logged E INFO ''ALSA INTERCEPT: Primary Capture Stream Opened! (0 ms delay)'' w"
  obtain v1 where 1: "run_state (ApplyPreInit E) ?v = ((), v1)" by (cases "run_state (ApplyPreInit E) ?v") auto
  obtain v2 where 2: "run_state (ApplyMicFix E) v1 = ((), v2)" by (cases "run_state (ApplyMicFix E) v1") auto
  obtain v3 where 3: "run_state ShowNotification v2 = ((), v3)" by (cases "run_state ShowNotification v2") auto
  have "n' = n + 1" "w' = logged E INFO ''Hardware Primed and Ready natively!'' v3"
    using assms 1 2 3 True by (simp_all add: alsa_open_def)
  moreover have "shown ?v = shown w" by (simp add: shown_def)
  moreover have "shown (logged E INFO ''Hardware Primed and Ready natively!'' v3) = shown v3" by (simp add: shown_def)
  ultimately show ?thesis
    using setsD [OF ApplyPreInit_sets 1] setsD [OF ApplyMicFix_sets 2] run_ShowNotification [OF 3] True
    by (simp add: inits_def init_settings_def settings_line)
next
  case False
  have "n + 1 = 1 \<longleftrightarrow> n = 0" by simp
  then show ?thesis using assms False by (auto simp: alsa_open_def)
qed

lemma run_alsa_close:
  assumes "run_state (alsa_close E n) w = (n', w')"
  shows "n' = (if sint n > 0 then n - 1 else n) \<and> inits E 0 w w'"
  using assms by (auto simp: alsa_close_def Let_def split: if_splits)

text \<open>
  The streams that are open, counted without a width, and the times the first one was opened. A mask
  can hold an open and a close.
\<close>

definition stream_step :: "u32 \<Rightarrow> nat \<times> nat \<Rightarrow> nat \<times> nat" where
  "stream_step ev_mask s =
     (let (n, k) = (if ev_mask AND IN_OPEN \<noteq> 0 then (fst s + 1, if fst s = 0 then snd s + 1 else snd s) else s)
      in if ev_mask AND (IN_CLOSE_WRITE OR IN_CLOSE_NOWRITE) \<noteq> 0 then (n - 1, k) else (n, k))"

lemma sint_of_nat: "n < 2 ^ 31 \<Longrightarrow> sint (of_nat n :: i32) = int n"
proof -
  assume n: "n < 2 ^ 31"
  have "sint (word_of_int (int n) :: i32) = signed_take_bit 31 (int n)"
    by (simp only: sint_sbintrunc') simp
  also have "\<dots> = int n" using n by (intro signed_take_bit_int_eq_self) simp_all
  finally show ?thesis by simp
qed

lemma of_nat_zero: "n < 2 ^ 31 \<Longrightarrow> (of_nat n :: i32) = 0 \<longleftrightarrow> n = 0"
  using sint_of_nat [of n] by auto

lemma run_alsa_event:
  assumes "run_state (alsa_event E ev_mask (of_nat n)) w = (r, w')" "n < 2 ^ 31 - 1"
  shows "\<exists>j. stream_step ev_mask (n, k) = (fst (stream_step ev_mask (n, k)), k + j) \<and>
    r = Inl (of_nat (fst (stream_step ev_mask (n, k)))) \<and> inits E j w w' \<and> fst (stream_step ev_mask (n, k)) \<le> n + 1"
proof -
  let ?o = "ev_mask AND IN_OPEN \<noteq> 0" and ?c = "ev_mask AND (IN_CLOSE_WRITE OR IN_CLOSE_NOWRITE) \<noteq> 0"
  obtain c1 w1 where 1: "run_state (if ?o then alsa_open E (of_nat n) else ret (of_nat n)) w = (c1, w1)" by fastforce
  define n1 where "n1 = (if ?o then n + 1 else n)"
  define j where "j = (if ?o \<and> n = 0 then 1 else 0 :: nat)"
  have o: "c1 = of_nat n1" "inits E j w w1"
    using 1 run_alsa_open [of E "of_nat n" w c1 w1] of_nat_zero [of n] assms(2)
    by (auto simp: n1_def j_def add.commute split: if_splits)
  obtain c2 w2 where 2: "run_state (if ?c then alsa_close E c1 else ret c1) w1 = (c2, w2)" by fastforce
  have n1: "n1 < 2 ^ 31" using assms(2) by (simp add: n1_def)
  have "of_nat (n1 - 1) = (if n1 > 0 then of_nat n1 - 1 else (of_nat n1 :: i32))"
    by (cases n1) simp_all
  then have c: "c2 = of_nat (if ?c then n1 - 1 else n1)" "inits E 0 w1 w2"
    using 2 run_alsa_close [of E c1 w1 c2 w2] sint_of_nat [OF n1] o(1) by (auto split: if_splits)
  have "r = Inl c2" "w' = w2" using assms(1) 1 2 by (simp_all add: alsa_event_def)
  moreover have "inits E j w w2" using inits_add [OF o(2) c(2)] by simp
  moreover have "stream_step ev_mask (n, k) = (if ?c then n1 - 1 else n1, k + j)"
    by (simp add: stream_step_def n1_def j_def Let_def)
  ultimately show ?thesis using c(1) by (intro exI [of _ j]) (auto simp: n1_def)
qed

lemma alsa_events_count:
  "run_state (loop (alsa_event E) masks (of_nat n)) w = (r, w') \<Longrightarrow> n + length masks < 2 ^ 31 - 1 \<Longrightarrow>
     \<exists>j. fold stream_step masks (n, k) = (fst (fold stream_step masks (n, k)), k + j) \<and>
       r = Inl (of_nat (fst (fold stream_step masks (n, k)))) \<and> inits E j w w'"
proof (induction masks arbitrary: n k w)
  case Nil
  then show ?case by (intro exI [of _ 0]) auto
next
  case (Cons m ms)
  obtain r1 w1 where 1: "run_state (alsa_event E m (of_nat n)) w = (r1, w1)" by fastforce
  obtain n1 k1 where s: "stream_step m (n, k) = (n1, k1)" by fastforce
  obtain j where e: "k1 = k + j" "r1 = Inl (of_nat n1)" "inits E j w w1" "n1 \<le> n + 1"
    using run_alsa_event [OF 1, of k] Cons.prems(2) s by auto
  have "run_state (loop (alsa_event E) ms (of_nat n1)) w1 = (r, w')" using Cons.prems(1) 1 e(2) by simp
  from Cons.IH [OF this, of k1] Cons.prems(2) e(4) obtain i where
    i: "fold stream_step ms (n1, k1) = (fst (fold stream_step ms (n1, k1)), k1 + i)"
    "r = Inl (of_nat (fst (fold stream_step ms (n1, k1))))" "inits E i w1 w'" by auto
  have "fold stream_step (m # ms) (n, k) = fold stream_step ms (n1, k1)" using s by simp
  then show ?case using i inits_add [OF e(3) i(3)] e(1) by (intro exI [of _ "j + i"]) (simp add: add.assoc)
qed

text \<open>
  C29. The stream counter: over the events of one buffer the counter is the number of open streams;
  each time the first stream is opened the hardware is initialised, and the mixer commands run
  are those of exactly so many initialisations, each the pre-initialisation followed by the routes of
  the microphone, with as many notifications.
\<close>

theorem alsa_events_exact:
  assumes "run_state (loop (alsa_event E) masks 0) w = (r, w')" "length masks < 2 ^ 31 - 1"
    and "fold stream_step masks (0, 0) = (streams, openings)"
  shows "r = Inl (of_nat streams) \<and> shown w' = shown w + openings \<and>
    pipes (trace w') = pipes (trace w) @
      concat (replicate openings (map (command (g_tinymix_path w)) (pre_init_settings @ mic_fix_settings)))"
  using alsa_events_count [of E masks 0 w r w' 0] assms by (auto simp: inits_def init_settings_def)

theorem alsa_events_exact_witness:
  "length (pipes (trace (snd (run_state (loop (alsa_event dark_env)
     [IN_OPEN, IN_OPEN, IN_CLOSE_WRITE, IN_CLOSE_WRITE, IN_OPEN] 0) sample_world)))) = 40"
proof -
  let ?masks = "[IN_OPEN, IN_OPEN, IN_CLOSE_WRITE, IN_CLOSE_WRITE, IN_OPEN]"
  obtain r w where run: "run_state (loop (alsa_event dark_env) ?masks 0) sample_world = (r, w)" by (rule that) (rule prod.collapse [symmetric])
  have count: "fold stream_step ?masks (0, 0) = (1, 2)"
    by (simp add: stream_step_def IN_OPEN_def IN_CLOSE_WRITE_def IN_CLOSE_NOWRITE_def)
  have "pipes (trace w) = pipes (trace sample_world) @ concat (replicate 2
      (map (command (g_tinymix_path sample_world)) (pre_init_settings @ mic_fix_settings)))"
    using alsa_events_exact [OF run _ count] by simp
  then have "length (pipes (trace w)) = 40"
    by (simp add: settings_line numeral_2_eq_2 sample_world_def boot_world_def)
  then show ?thesis unfolding run snd_conv .
qed

text \<open>The line over the whole thread: it is muted only if it was before and nothing was initialised.\<close>

definition unmutes :: "env \<Rightarrow> world \<Rightarrow> world \<Rightarrow> bool" where
  "unmutes E s t \<longleftrightarrow> shown s \<le> shown t \<and> (mixer_works E \<longrightarrow> muted t \<longrightarrow> muted s \<and> shown t = shown s)"

interpretation unmutes: step_order "unmutes E" for E
  by unfold_locales (auto simp: unmutes_def)

lemma inits_unmutes: "inits E k w w' \<Longrightarrow> unmutes E w w'"
  by (auto simp: inits_def unmutes_def)

lemma alsa_event_unmutes: "pres (unmutes E) (alsa_event E m c)"
proof -
  have "pres (unmutes E) (alsa_open E c)" "pres (unmutes E) (alsa_close E c)" for c
    by (rule presI, drule run_alsa_open run_alsa_close, elim conjE, erule inits_unmutes)+
  then show ?thesis unfolding alsa_event_def by (intro unmutes.p_rules)
qed

lemma alsa_turns_unmutes: "pres (unmutes E) (alsa_turns E ins c)"
proof (induction ins arbitrary: c)
  case Nil
  show ?case by (simp add: unmutes.p_return)
next
  case (Cons x xs)
  then show ?case
    by (cases x; simp only: alsa_turns.simps alsa_input.case)
      (intro unmutes.p_rules alsa_event_unmutes; assumption)+
qed

lemma run_AlsaInotifyLoop:
  assumes "run_state (AlsaInotifyLoop E ins) w = (n, w')" 
  shows "unmutes E w w'"
proof -
  have "pres (unmutes E) (DiscoverTinymix E)"
    by (rule presI) (auto dest: run_DiscoverTinymix simp: unmutes_def)
  moreover have "pres (unmutes E) (Log E l m)" for l m
    by (rule presI) (auto simp: unmutes_def shown_def)
  ultimately have "pres (unmutes E) (AlsaInotifyLoop E ins)"
    unfolding AlsaInotifyLoop_def by (intro unmutes.p_rules alsa_turns_unmutes)
  then show ?thesis using assms by (rule pres_run)
qed

text \<open>
  C18. As long as the mixer carries out its commands, the ALSA thread never leaves the line muted:
  whatever events arrive, and wherever it is stopped, a line that was not muted before is not
  muted after, and neither is any line once the thread has initialised the hardware.
\<close>

theorem AlsaInotifyLoop_unmuted:
  assumes "mixer_works E" "run_state (AlsaInotifyLoop E ins) w = (n, w')" "\<not> muted w \<or> shown w < shown w'"
  shows "\<not> muted w'"
  using run_AlsaInotifyLoop [OF assms(2)] assms(1,3) by (auto simp: unmutes_def)

text \<open>The thread runs, the line is muted, and one stream is opened.\<close>

definition muted_world :: world where
  "muted_world = call_world\<lparr>trace := [Mixer ''Voice Tx Mute'' [''1'', ''1'', ''1'']]\<rparr>"

definition open_event :: "u8 list" where
  "open_event = [1, 0, 0, 0, 0x20, 0, 0, 0, 0, 0, 0, 0, 0, 0, 0, 0]"

lemma shown_muted_world:
  "shown (snd (run_state (AlsaInotifyLoop call_env [ReadBytes open_event]) muted_world)) = 1"
proof -
  let ?v = "logged call_env INFO ''Native ALSA Hooking Active! (0% CPU Event-Driven Mode)'' muted_world"
  obtain b v where 1: "run_state (DiscoverTinymix call_env) ?v = (b, v)" by fastforce
  have v: "g_mic_running v" "shown v = 0"
    using run_DiscoverTinymix [OF 1] by (simp_all add: muted_world_def shown_def)
  have m: "event_masks open_event = [IN_OPEN]" by code_simp
  obtain r u where 2: "run_state (loop (alsa_event call_env) [IN_OPEN] 0) v = (r, u)" by fastforce
  have "stream_step IN_OPEN (0, 0) = (1, 1)"
    by (simp add: stream_step_def IN_OPEN_def IN_CLOSE_WRITE_def IN_CLOSE_NOWRITE_def)
  then have u: "r = Inl 1" "shown u = 1" using alsa_events_count [of call_env "[IN_OPEN]" 0 v r u 0] 2 v(2)
    by (auto simp: inits_def)
  have "open_event \<noteq> []" by (simp add: open_event_def)
  then have "run_state (AlsaInotifyLoop call_env [ReadBytes open_event]) muted_world = (1, u)"
    using 1 2 u(1) v(1) m unfolding AlsaInotifyLoop_def by (simp del: loop.simps)
  then show ?thesis using u(2) by simp
qed

theorem AlsaInotifyLoop_unmuted_witness:
  "muted muted_world \<and> \<not> muted (snd (run_state (AlsaInotifyLoop call_env [ReadBytes open_event]) muted_world))"
proof
  show "muted muted_world" by (simp add: muted_world_def)
  show "\<not> muted (snd (run_state (AlsaInotifyLoop call_env [ReadBytes open_event]) muted_world))"
    by (rule AlsaInotifyLoop_unmuted [OF mixer_works_call_env prod.collapse [symmetric]])
      (simp add: shown_muted_world shown_def [of muted_world], simp add: muted_world_def)
qed

end
