(* ===== verification/Logger_Correct.thy ===== *)
theory Logger_Correct
  imports Diagnostics Samples
begin

section \<open>The log and the batch accounting\<close>

text \<open>
  What a log call writes, the rotation and the bound it gives, the purge at the start, and the
  decision taken at the end of a batch.
\<close>

subsection \<open>Writing and rotating\<close>

definition log_text :: "log_state \<Rightarrow> string" where
  "log_text s = (case log_files s (log_path s) of None \<Rightarrow> [] | Some (txt, _) \<Rightarrow> txt)"

lemma log_size_text: "log_size s = length (log_text s)"
  by (simp add: log_size_def log_text_def split: option.split)

definition kept_text :: "log_state \<Rightarrow> string option" where
  "kept_text s = map_option fst (log_files s (old_path (log_path s)))"

text \<open>The system calls of the logger work.\<close>

definition log_works :: "env \<Rightarrow> bool" where
  "log_works E \<longleftrightarrow> (\<forall>t op. e_log_ok E t op)"

lemma log_rotate_run:
  assumes "log_works E" "log_open s"
  shows "log_open (log_rotate E s)"
    "log_size s \<le> log_max_size s \<Longrightarrow> log_text (log_rotate E s) = log_text s \<and> kept_text (log_rotate E s) = kept_text s"
    "log_max_size s < log_size s \<Longrightarrow> log_text (log_rotate E s) = [] \<and> kept_text (log_rotate E s) = Some (log_text s)"
  using assms
  by (auto simp: log_works_def log_rotate_def log_fopen_def log_size_def log_text_def kept_text_def Let_def
      split: option.splits)

lemma log_append_run:
  assumes "log_open s"
  shows "log_open (log_append E l m s)" "log_text (log_append E l m s) = log_text s @ log_line E (log_clock s) l m"
    "kept_text (log_append E l m s) = kept_text s" "log_path (log_append E l m s) = log_path s"
    "log_max_size (log_append E l m s) = log_max_size s"
  using assms by (simp_all add: log_append_def log_text_def kept_text_def)

lemma Log_run:
  assumes "log_works E" "log_open (w_log w)" "run_state (Log E l m) w = (u, w')"
    and "\<not> (l = DEBUG \<and> \<not> logging_debug (g_config w))"
  shows "log_open (w_log w') \<and> log_clock (w_log w') = Suc (log_clock (w_log w)) \<and>
    (log_text (w_log w'), kept_text (w_log w')) =
      (if log_max_size (w_log w) < log_size (w_log w)
       then (log_line E (Suc (log_clock (w_log w))) l m, Some (log_text (w_log w)))
       else (log_text (w_log w) @ log_line E (Suc (log_clock (w_log w))) l m, kept_text (w_log w)))"
proof -
  let ?r = "log_rotate E (w_log w)"
  have w': "w_log w' = log_append E l m ?r"
    using assms(2-4) by (auto simp: Log_def simp del: run_Log)
  have clock: "log_clock ?r = Suc (log_clock (w_log w))"
    by (simp add: log_rotate_def log_fopen_def Let_def)
  note rot = log_rotate_run [OF assms(1,2)]
  show ?thesis
    using log_append_run [OF rot(1), of E l m] rot(2,3) clock
    by (auto simp: w' not_less log_append_def)
qed

text \<open>
  A log call appends one line to an open log; when the file has grown beyond the limit before,
  its text is kept under \<open>.old\<close>, in place of the text kept there, and the line starts a new file, so
  that the file never exceeds the limit by more than the line. A debug message without the debug
  setting writes nothing.
\<close>

theorem Log_exact:
  assumes "log_works E" "log_open (w_log w)" "run_state (Log E level msg) w = (u, w')"
  shows "if level = DEBUG \<and> \<not> logging_debug (g_config w) then w' = w
    else \<exists>line. line = log_line E (Suc (log_clock (w_log w))) level msg \<and> log_open (w_log w') \<and>
      log_text (w_log w') = (if log_max_size (w_log w) < log_size (w_log w) then line else log_text (w_log w) @ line) \<and>
      kept_text (w_log w') = (if log_max_size (w_log w) < log_size (w_log w) then Some (log_text (w_log w)) else kept_text (w_log w)) \<and>
      log_size (w_log w') \<le> log_max_size (w_log w) + length line"
proof (cases "level = DEBUG \<and> \<not> logging_debug (g_config w)")
  case True
  then show ?thesis using assms(3) by (simp add: Log_def del: run_Log)
next
  case False
  let ?s = "w_log w"
  note run = Log_run [OF assms False]
  have "log_size (w_log w') \<le> log_max_size ?s + length (log_line E (Suc (log_clock ?s)) level msg)"
    using run by (auto simp: log_size_text split: if_splits)
  then show ?thesis using False run by (auto split: if_splits)
qed

definition full_log_world :: world where
  "full_log_world = sample_world\<lparr>w_log := \<lparr>log_open = True, log_path = ''/l'', log_max_size = 3,
     log_files = [''/l'' \<mapsto> (''abcd'', 0)], log_clock = 0\<rparr>\<rparr>"

theorem Log_exact_witness:
  "kept_text (w_log (snd (run_state (Log dark_env INFO ''x'') full_log_world))) = Some ''abcd''"
proof -
  have "log_works dark_env" "log_open (w_log full_log_world)" "log_text (w_log full_log_world) = ''abcd''"
    "log_size (w_log full_log_world) = 4" "log_max_size (w_log full_log_world) = 3"
    by (simp_all add: log_works_def dark_env_def sample_env_def full_log_world_def log_text_def log_size_def)
  then show ?thesis using Log_exact [OF _ _ prod.collapse [symmetric], of dark_env full_log_world INFO "''x''"] by auto
qed

subsection \<open>The purge\<close>

text \<open>
  The start of the logger: an open log stays as it is; otherwise the log and its predecessor are
  deleted exactly when the log was last written more than three days ago, and the log opened then
  has the text it had before in all other cases.
\<close>

lemma Initialize_purges:
  assumes "log_works E" "\<not> log_open (w_log w)" "run_state (Initialize E path n) w = (ok, w')"
  shows "ok \<and> log_open (w_log w') \<and>
    (case log_files (w_log w) path of
       None \<Rightarrow> log_text (w_log w') = [] \<and> log_files (w_log w') (old_path path) = log_files (w_log w) (old_path path)
     | Some (txt, mtime) \<Rightarrow>
         if 3 * 24 * 60 * 60 < e_wall E (Suc (log_clock (w_log w))) - mtime
         then log_text (w_log w') = [] \<and> log_files (w_log w') (old_path path) = None
         else log_text (w_log w') = txt \<and> log_files (w_log w') (old_path path) = log_files (w_log w) (old_path path))"
  using assms
  by (cases "log_files (w_log w) (old_path path)")
    (auto simp: Initialize_def Initialize_log_def log_purge_def log_unlink_def log_fopen_def log_works_def log_text_def purge_seconds_def Let_def
      split: option.splits prod.splits if_splits)

subsection \<open>The end of a batch\<close>

definition within_rss :: "env \<Rightarrow> nat \<Rightarrow> bool" where
  "within_rss E t \<longleftrightarrow> (case statm_rss_kb (e_page_size E) (e_text E t ''/proc/self/statm'') of
     None \<Rightarrow> True | Some kb \<Rightarrow> uint kb \<le> 51200)"

lemma run_CheckSelfLimits:
  "run_state (CheckSelfLimits E) w = (r, w') \<Longrightarrow> r = within_rss E (Suc (tick w)) \<and>
     g_total_bytes_freed_run w' = g_total_bytes_freed_run w"
  by (auto simp: CheckSelfLimits_def GetCurrentUsage_def read_text_def within_rss_def Let_def word_less_def
      split: option.splits if_splits)

text \<open>
  C31. The budget of a run: a batch ends with \<open>true\<close> exactly when the bytes freed so far, the batch
  included, do not exceed the configured megabytes and the daemon's resident memory is at most 50 MB.
  A negative limit is practically none.
\<close>

theorem EndBatch_exact:
  assumes "run_state (EndBatch E files bytes) w = (r, w')"
  shows "g_total_bytes_freed_run w' = g_total_bytes_freed_run w + bytes \<and>
    (r \<longleftrightarrow> uint (g_total_bytes_freed_run w + bytes) \<le>
        (if 0 \<le> sint (max_cleanup_mb_per_run (g_config w)) then sint (max_cleanup_mb_per_run (g_config w)) * 1048576
         else 2 ^ 64 + sint (max_cleanup_mb_per_run (g_config w)) * 1048576) \<and>
      within_rss E (tick w + 2))"
proof -
  let ?m = "sint (max_cleanup_mb_per_run (g_config w))"
  let ?t = "g_total_bytes_freed_run w + bytes"
  have limit: "uint (cleanup_limit (g_config w)) = (if 0 \<le> ?m then ?m * 1048576 else 2 ^ 64 + ?m * 1048576)"
    unfolding cleanup_limit_def by (rule uint_mb)
  obtain v where v: "tick v = Suc (tick w)" "g_total_bytes_freed_run v = ?t"
    "run_state (EndBatch E files bytes) w =
      (if ?t > cleanup_limit (g_config w) then (False, logged E INFO ''Reached max cleanup MB for this run.'' v)
       else run_state (CheckSelfLimits E) v)"
    by (rule run_EndBatch [of w bytes E files]) blast
  have "g_total_bytes_freed_run w' = ?t \<and>
      (r \<longleftrightarrow> uint ?t \<le> uint (cleanup_limit (g_config w)) \<and> within_rss E (tick w + 2))"
  proof (cases "?t > cleanup_limit (g_config w)")
    case True
    then show ?thesis using assms v by (auto simp: word_less_def)
  next
    case False
    then have "run_state (CheckSelfLimits E) v = (r, w')" using assms v(3) by simp
    from run_CheckSelfLimits [OF this] show ?thesis using False v(1,2) by (auto simp: word_less_def)
  qed
  then show ?thesis unfolding limit .
qed

theorem EndBatch_exact_witness:
  "\<not> fst (run_state (EndBatch dark_env 1 (2049 * 1048576)) sample_world)"
proof -
  have "g_total_bytes_freed_run sample_world = 0" "sint (max_cleanup_mb_per_run (g_config sample_world)) = 2048"
    by (simp_all add: sample_world_def boot_world_def default_config_def)
  then show ?thesis using EndBatch_exact [OF prod.collapse [symmetric], of dark_env 1 "2049 * 1048576" sample_world] by simp
qed

end
