(* ===== verification/Threads.thy ===== *)
theory Threads
  imports License MicFixer_Correct Logger_Correct
begin

section \<open>Two threads\<close>

text \<open>
  The microphone thread runs beside the event loop. They share no variable but those of the logger,
  whose calls hold a mutex, so an execution of both is an interleaving of log calls on one log and an
  interleaving of two traces of effects. The log is a state machine whose steps are whole log calls.
  For the effects, each property of one thread is shown not to look at what the other does.
\<close>

subsection \<open>The log\<close>

type_synonym log_call = "LogLevel \<times> string"

text \<open>
  The calls each thread still has to make, the event loop's first, and the world. Between the calls
  anything may happen that leaves the log and the configuration alone.
\<close>

inductive log_step :: "env \<Rightarrow> (log_call list \<times> log_call list) \<times> world \<Rightarrow> (log_call list \<times> log_call list) \<times> world \<Rightarrow> bool"
  for E :: env where
  main_logs: "run_state (Log E l m) w = ((), w') \<Longrightarrow> log_step E (((l, m) # xs, ys), w) ((xs, ys), w')"
| thread_logs: "run_state (Log E l m) w = ((), w') \<Longrightarrow> log_step E ((xs, (l, m) # ys), w) ((xs, ys), w')"
| elsewhere: "w_log w' = w_log w \<Longrightarrow> g_config w' = g_config w \<Longrightarrow> log_step E (p, w) (p, w')"

text \<open>The lines of a sequence of calls from clock \<open>t\<close> on.\<close>

fun call_lines :: "env \<Rightarrow> bool \<Rightarrow> nat \<Rightarrow> log_call list \<Rightarrow> string list" where
  "call_lines E debug t [] = []"
| "call_lines E debug t ((l, m) # cs) =
     (if l = DEBUG \<and> \<not> debug then call_lines E debug t cs
      else log_line E (Suc t) l m # call_lines E debug (Suc t) cs)"

text \<open>
  The log holds the text and lines \<open>B\<close> but for whole ones at the start; what is kept under
  \<open>.old\<close> comes just before.
\<close>

definition holds :: "string option \<Rightarrow> string list \<Rightarrow> log_state \<Rightarrow> bool" where
  "holds kept B s \<longleftrightarrow> (\<exists>i j. i \<le> j \<and> j < length B \<and> log_text s = concat (drop j B) \<and>
     kept_text s = (if j = 0 then kept else Some (concat (take (j - i) (drop i B)))))"

lemma holds_append:
  assumes "holds kept ((t @ line) # ls) s"
  shows "holds kept (t # line # ls) s"
proof -
  obtain i j where ij: "i \<le> j" "j < length ((t @ line) # ls)" "log_text s = concat (drop j ((t @ line) # ls))"
    "kept_text s = (if j = 0 then kept else Some (concat (take (j - i) (drop i ((t @ line) # ls)))))"
    using assms unfolding holds_def by blast
  show ?thesis
    unfolding holds_def
    by (intro exI [of _ "if i = 0 then 0 else Suc i"] exI [of _ "if j = 0 then 0 else Suc j"])
      (use ij in \<open>cases i; cases j; auto\<close>)
qed

lemma holds_rotate:
  assumes "holds (Some t) (line # ls) s"
  shows "holds kept (t # line # ls) s"
proof -
  obtain i j where ij: "i \<le> j" "j < length (line # ls)" "log_text s = concat (drop j (line # ls))"
    "kept_text s = (if j = 0 then Some t else Some (concat (take (j - i) (drop i (line # ls)))))"
    using assms unfolding holds_def by blast
  show ?thesis
    unfolding holds_def
    by (intro exI [of _ "if j = 0 then 0 else Suc i"] exI [of _ "Suc j"]) (use ij in \<open>cases j; auto\<close>)
qed


lemma Log_call:
  assumes "log_works E" "log_open (w_log w)" "run_state (Log E l m) w = ((), w')"
  shows "log_open (w_log w') \<and> g_config w' = g_config w \<and>
    (holds (kept_text (w_log w')) (log_text (w_log w') # call_lines E (logging_debug (g_config w)) (log_clock (w_log w')) cs) s \<longrightarrow>
     holds (kept_text (w_log w)) (log_text (w_log w) # call_lines E (logging_debug (g_config w)) (log_clock (w_log w)) ((l, m) # cs)) s)"
proof (cases "l = DEBUG \<and> \<not> logging_debug (g_config w)")
  case True
  then have "w' = w" using assms(3) by (simp add: Log_def del: run_Log)
  then show ?thesis using assms(2) True by simp
next
  case False
  have "g_config w' = g_config w" using assms(3) by auto
  then show ?thesis
    using False Log_run [OF assms False] by (auto intro: holds_append holds_rotate split: if_splits)
qed

lemma log_run:
  assumes "log_works E" "(log_step E)\<^sup>*\<^sup>* (p, w) (p', w')" "log_open (w_log w)"
  shows "\<exists>us vs cs. fst p = us @ fst p' \<and> snd p = vs @ snd p' \<and> cs \<in> shuffles us vs \<and>
    holds (kept_text (w_log w)) (log_text (w_log w) # call_lines E (logging_debug (g_config w)) (log_clock (w_log w)) cs)
      (w_log w')"
  using assms(2,3)
proof (induction "(p, w)" arbitrary: p w rule: converse_rtranclp_induct)
  case base
  have "holds (kept_text (w_log w')) [log_text (w_log w')] (w_log w')"
    unfolding holds_def by (intro exI [of _ 0]) simp
  then show ?case by (intro exI [of _ "[]"]) simp
next
  case (step q)
  obtain p1 w1 where q: "q = (p1, w1)" by fastforce
  show ?case
    using step.hyps(1) unfolding q
  proof (cases rule: log_step.cases)
    case (main_logs l m xs ys)
    then have run: "run_state (Log E l m) w = ((), w1)" by simp
    note c = Log_call [OF assms(1) step.prems run]
    obtain us vs cs where r: "xs = us @ fst p'" "ys = vs @ snd p'" "cs \<in> shuffles us vs"
      "holds (kept_text (w_log w1)) (log_text (w_log w1) #
         call_lines E (logging_debug (g_config w1)) (log_clock (w_log w1)) cs) (w_log w')"
      using step.hyps(3) [OF q] c main_logs by auto
    show ?thesis
      by (intro exI [of _ "(l, m) # us"] exI [of _ vs] exI [of _ "(l, m) # cs"])
        (use c r main_logs in \<open>auto intro: Cons_in_shuffles_leftI\<close>)
  next
    case (thread_logs l m xs ys)
    then have run: "run_state (Log E l m) w = ((), w1)" by simp
    note c = Log_call [OF assms(1) step.prems run]
    obtain us vs cs where r: "xs = us @ fst p'" "ys = vs @ snd p'" "cs \<in> shuffles us vs"
      "holds (kept_text (w_log w1)) (log_text (w_log w1) #
         call_lines E (logging_debug (g_config w1)) (log_clock (w_log w1)) cs) (w_log w')"
      using step.hyps(3) [OF q] c thread_logs by auto
    show ?thesis
      by (intro exI [of _ us] exI [of _ "(l, m) # vs"] exI [of _ "(l, m) # cs"])
        (use c r thread_logs in \<open>auto intro: Cons_in_shuffles_rightI\<close>)
  next
    case elsewhere
    then show ?thesis using step.hyps(3) [OF q] step.prems by simp
  qed
qed


text \<open>
  C20. The log of two threads: whatever the interleaving, no line is torn, lost in the middle or out of
  order. The calls made so far are an interleaving of an initial part of each thread's calls; the text
  before them and one line for each call, in that order, give the blocks \<open>B\<close>; the log holds the last
  blocks of them, and \<open>.old\<close>, if the log was rotated, the blocks just before. Only whole blocks from
  the start are gone.
\<close>

theorem log_of_two_threads:
  assumes "log_works E" "log_open (w_log w)" "(log_step E)\<^sup>*\<^sup>* ((xs, ys), w) ((xs', ys'), w')"
  shows "\<exists>us vs cs i j B. xs = us @ xs' \<and> ys = vs @ ys' \<and> cs \<in> shuffles us vs \<and>
    B = log_text (w_log w) # call_lines E (logging_debug (g_config w)) (log_clock (w_log w)) cs \<and>
    i \<le> j \<and> j < length B \<and> log_text (w_log w') = concat (drop j B) \<and>
    kept_text (w_log w') = (if j = 0 then kept_text (w_log w) else Some (concat (take (j - i) (drop i B))))"
proof -
  let ?B = "\<lambda>cs. log_text (w_log w) # call_lines E (logging_debug (g_config w)) (log_clock (w_log w)) cs"
  obtain us vs cs where 1: "xs = us @ xs'" "ys = vs @ ys'" "cs \<in> shuffles us vs"
    "holds (kept_text (w_log w)) (?B cs) (w_log w')"
    using log_run [OF assms(1,3,2)] unfolding fst_conv snd_conv by (elim exE conjE) (rule that)
  obtain i j where 2: "i \<le> j" "j < length (?B cs)" "log_text (w_log w') = concat (drop j (?B cs))"
    "kept_text (w_log w') = (if j = 0 then kept_text (w_log w) else Some (concat (take (j - i) (drop i (?B cs)))))"
    using 1(4) unfolding holds_def by (elim exE conjE) (rule that)
  show ?thesis
    by (rule exI [of _ us], rule exI [of _ vs], rule exI [of _ cs], rule exI [of _ i], rule exI [of _ j],
        rule exI [of _ "?B cs"], intro conjI refl 1(1-3) 2)
qed

theorem log_of_two_threads_witness:
  "\<exists>cs i j B. cs \<in> shuffles [(INFO, ''x'')] [(WARNING, ''y'')] \<and>
    B = ''abcd'' # call_lines dark_env False 0 cs \<and> i \<le> j \<and> j < length B \<and>
    log_text (w_log (logged dark_env INFO ''x'' (logged dark_env WARNING ''y'' full_log_world))) = concat (drop j B)"
proof -
  let ?w = "logged dark_env WARNING ''y'' full_log_world"
  have 1: "log_step dark_env (([(INFO, ''x'')], [(WARNING, ''y'')]), full_log_world) (([(INFO, ''x'')], []), ?w)"
    and 2: "log_step dark_env (([(INFO, ''x'')], []), ?w) (([], []), logged dark_env INFO ''x'' ?w)"
    by (rule thread_logs main_logs, simp)+
  have "log_works dark_env" "log_open (w_log full_log_world)" "log_text (w_log full_log_world) = ''abcd''"
    "log_clock (w_log full_log_world) = 0" "\<not> logging_debug (g_config full_log_world)"
    by (simp_all add: log_works_def dark_env_def sample_env_def full_log_world_def log_text_def sample_world_def
        boot_world_def default_config_def)
  note w = this
  have steps: "(log_step dark_env)\<^sup>*\<^sup>* (([(INFO, ''x'')], [(WARNING, ''y'')]), full_log_world)
      (([], []), logged dark_env INFO ''x'' ?w)"
    using 1 2 by (meson r_into_rtranclp rtranclp.rtrancl_into_rtrancl)
  obtain us vs cs i j B where r: "[(INFO, ''x'')] = us @ []" "[(WARNING, ''y'')] = vs @ []" "cs \<in> shuffles us vs"
    "B = log_text (w_log full_log_world) # call_lines dark_env (logging_debug (g_config full_log_world))
       (log_clock (w_log full_log_world)) cs"
    "i \<le> j" "j < length B" "log_text (w_log (logged dark_env INFO ''x'' ?w)) = concat (drop j B)"
    using log_of_two_threads [OF w(1,2) steps] by (elim exE conjE) (rule that)
  show ?thesis
    by (rule exI [of _ cs], rule exI [of _ i], rule exI [of _ j], rule exI [of _ B]) (use r w in simp)
qed

subsection \<open>What a microphone thread does\<close>

text \<open>A preorder that the commands of the thread move along; the whole thread, in either form, then does.\<close>

locale thread_order = step_order R for R :: "world \<Rightarrow> world \<Rightarrow> bool" +
  fixes E :: env
  assumes report: "pres R (Log E l m)"
    and pipe: "pres R (run_pipe E c)"
    and mixer: "pres R (emit (Mixer control vs))"
    and nap: "pres R (emit (Usleep n))"
    and nice: "pres R (emit (Setpriority p))"
    and notify: "pres R ShowNotification"
    and tool: "pres R (modS (\<lambda>w. w\<lparr>g_tinymix_path := path\<rparr>))"
begin

lemma command: "pres R (ExecCommand E c)"
  unfolding ExecCommand_def by (intro p_rules pipe)

lemma tinymix: "pres R (RunTinymix E c a b d)"
  unfolding RunTinymix_def Let_def by (intro p_rules report mixer command)

lemma hardware: "pres R (ApplyPreInit E)" "pres R (ApplyMicFix E)" "pres R (DiscoverTinymix E)"
  unfolding ApplyPreInit_def ApplyMicFix_def route_def DiscoverTinymix_def Let_def
  by (intro p_rules tinymix command tool)+

lemma polling: "pres R (PollLoop E n)"
proof -
  have "pres R (poll_turns E n flags)" for flags
  proof (induction n arbitrary: flags)
    case 0
    show ?case by (simp add: p_return)
  next
    case (Suc n)
    then show ?case
      unfolding poll_turns.simps poll_turn_def poll_sleep_def Let_def
      by (intro p_rules report command hardware notify nap)
  qed
  then show ?thesis unfolding PollLoop_def by (intro p_rules report hardware nice)
qed

lemma hooking: "pres R (AlsaInotifyLoop E ins)"
proof -
  have event: "pres R (alsa_event E m c)" for m c
    unfolding alsa_event_def alsa_open_def alsa_close_def Let_def by (intro p_rules report hardware notify)
  have "pres R (alsa_turns E ins c)" for c
  proof (induction ins arbitrary: c)
    case Nil
    show ?case by (simp add: p_return)
  next
    case (Cons x xs)
    then show ?case
      unfolding alsa_turns.simps by (cases x; simp only: alsa_input.case; intro p_rules event; assumption?)
  qed
  then show ?thesis unfolding AlsaInotifyLoop_def by (intro p_rules report hardware)
qed

lemma thread: "pres R (poll_thread_body E t n ins)"
  unfolding poll_thread_body_def by (cases t; simp only: poll_thread.case; intro p_rules polling hooking)

end

definition thread_effect :: "effect \<Rightarrow> bool" where
  "thread_effect e \<longleftrightarrow> (case e of Pipe _ \<Rightarrow> True | Mixer _ _ \<Rightarrow> True | Usleep _ \<Rightarrow> True
     | Setpriority _ \<Rightarrow> True | Shell c \<Rightarrow> c = notification_cmd | _ \<Rightarrow> False)"

interpretation thread_effects: thread_order "grows trace thread_effect" E for E
  by unfold_locales
    (auto simp: thread_effect_def ShowNotification_def run_system_def run_pipe_def
      intro!: trace_intros grow.p_rules)

subsection \<open>The variables\<close>

definition thread_vars :: "world \<Rightarrow> string \<times> bool \<times> poll_thread option" where
  "thread_vars w = (g_tinymix_path w, g_mic_running w, g_poll_thread w)"

lemma thread_vars_sense: "keeps sans_sense m \<Longrightarrow> keeps thread_vars m"
  by (erule keeps_comp [where h = thread_vars]) (simp add: thread_vars_def sans_sense_def)

lemma thread_vars_state: "keeps sans_state m \<Longrightarrow> keeps thread_vars m"
  by (erule keeps_comp [where h = thread_vars]) (simp add: thread_vars_def sans_state_def sans_sense_def)

lemma thread_vars_removal: "keeps sans_removal m \<Longrightarrow> keeps thread_vars m"
  by (erule keeps_comp [where h = thread_vars])
    (simp add: thread_vars_def sans_removal_def sans_batch_def sans_sense_def)

lemma CleanDirectorySafely_thread_vars: "keeps thread_vars (CleanDirectorySafely E d)"
  unfolding CleanDirectorySafely_def GetCurrentTimeMs_def
  by (intro keep.p_rules thread_vars_removal [OF RemoveRecursiveBatched_keeps]
      thread_vars_sense [OF Log_keeps_sense] thread_vars_sense [OF GetDirectoryChildren_keeps]
      thread_vars_sense [OF observe_keeps] thread_vars_state [OF SaveStateAtomic_keeps]
      thread_vars_state [OF UpdatePackageState_keeps] GetPackageState_keeps) simp

interpretation apart: daemon_order "\<lambda>s t. thread_vars t = thread_vars s" E for E
  by unfold_locales
    (rule thread_vars_removal [OF sweeps_removal] CleanDirectorySafely_thread_vars
      thread_vars_state [OF AnalyzeCaches_keeps] thread_vars_sense [OF ScanPackageCache_keeps]
      thread_vars_sense [OF GetInstalledPackages_keeps] thread_vars_sense [OF IsScreenOn_keeps]
      thread_vars_sense [OF EvaluateIdleState_keeps] thread_vars_sense [OF Log_keeps_sense]
    | simp add: thread_vars_def run_system_def pres_def)+

text \<open>The thread writes the log and the path of its tool, and no other variable of the daemon.\<close>

definition sans_thread :: "world \<Rightarrow> world" where
  "sans_thread w = w\<lparr>w_log := closed_log, tick := 0, trace := [], g_tinymix_path := []\<rparr>"

lemma basic_apart:
  "keeps sans_thread (Log E l m)" "keeps sans_thread (observe g)" "keeps sans_thread (emit e)"
  "keeps sans_thread (modS (\<lambda>w. w\<lparr>g_tinymix_path := p\<rparr>))"
  by (rule keeps_comp [OF Log_keeps, where h = sans_thread], simp add: sans_thread_def sans_log_def)
    (simp_all add: pres_def sans_thread_def)

interpretation thread_apart: thread_order "\<lambda>s t. sans_thread t = sans_thread s" E for E
  by unfold_locales
    (auto simp: ShowNotification_def run_system_def run_pipe_def intro!: basic_apart keep.p_rules)

subsection \<open>The effects\<close>

text \<open>Effects that a property does not look at may be interleaved at will.\<close>

lemma filter_interleaved:
  assumes "zs \<in> shuffles xs ys" "list_all (\<lambda>e. \<not> P e) ys"
  shows "filter P zs = filter P xs"
proof -
  have "filter P zs \<in> shuffles (filter P xs) (filter P ys)"
    using assms(1) unfolding filter_shuffles [symmetric] by simp
  moreover have "filter P ys = []" using assms(2) by (simp add: filter_empty_conv list_all_iff)
  ultimately show ?thesis by simp
qed

definition matters :: "effect \<Rightarrow> bool" where
  "matters e \<longleftrightarrow> \<not> thread_effect e"

lemma matters_simps [simp]:
  "matters (IdleEval v)" "matters (Unlink p ok)" "matters (Rmdir p ok)" "matters (Fitrim p)"
  "matters (WriteNode p x ok)" "matters (Shell c) \<longleftrightarrow> c \<noteq> notification_cmd"
  "matters (LogUnlink p ok)" "\<not> matters (Pipe c)" "\<not> matters (Mixer c vs)" "\<not> matters (Usleep n)" "\<not> matters (Setpriority k)"
  by (simp_all add: matters_def thread_effect_def)

lemma guarded_matters: "guarded b (filter matters es) = guarded b es"
  by (induction b es rule: guarded.induct) auto

lemma notification_neq: "notification_cmd \<noteq> force_idle_cmd" "notification_cmd \<noteq> unforce_cmd"
  by (simp_all add: notification_cmd_def force_idle_cmd_def unforce_cmd_def)

lemma licensed_matters: "licensed b (filter matters es) = licensed b es"
  by (induction b es rule: licensed.induct)
    (auto simp: license_def notification_neq split: effect.split)

definition is_mixer :: "effect \<Rightarrow> bool" where
  "is_mixer e \<longleftrightarrow> (case e of Mixer _ _ \<Rightarrow> True | _ \<Rightarrow> False)"

lemma muted_mixer: "muted_after b (filter is_mixer es) = muted_after b es"
  by (induction b es rule: muted_after.induct) (auto simp: is_mixer_def)

lemma interleaved:
  assumes "run_state (main E a b c ins) w = (u, w')" "run_state (poll_thread_body F t n alsa) v = (x, v')"
  obtains es fs where "trace w' = trace w @ start_effects E w @ es" "trace v' = trace v @ fs"
    "\<And>zs. zs \<in> shuffles es fs \<Longrightarrow> guarded g zs = guarded g es"
    "\<And>zs. zs \<in> shuffles es fs \<Longrightarrow> licensed l zs = licensed l es"
    "\<And>zs p ok. zs \<in> shuffles es fs \<Longrightarrow> LogUnlink p ok \<notin> set zs"
    "\<And>zs. zs \<in> shuffles es fs \<Longrightarrow> muted_after m zs = muted_after m fs"
proof -
  obtain es where es: "trace w' = trace w @ start_effects E w @ es" "list_all loop_effect es"
    using main_effects [OF assms(1)] by blast
  have mixed: "list_all (\<lambda>e. \<not> is_mixer e) es"
    using es(2) by (auto simp: list_all_iff loop_effect_def is_mixer_def split: effect.splits)
  obtain fs where fs: "trace v' = trace v @ fs" "list_all thread_effect fs"
    using pres_run [OF thread_effects.thread assms(2)] by (auto simp: grows_def)
  have fs': "list_all (\<lambda>e. \<not> matters e) fs" using fs(2) by (simp add: matters_def)
  show thesis
  proof (rule that [OF es(1) fs(1)])
    fix zs assume zs: "zs \<in> shuffles es fs"
    have 1: "filter matters zs = filter matters es" by (rule filter_interleaved [OF zs fs'])
    have 2: "filter is_mixer zs = filter is_mixer fs"
      by (rule filter_interleaved [OF _ mixed]) (use zs in \<open>simp add: shuffles_commutes\<close>)
    show "guarded g zs = guarded g es" using guarded_matters 1 by metis
    show "licensed l zs = licensed l es" using licensed_matters 1 by metis
    show "muted_after m zs = muted_after m fs" using muted_mixer 2 by metis
    have "set zs = set es \<union> set fs" using zs by (rule set_shuffles)
    then show "LogUnlink p ok \<notin> set zs" for p ok
      using es(2) fs(2) by (auto simp: list_all_iff loop_effect_def thread_effect_def)
  qed
qed

lemma scheduler_leaves_thread:
  "run_state (RunScheduler E a b c ins) w = (r, w') \<Longrightarrow> thread_vars w' = thread_vars w"
  by (rule pres_run [OF apart.scheduler])

lemma thread_leaves_daemon:
  assumes "run_state (poll_thread_body E t n alsa) v = (x, v')"
  shows "v' = v\<lparr>w_log := w_log v', tick := tick v', trace := trace v', g_tinymix_path := g_tinymix_path v'\<rparr>"
  using pres_run [OF thread_apart.thread assms] by (cases v; cases v') (simp add: sans_thread_def)

text \<open>
  C19. The program with its thread: the thread, in either form, writes no variable of the daemon but
  the log and the path of its tool. However the effects of the program, from its start on, and of the thread
  interleave, deletions still come only after an idle verdict and under a license of a candidate verdict, the log is not
  unlinked, and the transmission line ends up muted exactly if the mixer commands the thread alone has carried out
  leave it so. Before the thread exists there is only the purge of an outdated log. The thread has its own
  observations \<open>F\<close>.
\<close>

theorem threads_interleaved:
  assumes "wf_tree (fs w)" "guarded False (trace w)" "licensed False (trace w)"
    "g_current_state w \<in> {BOOT, ACTIVE, SCREEN_OFF, ABORTING}"
    and "run_state (main E epoll_ok timer_ok ctl_ok ins) w = (u, w')"
    and "run_state (poll_thread_body F t n alsa) v = (x, v')"
  shows "v' = v\<lparr>w_log := w_log v', tick := tick v', trace := trace v', g_tinymix_path := g_tinymix_path v'\<rparr> \<and>
    purges E w (start_effects E w) \<and>
    (\<exists>es fs. trace w' = trace w @ start_effects E w @ es \<and> trace v' = trace v @ fs \<and>
      (\<forall>zs\<in>shuffles es fs. guarded False (trace w @ start_effects E w @ zs) \<and>
         licensed False (trace w @ start_effects E w @ zs) \<and> (\<forall>p ok. LogUnlink p ok \<notin> set zs) \<and>
         muted_after (muted v) zs = muted v'))"
proof -
  let ?s = "trace w @ start_effects E w"
  obtain es fs where *: "trace w' = trace w @ start_effects E w @ es" "trace v' = trace v @ fs"
    "\<And>zs. zs \<in> shuffles es fs \<Longrightarrow> guarded (verdict_after False ?s) zs = guarded (verdict_after False ?s) es"
    "\<And>zs. zs \<in> shuffles es fs \<Longrightarrow> licensed (license_after False ?s) zs = licensed (license_after False ?s) es"
    "\<And>zs p ok. zs \<in> shuffles es fs \<Longrightarrow> LogUnlink p ok \<notin> set zs"
    "\<And>zs. zs \<in> shuffles es fs \<Longrightarrow> muted_after (muted v) zs = muted_after (muted v) fs"
    by (rule interleaved [OF assms(5,6)]) blast
  have "guarded False (trace w')" "licensed False (trace w')"
    using main_shrinks [OF assms(1,5)] assms(2) main_licensed [OF assms(3-5)] by (simp_all add: guards_def)
  then have ok: "guarded False (?s @ es)" "licensed False (?s @ es)" using *(1) by simp_all
  have "guarded False (trace w @ start_effects E w @ zs) \<and> licensed False (trace w @ start_effects E w @ zs) \<and>
      (\<forall>p ok. LogUnlink p ok \<notin> set zs) \<and> muted_after (muted v) zs = muted v'" if "zs \<in> shuffles es fs" for zs
    using ok *(3) [OF that] *(4) [OF that] *(5) [OF that] *(6) [OF that] *(2)
      guarded_append [of False ?s] licensed_append [of False ?s]
    by (auto simp: muted_after_append)
  then show ?thesis
    using thread_leaves_daemon [OF assms(6)] main_purges [OF assms(5)] *(1,2)
    by (intro conjI exI [of _ es] exI [of _ fs]) auto
qed

text \<open>
  The program on a device with an old report, and a running thread that mutes the line for a second call.
\<close>

theorem threads_interleaved_witness:
  "\<exists>es fs. trace (snd (run_state (main dark_env True True True (replicate 4 (PollReady [(True, True)]))) old_log_world)) =
       [LogUnlink report_path True, LogUnlink (old_path report_path) False] @ es \<and>
     trace (snd (run_state (poll_thread_body call_env PollThread 3 []) call_world)) = fs \<and>
     guarded False (splice es fs) \<and> licensed False (splice es fs) \<and> muted_after False (splice es fs)"
proof -
  let ?ins = "replicate 4 (PollReady [(True, True)])"
  obtain u w' where m: "run_state (main dark_env True True True ?ins) old_log_world = (u, w')" by (rule that) (rule prod.collapse [symmetric])
  obtain x v' where p: "run_state (poll_thread_body call_env PollThread 3 []) call_world = (x, v')" by (rule that) (rule prod.collapse [symmetric])
  note w = old_log_world_simps
  have wf: "wf_tree (fs old_log_world)" using wf_sample_tree w(1) by (simp add: sample_world_def boot_world_def)
  obtain y where "run_state (PollLoop call_env 3) call_world = (y, v')"
    using p by (auto simp: poll_thread_body_def split: prod.splits)
  then have muted: "muted v'"
    using run_PollLoop [OF mixer_works_call_env call_world_simps(1)] by (fastforce simp: modes_read_call call_modes)
  obtain es fs where r: "trace w' = [LogUnlink report_path True, LogUnlink (old_path report_path) False] @ es"
    "trace v' = fs" "\<forall>zs\<in>shuffles es fs. guarded False ([LogUnlink report_path True, LogUnlink (old_path report_path) False] @ zs) \<and>
      licensed False ([LogUnlink report_path True, LogUnlink (old_path report_path) False] @ zs) \<and> muted_after False zs = muted v'"
    using threads_interleaved [OF wf _ _ _ m p] w(2,3) unfolding old_log_purged by auto
  have "splice es fs \<in> shuffles es fs" by (rule splice_in_shuffles)
  with r muted show ?thesis unfolding m p
    by (intro exI [of _ es] exI [of _ fs]) (auto simp: license_def)
qed

end
