(* ===== verification/Idle_Correct.thy ===== *)
theory Idle_Correct
  imports Scope
begin

section \<open>The idle verdict\<close>

text \<open>
  What each sensor answers, as a function of what the kernel and \<open>dumpsys\<close> say at the time of the
  reading, and the verdict as a combination of these answers.
\<close>

subsection \<open>The screen\<close>

text \<open>The screen read at tick \<open>n\<close> from a backlight node, or from \<open>dumpsys\<close> where that fails.\<close>

definition screen_at :: "env \<Rightarrow> string \<Rightarrow> nat \<Rightarrow> bool" where
  "screen_at E path n =
     (if path = [] then wakefulness_on (e_pipe E n wakefulness_cmd)
      else (case brightness_on (e_text E n path) of
          Some on \<Rightarrow> on
        | None \<Rightarrow> wakefulness_on (e_pipe E (Suc n) wakefulness_cmd)))"

text \<open>
  What the sensors remember: each part is written by its own detection only, and once something has
  been found it is not looked for again.
\<close>

definition base_part :: "world \<Rightarrow> Configuration \<times> u64" where
  "base_part w = (g_config w, g_screen_off_time w)"

definition screen_part :: "world \<Rightarrow> string \<times> bool" where
  "screen_part w = (g_backlight_path w, g_screen_supported w)"

definition battery_part :: "world \<Rightarrow> string \<times> string" where
  "battery_part w = (g_battery_capacity_path w, g_battery_status_path w)"

lemmas part_defs = base_part_def screen_part_def battery_part_def

definition screen_known :: "world \<Rightarrow> bool" where
  "screen_known w \<longleftrightarrow> \<not> (g_backlight_path w = [] \<and> g_screen_supported w)"

definition reads :: "world \<Rightarrow> world \<Rightarrow> bool" where
  "reads w w' \<longleftrightarrow> tick w \<le> tick w' \<and> base_part w' = base_part w \<and>
     (screen_known w \<longrightarrow> screen_part w' = screen_part w) \<and>
     (g_battery_capacity_path w \<noteq> [] \<longrightarrow> battery_part w' = battery_part w) \<and>
     (g_thermal_zones w \<noteq> [] \<longrightarrow> g_thermal_zones w' = g_thermal_zones w)"

interpretation reads: step_order reads
  by unfold_locales (auto simp: reads_def part_defs screen_known_def)

lemma reads_basic: "pres reads (observe g)" "pres reads (emit e)" "pres reads (Log E l m)"
  by (simp_all add: pres_def reads_def part_defs screen_known_def)

lemma reads_calls: "pres reads (read_text E p)" "pres reads (run_pipe E c)"
  unfolding read_text_def run_pipe_def by (intro reads.p_rules reads_basic)+

text \<open>A detection: time goes on, and the parts of the other two modules stay.\<close>

definition detects :: "(world \<Rightarrow> 'b) \<Rightarrow> (world \<Rightarrow> 'c) \<Rightarrow> world \<Rightarrow> world \<Rightarrow> bool" where
  "detects f g w w' \<longleftrightarrow> tick w \<le> tick w' \<and> base_part w' = base_part w \<and> f w' = f w \<and> g w' = g w"

interpretation detects: step_order "detects f g" for f g
  by unfold_locales (auto simp: detects_def)

lemma detects_calls:
  "pres (detects battery_part g_thermal_zones) (observe h)" "pres (detects screen_part g_thermal_zones) (observe h)"
  "pres (detects screen_part battery_part) (observe h)"
  "pres (detects battery_part g_thermal_zones) (Log E l m)" "pres (detects screen_part g_thermal_zones) (Log E l m)"
  "pres (detects screen_part battery_part) (Log E l m)"
  by (simp_all add: pres_def detects_def part_defs)

lemma detects_mod:
  "(\<And>w. detects f g w (h w)) \<Longrightarrow> pres (detects f g) (modS h)"
  by (simp add: pres_def)

lemma Detect_frames:
  "pres (detects battery_part g_thermal_zones) (DetectScreenNode E)"
  "pres (detects screen_part g_thermal_zones) (DetectBatteryNodes E)"
  "pres (detects screen_part battery_part) (DetectThermalZones E)"
  unfolding DetectScreenNode_def DetectBatteryNodes_def DetectThermalZones_def Let_def read_text_def
  by (intro detects.p_rules detects_calls detects_mod; simp add: detects_def part_defs)+

text \<open>After a detection the screen is known: a node, or none that is supported.\<close>

lemma screen_nodes_nonempty: "p \<in> set screen_nodes \<Longrightarrow> p \<noteq> []"
  by (auto simp: screen_nodes_def)

lemma DetectScreenNode_known:
  assumes "run_state (DetectScreenNode E) w = (r, w')"
  shows "screen_known w'"
proof -
  let ?body = "\<lambda>path (_ :: unit). do {
      file \<leftarrow> read_text E path;
      if file \<noteq> None
      then do {
        modS (\<lambda>w. w\<lparr>g_backlight_path := path\<rparr>);
        LOGI E (''Screen state fallback node found: '' @ path);
        ret (Inr ())
      }
      else ret (Inl ()) } :: (unit + unit) io"
  obtain x u where 1: "run_state (loop ?body screen_nodes ()) w = (x, u)" by fastforce
  have "hoare (\<lambda>_. True) (loop ?body screen_nodes ()) (\<lambda>r w. case r of Inl _ \<Rightarrow> True | Inr _ \<Rightarrow> g_backlight_path w \<noteq> [])"
    by (rule hoare_loop [where I = "\<lambda>_ _. True"])
      (auto simp: hoare_def read_text_def screen_nodes_nonempty)
  from hoareD [OF this TrueI 1] have "case x of Inl _ \<Rightarrow> True | Inr _ \<Rightarrow> g_backlight_path u \<noteq> []" .
  then show ?thesis
    using assms 1 by (cases x) (auto simp: DetectScreenNode_def screen_known_def)
qed

lemma run_IsScreenOn:
  assumes "run_state (IsScreenOn E) w = (on, w')"
  shows "\<exists>n. tick w \<le> n \<and> n < tick w' \<and> on = screen_at E (g_backlight_path w') n"
    and "reads w w'" "screen_known w'"
proof -
  let ?d = "whenS (g_backlight_path w = [] \<and> g_screen_supported w) (DetectScreenNode E)"
  obtain w1 where 1: "run_state ?d w = ((), w1)" by (cases "run_state ?d w") auto
  have r1: "reads w w1" "screen_known w1"
  proof -
    have "reads w w1 \<and> screen_known w1"
    proof (cases "screen_known w")
      case True
      then show ?thesis using 1 by (auto simp: screen_known_def run_whenS reads.R_refl)
    next
      case False
      then have "run_state (DetectScreenNode E) w = ((), w1)"
        using 1 by (auto simp: screen_known_def run_whenS)
      then show ?thesis
        using pres_run [OF Detect_frames(1)] DetectScreenNode_known False
        by (fastforce simp: reads_def detects_def)
    qed
    then show "reads w w1" "screen_known w1" by simp_all
  qed
  have n: "tick w1 < tick w' \<and> on = screen_at E (g_backlight_path w') (tick w1) \<and> reads w1 w' \<and>
      screen_part w' = screen_part w1"
  proof (cases "g_backlight_path w1 = []")
    case True
    then show ?thesis
      using assms 1 by (auto simp: IsScreenOn_def run_pipe_def screen_at_def reads_def part_defs)
  next
    case False
    then show ?thesis
      using assms 1
      by (auto simp: IsScreenOn_def read_text_def run_pipe_def screen_at_def reads_def part_defs split: option.splits)
  qed
  show "\<exists>n. tick w \<le> n \<and> n < tick w' \<and> on = screen_at E (g_backlight_path w') n"
    using r1 n by (intro exI [of _ "tick w1"]) (auto simp: reads_def)
  show "reads w w'" using r1(1) n by (blast intro: reads.R_trans)
  show "screen_known w'" using r1(2) n by (simp add: screen_known_def part_defs)
qed

subsection \<open>Battery\<close>

definition battery_at :: "env \<Rightarrow> world \<Rightarrow> nat \<Rightarrow> bool" where
  "battery_at E w n \<longleftrightarrow> g_battery_capacity_path w \<noteq> [] \<and>
     (charging_status (e_text E n (g_battery_status_path w)) \<or>
      (\<exists>c. read_capacity (e_text E (Suc n) (g_battery_capacity_path w)) = Some c \<and>
         sint c > sint (minimum_battery_percent (g_config w))))"

lemma run_IsBatterySafe:
  assumes "run_state (IsBatterySafe E) w = (ok, w')"
  shows "\<exists>n\<ge>tick w. ok = battery_at E w' n" and "reads w w'"
proof -
  let ?d = "whenS (g_battery_capacity_path w = []) (DetectBatteryNodes E)"
  obtain w1 where 1: "run_state ?d w = ((), w1)" by (cases "run_state ?d w") auto
  have r1: "reads w w1"
  proof (cases "g_battery_capacity_path w = []")
    case True
    then have "run_state (DetectBatteryNodes E) w = ((), w1)" using 1 by (simp add: run_whenS)
    from pres_run [OF Detect_frames(2) this] True show ?thesis by (simp add: reads_def detects_def)
  next
    case False
    then show ?thesis using 1 by (auto simp: run_whenS reads.R_refl)
  qed
  have n: "ok = battery_at E w' (tick w1) \<and> reads w1 w'"
  proof (cases "g_battery_capacity_path w1 = []")
    case True
    then show ?thesis using assms 1 by (auto simp: IsBatterySafe_def battery_at_def reads.R_refl)
  next
    case False
    then show ?thesis
      using assms 1 by (auto simp: IsBatterySafe_def read_text_def battery_at_def reads_def part_defs
          split: option.splits if_splits)
  qed
  then show "\<exists>n\<ge>tick w. ok = battery_at E w' n" using r1 by (auto simp: reads_def)
  show "reads w w'" using r1 n by (blast intro: reads.R_trans)
qed

subsection \<open>Temperature\<close>

definition thermal_at :: "env \<Rightarrow> world \<Rightarrow> nat \<Rightarrow> bool" where
  "thermal_at E w n \<longleftrightarrow> \<not> thermal_protection (g_config w) \<or>
     g_thermal_zones w \<noteq> [] \<and>
     (\<forall>i<length (g_thermal_zones w). \<not> zone_hot (e_text E (n + i) (g_thermal_zones w ! i)))"

definition zone_step :: "env \<Rightarrow> string \<Rightarrow> unit \<Rightarrow> (unit + unit) io" where
  "zone_step E path _ = do {
     file \<leftarrow> read_text E path;
     ret (if zone_hot file then Inr () else Inl ()) }"

lemma run_zone_step:
  "run_state (zone_step E z u) w =
     (if zone_hot (e_text E (tick w) z) then Inr () else Inl (), w\<lparr>tick := Suc (tick w)\<rparr>)"
  by (simp add: zone_step_def read_text_def)

lemma run_zones:
  "run_state (loop (zone_step E) zones ()) w = (r, w') \<Longrightarrow>
     (r = Inl () \<longleftrightarrow> (\<forall>i<length zones. \<not> zone_hot (e_text E (tick w + i) (zones ! i)))) \<and>
     reads w w' \<and> g_thermal_zones w' = g_thermal_zones w"
proof (induction zones arbitrary: w)
  case Nil
  then show ?case by (auto simp: reads_def)
next
  case (Cons z zs)
  show ?case
  proof (cases "zone_hot (e_text E (tick w) z)")
    case True
    then show ?thesis using Cons.prems by (auto simp: run_zone_step reads_def part_defs)
  next
    case False
    then have "run_state (loop (zone_step E) zs ()) (w\<lparr>tick := Suc (tick w)\<rparr>) = (r, w')"
      using Cons.prems by (simp add: run_zone_step)
    from Cons.IH [OF this] False show ?thesis
      by (auto simp: reads_def part_defs screen_known_def All_less_Suc2 nth_Cons split: nat.split)
  qed
qed

lemma run_IsThermalSafe:
  assumes "run_state (IsThermalSafe E) w = (ok, w')"
  shows "\<exists>n\<ge>tick w. ok = thermal_at E w' n" and "reads w w'"
proof -
  let ?d = "whenS (g_thermal_zones w = []) (DetectThermalZones E)"
  obtain w1 where 1: "run_state ?d w = ((), w1)" by (cases "run_state ?d w") auto
  have r1: "reads w w1"
  proof (cases "g_thermal_zones w = []")
    case True
    then have "run_state (DetectThermalZones E) w = ((), w1)" using 1 by (simp add: run_whenS)
    from pres_run [OF Detect_frames(3) this] True show ?thesis by (simp add: reads_def detects_def)
  next
    case False
    then show ?thesis using 1 by (auto simp: run_whenS reads.R_refl)
  qed
  have eq: "run_state (IsThermalSafe E) w =
     (if \<not> thermal_protection (g_config w) then (True, w)
      else if g_thermal_zones w1 = [] then (False, w1)
      else (case run_state (loop (zone_step E) (g_thermal_zones w1) ()) w1 of (r, u) \<Rightarrow> (r = Inl (), u)))"
    using 1 unfolding IsThermalSafe_def zone_step_def
    by (auto split: prod.splits sum.splits)
  obtain r u where 2: "run_state (loop (zone_step E) (g_thermal_zones w1) ()) w1 = (r, u)" by fastforce
  note z = run_zones [OF 2]
  have c: "g_config w1 = g_config w" using r1 by (simp add: reads_def part_defs)
  consider "\<not> thermal_protection (g_config w)" | "thermal_protection (g_config w)" "g_thermal_zones w1 = []"
    | "thermal_protection (g_config w)" "g_thermal_zones w1 \<noteq> []" by blast
  then have "(\<exists>n\<ge>tick w. ok = thermal_at E w' n) \<and> reads w w'"
  proof cases
    case 3
    then have "w' = u" "ok = (r = Inl ())" using assms unfolding eq 2 by simp_all
    moreover have "reads w u" using r1 z reads.R_trans by blast
    moreover have "g_config u = g_config w" using calculation(3) by (simp add: reads_def part_defs)
    ultimately show ?thesis
      using z r1 3 by (intro conjI exI [of _ "tick w1"]) (auto simp: thermal_at_def reads_def)
  qed (use assms r1 c in \<open>auto simp: eq thermal_at_def reads.R_refl reads_def [of w w'] intro: exI [of _ "tick w"]\<close>)
  then show "\<exists>n\<ge>tick w. ok = thermal_at E w' n" "reads w w'" by auto
qed

subsection \<open>Memory and the foreground\<close>

definition memory_at :: "env \<Rightarrow> nat \<Rightarrow> bool" where
  "memory_at E n \<longleftrightarrow> psi_safe (psi_of (e_text E n ''/proc/pressure/memory''))"

lemma run_memory:
  assumes "run_state (IsMemoryPressureSafe E) w = (ok, w')"
  shows "ok = memory_at E (tick w)" "reads w w'"
proof -
  show "ok = memory_at E (tick w)" using run_IsMemoryPressureSafe [OF assms] by (simp add: memory_at_def)
  have "pres reads (IsMemoryPressureSafe E)"
    unfolding IsMemoryPressureSafe_def GetMemoryPSI_def by (intro reads.p_rules reads_basic reads_calls)
  then show "reads w w'" using assms by (rule pres_run)
qed

definition heavy_focus :: "string option \<Rightarrow> bool" where
  "heavy_focus pipe = (case pipe_line pipe of None \<Rightarrow> False | Some focus \<Rightarrow> list_ex (contains focus) heavy_apps)"

text \<open>The foreground counts only when the screen, read once more, is on by then.\<close>

lemma run_IsHeavyForegroundActivity:
  assumes "run_state (IsHeavyForegroundActivity E) w = (heavy, w')"
  shows "\<exists>m n. tick w \<le> m \<and> m < n \<and> heavy = (screen_at E (g_backlight_path w') m \<and> heavy_focus (e_pipe E n focus_cmd))"
    and "reads w w'"
proof -
  obtain on w1 where 1: "run_state (IsScreenOn E) w = (on, w1)" by fastforce
  obtain m where m: "tick w \<le> m" "m < tick w1" "on = screen_at E (g_backlight_path w1) m"
    using run_IsScreenOn(1) [OF 1] by blast
  have r1: "reads w w1" using run_IsScreenOn(2) [OF 1] .
  have h: "heavy = (on \<and> heavy_focus (e_pipe E (tick w1) focus_cmd)) \<and> g_backlight_path w' = g_backlight_path w1 \<and>
      reads w1 w'"
    using assms 1 by (cases on)
      (auto simp: IsHeavyForegroundActivity_def run_pipe_def heavy_focus_def reads_def part_defs split: option.splits)
  then show "\<exists>m n. tick w \<le> m \<and> m < n \<and> heavy = (screen_at E (g_backlight_path w') m \<and> heavy_focus (e_pipe E n focus_cmd))"
    using m by (intro exI [of _ m] exI [of _ "tick w1"]) auto
  show "reads w w'" using r1 h by (blast intro: reads.R_trans)
qed

subsection \<open>The verdict\<close>

text \<open>The screen and the foreground application, read by the last gate.\<close>

definition heavy_at :: "env \<Rightarrow> world \<Rightarrow> nat \<Rightarrow> nat \<Rightarrow> bool" where
  "heavy_at E w m n \<longleftrightarrow> screen_at E (g_backlight_path w) m \<and> heavy_focus (e_pipe E n focus_cmd)"

text \<open>Every gate was open when it was read, or one was closed.\<close>

definition gates_open :: "env \<Rightarrow> world \<Rightarrow> nat \<Rightarrow> bool" where
  "gates_open E w n \<longleftrightarrow> (\<exists>b\<ge>n. battery_at E w b) \<and> (\<exists>t\<ge>n. thermal_at E w t) \<and> (\<exists>m\<ge>n. memory_at E m) \<and>
     (\<exists>s\<ge>n. \<exists>f>s. \<not> heavy_at E w s f)"

definition gate_closed :: "env \<Rightarrow> world \<Rightarrow> nat \<Rightarrow> bool" where
  "gate_closed E w n \<longleftrightarrow> (\<exists>b\<ge>n. \<not> battery_at E w b) \<or> (\<exists>t\<ge>n. \<not> thermal_at E w t) \<or> (\<exists>m\<ge>n. \<not> memory_at E m) \<or>
     (\<exists>s\<ge>n. \<exists>f>s. heavy_at E w s f)"

lemma battery_at_mono: "battery_at E w n \<Longrightarrow> reads w w' \<Longrightarrow> battery_at E w' n"
  by (auto simp: battery_at_def reads_def part_defs)

lemma thermal_at_mono: "thermal_at E w n \<Longrightarrow> reads w w' \<Longrightarrow> thermal_at E w' n"
  by (auto simp: thermal_at_def reads_def part_defs)

lemma reads_tick: "reads w w' \<Longrightarrow> tick w \<le> tick w'"
  by (simp add: reads_def)

lemma run_gates:
  assumes "run_state (gates E) w = (v, w')"
  shows "reads w w'" "(v = Is_IDLE_CANDIDATE \<and> gates_open E w' (tick w)) \<or> (v = Is_SCREEN_OFF \<and> gate_closed E w' (tick w))"
proof -
  obtain b w1 where 1: "run_state (IsBatterySafe E) w = (b, w1)" by fastforce
  obtain nb where b: "nb \<ge> tick w" "b = battery_at E w1 nb" and r1: "reads w w1"
    using run_IsBatterySafe [OF 1] by blast
  obtain t w2 where 2: "run_state (IsThermalSafe E) w1 = (t, w2)" by fastforce
  obtain nt where t: "nt \<ge> tick w" "t = thermal_at E w2 nt" and r2: "reads w1 w2"
    using run_IsThermalSafe [OF 2] reads_tick [OF r1] by (meson order.trans)
  obtain m w3 where 3: "run_state (IsMemoryPressureSafe E) w2 = (m, w3)" by fastforce
  have m: "tick w2 \<ge> tick w" "m = memory_at E (tick w2)" and r3: "reads w2 w3"
    using run_memory [OF 3] reads_tick [OF r1] reads_tick [OF r2] by simp_all
  obtain h w4 where 4: "run_state (IsHeavyForegroundActivity E) w3 = (h, w4)" by fastforce
  obtain s f where h: "s \<ge> tick w" "s < f" "h = heavy_at E w4 s f" and r4: "reads w3 w4"
    using run_IsHeavyForegroundActivity [OF 4] reads_tick [OF r3] m(1) unfolding heavy_at_def by (meson order.trans)
  have run: "(v, w') = (if \<not> b then (Is_SCREEN_OFF, w1) else if \<not> t then (Is_SCREEN_OFF, w2)
      else if \<not> m then (Is_SCREEN_OFF, w3) else if h then (Is_SCREEN_OFF, w4) else (Is_IDLE_CANDIDATE, w4))"
    using assms 1 2 3 4 by (cases b; cases t; cases m; cases h) (simp_all add: gates_def)
  have r: "reads w w2" "reads w w3" "reads w w4" "reads w1 w4" "reads w2 w4"
    using r1 r2 r3 r4 reads.R_trans by blast+
  then show "reads w w'" using run r1 by (auto split: if_splits)
  show "(v = Is_IDLE_CANDIDATE \<and> gates_open E w' (tick w)) \<or> (v = Is_SCREEN_OFF \<and> gate_closed E w' (tick w))"
  proof (cases "b \<and> t \<and> m \<and> \<not> h")
    case True
    then have v: "v = Is_IDLE_CANDIDATE" "w' = w4" using run by simp_all
    have "battery_at E w4 nb" "thermal_at E w4 nt" "memory_at E (tick w2)" "\<not> heavy_at E w4 s f"
      using True b(2) t(2) m(2) h(3) battery_at_mono thermal_at_mono r(4,5) by blast+
    then show ?thesis unfolding v gates_open_def using b(1) t(1) m(1) h(1,2) by blast
  next
    case False
    then have "v = Is_SCREEN_OFF" using run by (auto split: if_splits)
    moreover have "gate_closed E w' (tick w)"
      using run False b t m h unfolding gate_closed_def by (auto split: if_splits)
    ultimately show ?thesis by blast
  qed
qed

lemma run_idle_verdict:
  assumes "run_state (idle_verdict E) w = (v, w')"
  shows "\<exists>n m. tick w \<le> n \<and> n < m \<and>
    (case v of
       Is_NOT_IDLE \<Rightarrow> screen_at E (g_backlight_path w') n \<and> g_screen_off_time w' = 0
     | Is_DEEP_IDLE \<Rightarrow> False
     | _ \<Rightarrow> \<not> screen_at E (g_backlight_path w') n \<and>
         g_screen_off_time w' = (if g_screen_off_time w = 0 then tv_sec (e_mono E m) else g_screen_off_time w) \<and>
         (if v = Is_IDLE_CANDIDATE
          then required_delay (g_config w) \<le> tv_sec (e_mono E m) - g_screen_off_time w' \<and> gates_open E w' m
          else tv_sec (e_mono E m) - g_screen_off_time w' < required_delay (g_config w) \<or> gate_closed E w' m))"
proof -
  obtain on w1 where 1: "run_state (IsScreenOn E) w = (on, w1)" by fastforce
  obtain n where n: "tick w \<le> n" "n < tick w1" "on = screen_at E (g_backlight_path w1) n"
    using run_IsScreenOn(1) [OF 1] by blast
  note s = run_IsScreenOn(2,3) [OF 1]
  have w1: "g_config w1 = g_config w" "g_screen_off_time w1 = g_screen_off_time w"
    using s(1) by (simp_all add: reads_def part_defs)
  let ?m = "tick w1" and ?now = "tv_sec (e_mono E (tick w1))"
  let ?t = "if g_screen_off_time w = 0 then ?now else g_screen_off_time w"
  let ?w2 = "w1\<lparr>tick := Suc ?m, g_screen_off_time := ?t\<rparr>"
  have t: "w1\<lparr>tick := k, g_screen_off_time := g_screen_off_time w\<rparr> = w1\<lparr>tick := k\<rparr>" for k
    using w1(2) by (simp add: world.equality)
  show ?thesis
  proof (cases on)
    case True
    then have "v = Is_NOT_IDLE" "w' = w1\<lparr>g_screen_off_time := 0\<rparr>" using assms 1 by (simp_all add: idle_verdict_def)
    then show ?thesis using n True by (intro exI [of _ n] exI [of _ ?m]) simp
  next
    case False
    have run: "(v, w') = (if ?now - ?t < required_delay (g_config w) then (Is_SCREEN_OFF, ?w2)
        else run_state (gates E) ?w2)"
      using assms 1 False w1 t
      by (cases "g_screen_off_time w = 0")
        (auto simp: idle_verdict_def GetMonotonicTimeSec_def run_whenS t split: if_splits)
    have k: "screen_known ?w2" "g_backlight_path ?w2 = g_backlight_path w1"
      using s(2) by (simp_all add: screen_known_def)
    show ?thesis
    proof (cases "?now - ?t < required_delay (g_config w)")
      case True
      then have "v = Is_SCREEN_OFF" "w' = ?w2" using run by simp_all
      then show ?thesis using n False True by (intro exI [of _ n] exI [of _ ?m]) simp
    next
      case delay: False
      then have g: "run_state (gates E) ?w2 = (v, w')" using run by simp
      have r: "g_backlight_path w' = g_backlight_path w1" "g_screen_off_time w' = ?t"
        using run_gates(1) [OF g] k by (simp_all add: reads_def part_defs)
      have up: "gates_open E w' (Suc ?m) \<Longrightarrow> gates_open E w' ?m" "gate_closed E w' (Suc ?m) \<Longrightarrow> gate_closed E w' ?m"
        unfolding gates_open_def gate_closed_def by (meson Suc_leD)+
      from run_gates(2) [OF g] show ?thesis
        using n False delay r up by (intro exI [of _ n] exI [of _ ?m]) (auto simp: not_less)
    qed
  qed
qed

text \<open>
  C9. The verdict: \<open>NOT_IDLE\<close> exactly when the screen was found on; otherwise the dark phase runs from
  the first verdict that found the screen off, and the device is a candidate exactly when the idle
  delay has passed since and all four gates were open when they were read. Each reading is of a
  moment between the start and the end of the call.
\<close>

theorem EvaluateIdleState_exact:
  assumes "run_state (EvaluateIdleState E) w = (v, w')"
  shows "\<exists>n m. tick w \<le> n \<and> n < m \<and>
    (case v of
       Is_NOT_IDLE \<Rightarrow> screen_at E (g_backlight_path w') n \<and> g_screen_off_time w' = 0
     | Is_DEEP_IDLE \<Rightarrow> False
     | _ \<Rightarrow> \<not> screen_at E (g_backlight_path w') n \<and>
         g_screen_off_time w' = (if g_screen_off_time w = 0 then tv_sec (e_mono E m) else g_screen_off_time w) \<and>
         (if v = Is_IDLE_CANDIDATE
          then required_delay (g_config w) \<le> tv_sec (e_mono E m) - g_screen_off_time w' \<and> gates_open E w' m
          else tv_sec (e_mono E m) - g_screen_off_time w' < required_delay (g_config w) \<or> gate_closed E w' m))"
proof -
  obtain u where 1: "run_state (idle_verdict E) w = (v, u)" "w' = u\<lparr>trace := trace u @ [IdleEval v]\<rparr>"
    using assms by (auto simp: EvaluateIdleState_def split: prod.splits)
  have same: "gates_open E w' m = gates_open E u m" "gate_closed E w' m = gate_closed E u m" for m
    unfolding 1(2) gates_open_def gate_closed_def battery_at_def thermal_at_def heavy_at_def by simp_all
  have parts: "g_backlight_path w' = g_backlight_path u" "g_screen_off_time w' = g_screen_off_time u"
    by (simp_all add: 1(2))
  show ?thesis unfolding same parts by (rule run_idle_verdict [OF 1(1)])
qed

theorem EvaluateIdleState_exact_witness:
  "\<exists>n. tick patient_world \<le> n \<and> gates_open dark_env (snd (run_state (EvaluateIdleState dark_env) patient_world)) n"
proof -
  have "fst (run_state (EvaluateIdleState dark_env) patient_world) = Is_IDLE_CANDIDATE" by code_simp
  then show ?thesis
    using EvaluateIdleState_exact [OF prod.collapse [symmetric], where E = dark_env and w = patient_world]
    by (auto intro: less_imp_le order.trans)
qed

subsection \<open>The delay\<close>

text \<open>
  The idle delay in seconds is the configured number of minutes times 60 as long as that fits an
  \<open>int\<close>; a negative number becomes a delay of more than 500 billion years, so that the device is
  never a candidate.
\<close>

lemma required_delay_exact:
  assumes "- (2 ^ 31) \<le> sint (idle_delay_minutes g) * 60" "sint (idle_delay_minutes g) * 60 < 2 ^ 31"
  shows "uint (required_delay g) =
    (if 0 \<le> sint (idle_delay_minutes g) then sint (idle_delay_minutes g) * 60
     else 2 ^ 64 + sint (idle_delay_minutes g) * 60)"
proof -
  let ?m = "sint (idle_delay_minutes g)"
  have "sint (idle_delay_minutes g * 60) = ?m * 60"
  proof -
    have "idle_delay_minutes g * 60 = word_of_int (?m * 60)" by simp
    then have "sint (idle_delay_minutes g * 60) = signed_take_bit 31 (?m * 60)"
      by (simp only: sint_sbintrunc') simp
    also have "\<dots> = ?m * 60" using assms by (intro signed_take_bit_int_eq_self) simp_all
    finally show ?thesis .
  qed
  then have "required_delay g = word_of_int (?m * 60)" by (simp only: required_delay_def scast_eq)
  then have "uint (required_delay g) = (?m * 60) mod 2 ^ 64" by (simp only: uint_word_of_int) simp
  also have "\<dots> = (if 0 \<le> ?m then ?m * 60 else 2 ^ 64 + ?m * 60)"
  proof (cases "0 \<le> ?m")
    case False
    have "(?m * 60) mod 2 ^ 64 = (?m * 60 + 2 ^ 64) mod 2 ^ 64" by simp
    also have "\<dots> = ?m * 60 + 2 ^ 64" using assms False by (intro mod_pos_pos_trivial) simp_all
    finally show ?thesis using False by simp
  qed (use assms in simp)
  finally show ?thesis .
qed

subsection \<open>The pressure gate\<close>

lemma read_float_percent:
  assumes "a < 10" "b < 10"
  shows "read_float (fmt_u i @ CHR ''.'' # digit_char a # digit_char b # CHR '' '' # rest) =
    Some (f32 (of_nat (100 * i + 10 * a + b) / 100))"
proof -
  let ?fp = "[digit_char a, digit_char b]"
  let ?r = "CHR ''.'' # digit_char a # digit_char b # CHR '' '' # rest"
  have ds: "list_all is_digit (fmt_u i)" by (rule fmt_u_digits)
  obtain d us where d: "fmt_u i = d # us" using fmt_u_nonempty [of i] by (cases "fmt_u i") auto
  have dd: "is_digit d" using ds d by simp
  have sp: "dropWhile is_space (fmt_u i @ ?r) = fmt_u i @ ?r" using d digit_not_space [OF dd] by simp
  have sign: "read_sign (fmt_u i @ ?r) = (False, fmt_u i @ ?r)"
    using d digit_not_sign [OF dd] by (simp add: read_sign_def)
  have nd: "\<not> is_digit (CHR ''.'')" "\<not> is_digit (CHR '' '')" by (simp_all add: is_digit_def)
  have ip: "takeWhile is_digit (fmt_u i @ ?r) = fmt_u i" "dropWhile is_digit (fmt_u i @ ?r) = ?r"
    using ds nd by (simp_all add: list_all_iff takeWhile_append2 dropWhile_append2)
  have fp: "takeWhile is_digit (digit_char a # digit_char b # CHR '' '' # rest) = ?fp"
    "dropWhile is_digit (digit_char a # digit_char b # CHR '' '' # rest) = CHR '' '' # rest"
    using assms nd by simp_all
  have "dec_val (fmt_u i @ ?fp) = 100 * i + 10 * a + b"
    using assms dec_val_snoc [of "fmt_u i @ [digit_char a]" "digit_char b"] dec_val_snoc [of "fmt_u i" "digit_char a"]
    by simp
  then show ?thesis
    unfolding read_float_def sp sign using assms nd fmt_u_nonempty [of i] by (simp add: ip Let_def)
qed

lemma psi_line_some:
  assumes "a < 10" "b < 10"
  shows "psi_line (''some avg10='' @ fmt_u i @ CHR ''.'' # digit_char a # digit_char b # CHR '' '' # rest) st =
    st\<lparr>some_avg10 := f32 (of_nat (100 * i + 10 * a + b) / 100)\<rparr>"
proof -
  have "is_space (CHR '' '')" "\<not> is_space (CHR ''a'')" by (simp_all add: is_space_def)
  then show ?thesis using read_float_percent [OF assms, of i rest] by (simp add: psi_line_def scan_avg10_def)
qed

lemma psi_line_other: "take 4 l \<noteq> ''some'' \<Longrightarrow>
    some_avg10 (psi_line l st) = some_avg10 st \<and> is_supported (psi_line l st) = is_supported st"
  by (auto simp: psi_line_def split: option.splits)

lemma psi_lines_other: "list_all (\<lambda>l. take 4 l \<noteq> ''some'') ls \<Longrightarrow>
    some_avg10 (fold psi_line ls st) = some_avg10 st \<and> is_supported (fold psi_line ls st) = is_supported st"
  using psi_line_other by (induction ls arbitrary: st) auto

text \<open>
  C30. The pressure gate: with the two decimals the kernel prints, memory pressure is acceptable
  exactly up to 15.00 percent; rounding the number to a \<open>float\<close> does not move the limit.
\<close>

theorem IsMemoryPressureSafe_limit:
  assumes "a < 10" "b < 10" "CHR 0x0A \<notin> set rest" "list_all (\<lambda>l. take 4 l \<noteq> ''some'') (getlines others)"
    and "e_text E (tick w) ''/proc/pressure/memory'' =
      Some (''some avg10='' @ fmt_u i @ CHR ''.'' # digit_char a # digit_char b # CHR '' '' # rest @ CHR 0x0A # others)"
  shows "fst (run_state (IsMemoryPressureSafe E) w) \<longleftrightarrow> 100 * i + 10 * a + b \<le> 1500"
proof -
  let ?line = "''some avg10='' @ fmt_u i @ CHR ''.'' # digit_char a # digit_char b # CHR '' '' # rest"
  let ?x = "of_nat (100 * i + 10 * a + b) / 100 :: rat"
  have dig: "CHR 0x0A \<notin> set (fmt_u i)" "digit_char c \<noteq> CHR 0x0A" if "c < 10" for c
  proof -
    have "\<not> is_digit (CHR 0x0A)" by (simp add: is_digit_def)
    then show "CHR 0x0A \<notin> set (fmt_u i)" "digit_char c \<noteq> CHR 0x0A"
      using fmt_u_digits [of i] is_digit_digit_char [OF that] by (auto simp: list_all_iff)
  qed
  have "CHR 0x0A \<notin> set ?line" using dig [of a] dig [of b] assms(1-3) by auto
  from getlines_line [OF this, of others]
  have lines: "getlines (''some avg10='' @ fmt_u i @ CHR ''.'' # digit_char a # digit_char b # CHR '' '' # rest @ CHR 0x0A # others) =
      ?line # getlines others" by simp
  have psi: "some_avg10 (psi_of (e_text E (tick w) ''/proc/pressure/memory'')) = f32 ?x"
    "is_supported (psi_of (e_text E (tick w) ''/proc/pressure/memory''))"
    unfolding assms(5) psi_of_def option.case lines fold.simps comp_apply psi_line_some [OF assms(1,2)]
    using psi_lines_other [OF assms(4)] by simp_all
  have "15 < f32 ?x \<longleftrightarrow> 1500 < 100 * i + 10 * a + b"
  proof
    assume "15 < f32 ?x"
    then have "\<not> ?x \<le> 15" using f32_below [of ?x] by force
    then have "of_nat 1500 < (of_nat (100 * i + 10 * a + b) :: rat)" by simp
    then show "1500 < 100 * i + 10 * a + b" by (simp only: of_nat_less_iff)
  next
    assume "1500 < 100 * i + 10 * a + b"
    then have "of_nat 1501 \<le> (of_nat (100 * i + 10 * a + b) :: rat)" by (simp only: of_nat_le_iff)
    then have "15.01 \<le> ?x" by simp
    then show "15 < f32 ?x" by (rule f32_above)
  qed
  moreover obtain r w' where "run_state (IsMemoryPressureSafe E) w = (r, w')" by fastforce
  ultimately show ?thesis
    using run_IsMemoryPressureSafe [of E w r w'] psi by (auto simp: psi_safe_def not_less)
qed

definition pressure_env :: env where
  "pressure_env = dark_env\<lparr>e_text := (\<lambda>_ _. Some (''some avg10=15.01 avg60=0.00'' @ [CHR 0x0A]))\<rparr>"

theorem IsMemoryPressureSafe_limit_witness: "\<not> fst (run_state (IsMemoryPressureSafe pressure_env) sample_world)"
proof -
  have d: "digit_char 0 = CHR ''0''" "digit_char 1 = CHR ''1''" "digit_char 5 = CHR ''5''" by code_simp+
  then have f: "fmt_u 15 = ''15''" by (simp add: fmt_u.simps)
  have "e_text pressure_env (tick sample_world) ''/proc/pressure/memory'' =
      Some (''some avg10='' @ fmt_u 15 @ CHR ''.'' # digit_char 0 # digit_char 1 # CHR '' '' # ''avg60=0.00'' @ CHR 0x0A # [])"
    unfolding f d by (simp add: pressure_env_def)
  from IsMemoryPressureSafe_limit [OF _ _ _ _ this] show ?thesis by (simp add: getlines_def)
qed

end
