(* ===== verification/Progress.thy ===== *)
theory Progress
  imports Idle_Correct Primitives
begin

section \<open>A device that stays dark is maintained\<close>

text \<open>
  The countdown to a maintenance run, and the run itself compared with one that never stops
  to look: the same work, with the results of all tests of the screen thrown away.
\<close>

subsection \<open>A maintenance run without interruptions\<close>

primrec each :: "('a \<Rightarrow> unit io) \<Rightarrow> 'a list \<Rightarrow> unit io" where
  "each f [] = ret ()"
| "each f (x # xs) = do { f x; each f xs }"

definition full_trim :: "env \<Rightarrow> string \<Rightarrow> unit io" where
  "full_trim E path = do {
     _ \<leftarrow> EvaluateIdleState E;
     fd \<leftarrow> observe (\<lambda>t. e_trim E t path);
     (case fd of
        None \<Rightarrow> ret ()
      | Some result \<Rightarrow> do {
          LOGI E (''Running native fstrim on '' @ path @ ''...'');
          emit (Fitrim path);
          (case result of
             None \<Rightarrow> ret ()
           | Some len \<Rightarrow> LOGI E (''fstrim completed on '' @ path @ '': '' @ fmt_u (unat len) @ '' bytes trimmed''))
        })
   }"

definition full_sweep :: "env \<Rightarrow> string \<Rightarrow> unit io" where
  "full_sweep E path = do {
     _ \<leftarrow> EvaluateIdleState E;
     children \<leftarrow> GetDirectoryChildren E path;
     (case children of
        None \<Rightarrow> ret ()
      | Some names \<Rightarrow> each (\<lambda>child. do { _ \<leftarrow> RemoveRecursiveBatched E (path @ ''/'' @ child); ret () })
          (filter (\<lambda>child. \<not> contains child ''freshcore.log'') names))
   }"

definition full_sweeps :: "env \<Rightarrow> unit io" where
  "full_sweeps E = do {
     LOGI E ''Starting native system maintenance sweeps...'';
     full_trim E ''/data'';
     full_trim E ''/cache'';
     each (full_sweep E) paths_to_sweep;
     LOGI E ''System maintenance sweeps completed.''
   }"

text \<open>Every package is scanned; the targets are cleaned in their order up to one that fails.\<close>

primrec scan_all :: "env \<Rightarrow> PackageInfo list \<Rightarrow> CacheDirInfo list io" where
  "scan_all E [] = ret []"
| "scan_all E (pkg # pkgs) = do {
     _ \<leftarrow> IsScreenOn E;
     dirs \<leftarrow> ScanPackageCache E pkg;
     rest \<leftarrow> scan_all E pkgs;
     ret (dirs @ rest)
   }"

primrec clean_all :: "env \<Rightarrow> MaintenanceTarget list \<Rightarrow> bool io" where
  "clean_all E [] = ret True"
| "clean_all E (target # targets) = do {
     _ \<leftarrow> EvaluateIdleState E;
     ok \<leftarrow> CleanDirectorySafely E (mt_cache_dir target);
     if ok then clean_all E targets
     else do { LOGW E (''Aborted cleaning on '' @ cd_path (mt_cache_dir target)); ret False }
   }"

definition full_run :: "env \<Rightarrow> bool io" where
  "full_run E = do {
     full_sweeps E;
     _ \<leftarrow> IsScreenOn E;
     pkgs \<leftarrow> GetInstalledPackages E;
     dirs \<leftarrow> scan_all E pkgs;
     targets \<leftarrow> AnalyzeCaches E dirs;
     clean_all E targets
   }"

subsection \<open>Agreement in the dark\<close>

definition screen_dark :: "env \<Rightarrow> bool" where
  "screen_dark E \<longleftrightarrow> (\<forall>p\<in>lit_nodes. \<forall>n. \<not> screen_at E p n)"

lemma screen_off:
  assumes "screen_dark E" "known_node w" "run_state (IsScreenOn E) w = (on, w')"
  shows "\<not> on" "known_node w'"
proof -
  show k: "known_node w'" using pres_run [OF node.screen_read assms(3)] assms(2) by (simp add: keeps_node_def)
  obtain n where "on = screen_at E (g_backlight_path w') n" using run_IsScreenOn(1) [OF assms(3)] by blast
  then show "\<not> on" using assms(1) k by (simp add: screen_dark_def known_node_def)
qed

lemma verdict_idle:
  assumes "screen_dark E" "known_node w" "run_state (EvaluateIdleState E) w = (v, w')"
  shows "v \<noteq> Is_NOT_IDLE" "known_node w'"
proof -
  show k: "known_node w'" using pres_run [OF node.evaluation assms(3)] assms(2) by (simp add: keeps_node_def)
  obtain u where u: "run_state (idle_verdict E) w = (v, u)" "g_backlight_path w' = g_backlight_path u"
    using assms(3) by (auto simp: EvaluateIdleState_def split: prod.splits)
  obtain n where n: "v = Is_NOT_IDLE \<longrightarrow> screen_at E (g_backlight_path u) n"
    using run_idle_verdict [OF u(1)] by (auto split: IdleState.splits)
  have "\<not> screen_at E (g_backlight_path u) n" using assms(1) k u(2) by (simp add: screen_dark_def known_node_def)
  with n show "v \<noteq> Is_NOT_IDLE" by blast
qed

definition agree :: "'a io \<Rightarrow> 'a io \<Rightarrow> bool" where
  "agree m n \<longleftrightarrow> (\<forall>w. known_node w \<longrightarrow> run_state m w = run_state n w)"

lemma agreeD: "agree m n \<Longrightarrow> known_node w \<Longrightarrow> run_state m w = run_state n w"
  by (simp add: agree_def)

lemma agree_refl: "agree m m"
  by (simp add: agree_def)

lemma agree_eq: "m = n \<Longrightarrow> agree m n"
  by (simp add: agree_def)

lemma agree_trans: "agree m n \<Longrightarrow> agree n k \<Longrightarrow> agree m k"
  by (simp add: agree_def)

lemma agree_bind:
  assumes "agree m m'" "pres keeps_node m" "\<And>x. agree (f x) (g x)"
  shows "agree (State_Monad.bind m f) (State_Monad.bind m' g)"
  unfolding agree_def
proof (intro allI impI)
  fix w assume k: "known_node w"
  obtain x v where 1: "run_state m w = (x, v)" by fastforce
  have "known_node v" using pres_run [OF assms(2) 1] k by (simp add: keeps_node_def)
  then show "run_state (State_Monad.bind m f) w = run_state (State_Monad.bind m' g) w"
    using agreeD [OF assms(1) k, symmetric] agreeD [OF assms(3)] 1 by simp
qed

lemmas agree_next = agree_bind [OF agree_refl]

lemma agree_screen:
  assumes "screen_dark E" "agree (f False) n"
  shows "agree (State_Monad.bind (IsScreenOn E) f) (State_Monad.bind (IsScreenOn E) (\<lambda>_. n))"
  unfolding agree_def
proof (intro allI impI)
  fix w assume k: "known_node w"
  obtain on v where 1: "run_state (IsScreenOn E) w = (on, v)" by fastforce
  show "run_state (State_Monad.bind (IsScreenOn E) f) w = run_state (State_Monad.bind (IsScreenOn E) (\<lambda>_. n)) w"
    using screen_off [OF assms(1) k 1] agreeD [OF assms(2)] 1 by simp
qed

lemma agree_verdict:
  assumes "screen_dark E" "\<And>v. v \<noteq> Is_NOT_IDLE \<Longrightarrow> agree (f v) n"
  shows "agree (State_Monad.bind (EvaluateIdleState E) f) (State_Monad.bind (EvaluateIdleState E) (\<lambda>_. n))"
  unfolding agree_def
proof (intro allI impI)
  fix w assume k: "known_node w"
  obtain i v where 1: "run_state (EvaluateIdleState E) w = (i, v)" by fastforce
  show "run_state (State_Monad.bind (EvaluateIdleState E) f) w = run_state (State_Monad.bind (EvaluateIdleState E) (\<lambda>_. n)) w"
    using verdict_idle [OF assms(1) k 1] agreeD [OF assms(2)] 1 by simp
qed

subsection \<open>The sweeps\<close>

lemma trim_agrees: "screen_dark E \<Longrightarrow> agree (NativeFstrim E path) (full_trim E path)"
  unfolding NativeFstrim_def full_trim_def by (rule agree_verdict) (simp_all add: agree_refl)

lemma sweep_names:
  "(loop (\<lambda>child (_ :: unit).
      if contains child ''freshcore.log'' then ret (Inl ())
      else do { _ \<leftarrow> RemoveRecursiveBatched E (path @ ''/'' @ child); ret (Inl ()) }) names () :: (unit + unit) io) =
   do { each (\<lambda>child. do { _ \<leftarrow> RemoveRecursiveBatched E (path @ ''/'' @ child); ret () })
          (filter (\<lambda>child. \<not> contains child ''freshcore.log'') names);
        ret (Inl ()) }"
  by (induction names) (auto intro!: state_ext split: prod.splits)

lemma sweep_path_agrees:
  assumes "screen_dark E"
  shows "agree (sweep_path E path u) (do { full_sweep E path; ret (Inl ()) })"
  unfolding sweep_path_def full_sweep_def State_Monad.bind_assoc sweep_names
proof (rule agree_verdict [OF assms])
  fix v assume v: "v \<noteq> Is_NOT_IDLE"
  show "agree (if v = Is_NOT_IDLE then do { LOGW E ''System sweeps aborted due to wake up.''; ret (Inr ()) }
     else do {
       children \<leftarrow> GetDirectoryChildren E path;
       (case children of
          None \<Rightarrow> ret (Inl ())
        | Some names \<Rightarrow> do {
            each (\<lambda>child. do { _ \<leftarrow> RemoveRecursiveBatched E (path @ ''/'' @ child); ret () })
              (filter (\<lambda>child. \<not> contains child ''freshcore.log'') names);
            (_ :: unit + unit) \<leftarrow> ret (Inl ());
            ret (Inl ())
          })
     })
     (do { children \<leftarrow> GetDirectoryChildren E path;
        x \<leftarrow> (case children of
          None \<Rightarrow> ret ()
        | Some names \<Rightarrow> each (\<lambda>child. do { _ \<leftarrow> RemoveRecursiveBatched E (path @ ''/'' @ child); ret () })
            (filter (\<lambda>child. \<not> contains child ''freshcore.log'') names));
        ret (Inl ()) })"
    using v by (auto simp: agree_def split: prod.splits option.splits)
qed

lemma full_trim_node: "pres keeps_node (full_trim E p)" "pres keeps_node (full_sweep E p)"
proof -
  have "pres keeps_node (each (\<lambda>child. do { _ \<leftarrow> RemoveRecursiveBatched E (q @ child); ret () }) names)" for names q
    by (induction names) (simp_all, (intro node.p_rules node.removal; assumption)+)
  note loop = this [of "p @ ''/''", unfolded append_assoc]
  show "pres keeps_node (full_trim E p)" "pres keeps_node (full_sweep E p)"
    unfolding full_trim_def full_sweep_def
    by (intro node.p_rules node.basic node.evaluation node.listing loop)+
qed

lemma sweep_loop_agrees:
  assumes "screen_dark E"
  shows "agree (loop (sweep_path E) paths ()) (do { each (full_sweep E) paths; ret (Inl ()) })"
proof (induction paths)
  case Nil
  show ?case by (simp add: agree_def)
next
  case (Cons path paths)
  have "agree (loop (sweep_path E) (path # paths) ())
      (do { r \<leftarrow> do { full_sweep E path; ret (Inl ()) };
            (case r of Inl c \<Rightarrow> loop (sweep_path E) paths c | Inr v \<Rightarrow> ret (Inr v)) })"
    unfolding loop.simps
    by (rule agree_bind [OF sweep_path_agrees [OF assms] _ agree_refl])
      (simp only: sweep_path_def, intro node.p_rules node.basic node.evaluation node.listing node.removal)
  moreover have "agree (do { r \<leftarrow> do { full_sweep E path; ret (Inl ()) };
            (case r of Inl c \<Rightarrow> loop (sweep_path E) paths c | Inr v \<Rightarrow> ret (Inr v)) })
      (do { each (full_sweep E) (path # paths); ret (Inl ()) })"
    by (simp add: State_Monad.bind_assoc) (rule agree_next [OF full_trim_node(2)], simp add: Cons.IH)
  ultimately show ?case by (rule agree_trans)
qed

lemma sweeps_agree:
  assumes "screen_dark E"
  shows "agree (RunSystemMaintenanceSweeps E) (full_sweeps E)"
proof -
  have loop: "agree (do { r \<leftarrow> loop (sweep_path E) paths_to_sweep ();
        (case r of Inr _ \<Rightarrow> ret () | Inl _ \<Rightarrow> LOGI E ''System maintenance sweeps completed.'') })
      (do { r \<leftarrow> do { each (full_sweep E) paths_to_sweep; ret (Inl ()) };
        (case r of Inr (_ :: unit) \<Rightarrow> ret () | Inl _ \<Rightarrow> LOGI E ''System maintenance sweeps completed.'') })"
    by (rule agree_bind [OF sweep_loop_agrees [OF assms] _ agree_refl])
      (unfold sweep_path_def, intro node.p_rules node.basic node.evaluation node.listing node.removal)
  have trim: "pres keeps_node (NativeFstrim E p)" for p
    unfolding NativeFstrim_def by (intro node.p_rules node.basic node.evaluation)
  show ?thesis
    unfolding RunSystemMaintenanceSweeps_def full_sweeps_def
    by (intro agree_next [OF node.basic(3)] agree_bind [OF trim_agrees [OF assms] trim])
      (use loop in \<open>simp only: State_Monad.bind_assoc State_Monad.bind_left_identity sum.case\<close>)
qed

subsection \<open>The packages\<close>

lemma scan_agrees:
  assumes "screen_dark E"
  shows "agree (loop (scan_packages_step E) pkgs acc) (do { dirs \<leftarrow> scan_all E pkgs; ret (Inl (acc @ dirs)) })"
proof (induction pkgs arbitrary: acc)
  case Nil
  show ?case by (simp add: agree_def)
next
  case (Cons pkg pkgs)
  have rest: "agree (do { dirs \<leftarrow> ScanPackageCache E pkg; loop (scan_packages_step E) pkgs (acc @ dirs) })
      (do { dirs \<leftarrow> ScanPackageCache E pkg; rest \<leftarrow> scan_all E pkgs; ret (Inl (acc @ dirs @ rest)) })"
    by (rule agree_next [OF node.scanning(1)]) (use Cons.IH in \<open>simp flip: append_assoc\<close>)
  show ?case
    by (simp only: loop.simps scan_packages_step_def [of E pkg] scan_all.simps State_Monad.bind_assoc,
        rule agree_screen [OF assms])
      (use rest in \<open>simp only: if_False State_Monad.bind_assoc State_Monad.bind_left_identity sum.case\<close>)
qed

lemma clean_agrees:
  assumes "screen_dark E"
  shows "agree (loop (clean_targets_step E) targets ())
    (do { ok \<leftarrow> clean_all E targets; if ok then ret (Inl ()) else do { TransitionTo E ABORTING; ret (Inr ()) } })"
proof (induction targets)
  case Nil
  show ?case by (simp add: agree_def)
next
  case (Cons target targets)
  let ?warn = "LOGW E (''Aborted cleaning on '' @ cd_path (mt_cache_dir target))"
  have rest: "agree (do { ok \<leftarrow> CleanDirectorySafely E (mt_cache_dir target);
        if ok then loop (clean_targets_step E) targets () else do { ?warn; TransitionTo E ABORTING; ret (Inr ()) } })
      (do { ok \<leftarrow> CleanDirectorySafely E (mt_cache_dir target);
        if ok then do { ok \<leftarrow> clean_all E targets;
          if ok then ret (Inl ()) else do { TransitionTo E ABORTING; ret (Inr ()) } }
        else do { ?warn; TransitionTo E ABORTING; ret (Inr ()) } })"
    by (rule agree_next [OF node.cleaning]) (use Cons.IH in \<open>simp add: agree_refl\<close>)
  have left: "(do { r \<leftarrow> do { ok \<leftarrow> CleanDirectorySafely E (mt_cache_dir target);
          if \<not> ok then do { ?warn; TransitionTo E ABORTING; ret (Inr ()) } else ret (Inl ()) };
        (case r of Inl c \<Rightarrow> loop (clean_targets_step E) targets c | Inr v \<Rightarrow> ret (Inr v)) } :: (unit + unit) io) =
      do { ok \<leftarrow> CleanDirectorySafely E (mt_cache_dir target);
        if ok then loop (clean_targets_step E) targets () else do { ?warn; TransitionTo E ABORTING; ret (Inr ()) } }"
    by (rule state_ext) (auto split: prod.splits)
  have right: "(do { ok \<leftarrow> do { ok \<leftarrow> CleanDirectorySafely E (mt_cache_dir target);
          if ok then clean_all E targets else do { ?warn; ret False } };
        if ok then ret (Inl ()) else do { TransitionTo E ABORTING; ret (Inr ()) } } :: (unit + unit) io) =
      do { ok \<leftarrow> CleanDirectorySafely E (mt_cache_dir target);
        if ok then do { ok \<leftarrow> clean_all E targets;
          if ok then ret (Inl ()) else do { TransitionTo E ABORTING; ret (Inr ()) } }
        else do { ?warn; TransitionTo E ABORTING; ret (Inr ()) } }"
    by (rule state_ext) (auto split: prod.splits)
  have "agree (do { r \<leftarrow> clean_targets_step E target ();
        (case r of Inl c \<Rightarrow> loop (clean_targets_step E) targets c | Inr v \<Rightarrow> ret (Inr v)) })
      (do { _ \<leftarrow> EvaluateIdleState E; ok \<leftarrow> do { ok \<leftarrow> CleanDirectorySafely E (mt_cache_dir target);
          if ok then clean_all E targets else do { ?warn; ret False } };
        if ok then ret (Inl ()) else do { TransitionTo E ABORTING; ret (Inr ()) } })"
    by (simp only: clean_targets_step_def [of E target] State_Monad.bind_assoc [of "EvaluateIdleState E"],
        rule agree_verdict [OF assms])
      (simp only: if_False left right rest)
  then show ?case
    by (simp only: loop.simps clean_all.simps State_Monad.bind_assoc [of "EvaluateIdleState E"])
qed

text \<open>A maintenance run in the dark is the uninterrupted one; it is given up only where a clean fails.\<close>

lemma maintenance_agrees:
  assumes "screen_dark E"
  shows "agree (PerformMaintenance E)
    (do { ok \<leftarrow> full_run E;
          if ok then do { OptimizeDoze E; TransitionTo E ACTIVE } else TransitionTo E ABORTING })"
proof -
  let ?last = "\<lambda>r :: unit + unit. case r of Inr _ \<Rightarrow> ret () | Inl _ \<Rightarrow> do { OptimizeDoze E; TransitionTo E ACTIVE }"
  let ?finish = "\<lambda>ok. if ok then do { OptimizeDoze E; TransitionTo E ACTIVE } else TransitionTo E ABORTING"
  have clean: "agree (do { r \<leftarrow> loop (clean_targets_step E) targets (); ?last r }) (do { ok \<leftarrow> clean_all E targets; ?finish ok })"
    for targets
  proof -
    have "agree (do { r \<leftarrow> loop (clean_targets_step E) targets (); ?last r })
        (do { r \<leftarrow> do { ok \<leftarrow> clean_all E targets;
            if ok then ret (Inl ()) else do { TransitionTo E ABORTING; ret (Inr ()) } }; ?last r })"
      by (rule agree_bind [OF clean_agrees [OF assms] _ agree_refl])
        (unfold clean_targets_step_def, intro node.p_rules node.basic node.evaluation node.cleaning node.transition)
    moreover have "do { r \<leftarrow> do { ok \<leftarrow> clean_all E targets;
            if ok then ret (Inl ()) else do { TransitionTo E ABORTING; ret (Inr ()) } }; ?last r } =
        do { ok \<leftarrow> clean_all E targets; ?finish ok }"
      by (rule state_ext) (auto split: prod.splits)
    ultimately show ?thesis by simp
  qed
  let ?after = "\<lambda>dirs. do { targets \<leftarrow> AnalyzeCaches E dirs; r \<leftarrow> loop (clean_targets_step E) targets (); ?last r }"
  let ?goal = "\<lambda>dirs. do { targets \<leftarrow> AnalyzeCaches E dirs; ok \<leftarrow> clean_all E targets; ?finish ok }"
  have analyse: "agree (?after dirs) (?goal dirs)" for dirs
    by (rule agree_next [OF node.analysis clean])
  have scan: "agree (do { r \<leftarrow> loop (scan_packages_step E) pkgs []; (case r of Inr _ \<Rightarrow> ret () | Inl dirs \<Rightarrow> ?after dirs) })
      (do { dirs \<leftarrow> scan_all E pkgs; ?goal dirs })" for pkgs
  proof -
    have "agree (do { r \<leftarrow> loop (scan_packages_step E) pkgs []; (case r of Inr _ \<Rightarrow> ret () | Inl dirs \<Rightarrow> ?after dirs) })
        (do { r \<leftarrow> do { dirs \<leftarrow> scan_all E pkgs; ret (Inl ([] @ dirs)) }; (case r of Inr (_ :: unit) \<Rightarrow> ret () | Inl dirs \<Rightarrow> ?goal dirs) })"
      by (rule agree_bind [OF scan_agrees [OF assms]],
          unfold scan_packages_step_def, intro node.p_rules node.screen_read node.scanning node.transition)
        (rename_tac r, case_tac r, simp_all only: sum.case agree_refl analyse)
    then show ?thesis by (simp only: State_Monad.bind_assoc State_Monad.bind_left_identity sum.case append_Nil)
  qed
  show ?thesis
    unfolding PerformMaintenance_def full_run_def State_Monad.bind_assoc
    by (intro agree_bind [OF sweeps_agree [OF assms] node.sweeping] agree_screen [OF assms])
      (unfold if_False, intro agree_next [OF node.package_list] scan)
qed

subsection \<open>The countdown\<close>

text \<open>The world a maintenance run starts from, at the expiry that finds the engine in deep idle.\<close>

definition maintenance_start :: "env \<Rightarrow> world \<Rightarrow> world" where
  "maintenance_start E w =
     snd (run_state (TransitionTo E MAINTENANCE) (snd (run_state (EvaluateIdleState E) (w\<lparr>g_timer := None\<rparr>))))"

lemma expiry_maintains:
  assumes "screen_dark E" "known_node w" "g_current_state w = DEEP_IDLE"
    and run: "run_state (full_run E) (maintenance_start E w) = (ok, v)"
  shows "storage (expiry E w) = storage v"
    "g_current_state (expiry E w) = (if ok then ACTIVE else ABORTING)"
    "trace (expiry E w) = trace v @ (if ok then [Shell force_idle_cmd] else [])"
proof -
  let ?w = "w\<lparr>g_timer := None\<rparr>"
  obtain i v0 where 1: "run_state (EvaluateIdleState E) ?w = (i, v0)" by fastforce
  have k: "known_node ?w" using assms(2) by (simp add: known_node_def)
  note idle = verdict_idle [OF assms(1) k 1]
  obtain v1 where 2: "run_state (TransitionTo E MAINTENANCE) v0 = ((), v1)"
    by (cases "run_state (TransitionTo E MAINTENANCE) v0") auto
  have v1: "maintenance_start E w = v1" using 1 2 by (simp add: maintenance_start_def)
  have "known_node v1" using pres_run [OF node.transition 2] idle(2) by (simp add: keeps_node_def)
  from agreeD [OF maintenance_agrees [OF assms(1)] this]
  have m: "run_state (PerformMaintenance E) v1 =
      run_state (if ok then do { OptimizeDoze E; TransitionTo E ACTIVE } else TransitionTo E ABORTING) v"
    using run v1 by simp
  obtain u where u: "run_state (PerformMaintenance E) v1 = ((), u)"
    by (cases "run_state (PerformMaintenance E) v1") auto
  then have "run_state (EvaluateAndTransition E) ?w = ((), u)"
    using idle(1) 1 2 assms(3) by (simp add: EvaluateAndTransition_def GetCurrentState_def)
  then have e: "g_current_state (expiry E w) = g_current_state u" "trace (expiry E w) = trace u"
    "storage (expiry E w) = storage u"
    by (auto simp: expiry_def handle_event_def GetCurrentState_def SetTimer_def storage_def)
  have r: "storage u = storage v \<and> g_current_state u = (if ok then ACTIVE else ABORTING) \<and>
      trace u = trace v @ (if ok then [Shell force_idle_cmd] else [])"
  proof (cases ok)
    case True
    obtain v2 where 3: "run_state (OptimizeDoze E) v = ((), v2)" by (cases "run_state (OptimizeDoze E) v") auto
    then have 4: "run_state (TransitionTo E ACTIVE) v2 = ((), u)" using m u True by simp
    have "trace v2 = trace v @ [Shell force_idle_cmd]" using 3 by (auto simp: OptimizeDoze_def run_system_def)
    then show ?thesis
      using True run_TransitionTo [OF 4] trace_TransitionTo [OF 4] pres_run [OF TransitionTo_storage 4]
        pres_run [OF storage_sense [OF OptimizeDoze_keeps] 3] by simp
  next
    case False
    then have 4: "run_state (TransitionTo E ABORTING) v = ((), u)" using m u by simp
    show ?thesis
      using False run_TransitionTo [OF 4] trace_TransitionTo [OF 4] pres_run [OF TransitionTo_storage 4] by simp
  qed
  then show "storage (expiry E w) = storage v"
    "g_current_state (expiry E w) = (if ok then ACTIVE else ABORTING)"
    "trace (expiry E w) = trace v @ (if ok then [Shell force_idle_cmd] else [])"
    using e by simp_all
qed

text \<open>
  C11. A device that stays dark gets its maintenance. Started in \<open>BOOT\<close> or \<open>ACTIVE\<close>, with verdicts
  of which the first \<open>n\<close> after the first are not yet a candidate and the next one is, the engine is in
  deep idle after \<open>n + 3\<close> expiries. The following one does all the work of a maintenance run, just as if the
  screen were never looked at: both trims, the sweep of every path, the scan of every package, the analysis, and the
  cleaning of the targets in their order, up to one that fails. If none fails, the engine is \<open>ACTIVE\<close> and the last
  effect is that Doze is forced; otherwise the run counts as aborted.
\<close>

theorem sched_loop_reaches_maintenance:
  assumes "screen_dark E" "known_node w" "g_running w" "g_current_state w \<in> {BOOT, ACTIVE}"
    and wait: "\<forall>k \<in> {1..n}. next_verdict E (after_expiries E k w) \<noteq> Is_IDLE_CANDIDATE"
    and candidate: "next_verdict E (after_expiries E (n + 1) w) = Is_IDLE_CANDIDATE"
    and run: "run_state (full_run E) (maintenance_start E (after_expiries E (n + 3) w)) = (ok, v)"
  shows "g_current_state (after_expiries E (n + 3) w) = DEEP_IDLE \<and>
    storage (after_expiries E (n + 4) w) = storage v \<and>
    g_current_state (after_expiries E (n + 4) w) = (if ok then ACTIVE else ABORTING) \<and>
    trace (after_expiries E (n + 4) w) = trace v @ (if ok then [Shell force_idle_cmd] else [])"
proof -
  let ?a = "\<lambda>k. after_expiries E k w"
  have known: "known_node (?a k)" for k
    using presD [OF node.event_loop] assms(2) by (auto simp: after_expiries_def keeps_node_def)
  have idle: "next_verdict E (?a k) \<noteq> Is_NOT_IDLE" for k
  proof -
    obtain i v where 1: "run_state (EvaluateIdleState E) ((?a k)\<lparr>g_timer := None\<rparr>) = (i, v)" by fastforce
    have "known_node ((?a k)\<lparr>g_timer := None\<rparr>)" using known [of k] by (simp add: known_node_def)
    from verdict_idle(1) [OF assms(1) this 1] 1 show ?thesis by (simp add: next_verdict_def verdict_of_def)
  qed
  have step: "engine_step (next_verdict E (?a k)) (g_current_state (?a k)) (g_current_state (?a (Suc k)))" for k
    using expiry_step [of E "?a k"] after_expiries_Suc [OF assms(3), of E k] by simp
  have off: "g_current_state (?a (Suc k)) = SCREEN_OFF" if "k \<le> n" for k
    using that
  proof (induction k)
    case 0
    have "?a 0 = w" by (simp add: after_expiries_def)
    then show ?case using step [of 0] assms(4) idle [of 0] by (auto simp: engine_step_from)
  next
    case (Suc k)
    then show ?case using step [of "Suc k"] wait [rule_format, of "Suc k"] idle [of "Suc k"]
      by (simp add: engine_step_from)
  qed
  have "g_current_state (?a (Suc (n + 1))) = IDLE_CANDIDATE"
    using step [of "n + 1"] off [of n] candidate by (simp add: engine_step_from)
  then have deep: "g_current_state (?a (n + 3)) = DEEP_IDLE"
    using step [of "n + 2"] idle [of "n + 2"] by (simp add: engine_step_from eval_nat_numeral)
  have next_one: "?a (n + 4) = expiry E (?a (n + 3))"
    using after_expiries_Suc [OF assms(3), of E "n + 3"] by (simp add: eval_nat_numeral)
  show ?thesis using deep expiry_maintains [OF assms(1) known deep run] unfolding next_one by simp
qed

text \<open>A device asleep, with crash reports to sweep and no applications.\<close>

definition night_env :: env where
  "night_env = dark_env\<lparr>e_pipe := (\<lambda>t c. Some ''mWakefulness=Asleep'')\<rparr>"

definition night_world :: world where
  "night_world = crash_world\<lparr>g_config := default_config\<lparr>idle_delay_minutes := 0, thermal_protection := False\<rparr>\<rparr>"

lemma night_dark: "screen_dark night_env"
proof -
  have asleep: "\<not> wakefulness_on (Some ''mWakefulness=Asleep'')" by code_simp
  have zero: "brightness_on (Some ''0'') = Some False" by code_simp
  have shows_off: "e_text night_env n p = (if p = ''/sys/class/backlight/panel0-backlight/brightness'' then Some ''0'' else None)"
    if "p \<in> set screen_nodes" for n p
    using that by (auto simp: screen_nodes_def night_env_def dark_env_def sample_env_def sample_text_def)
  have pipe: "e_pipe night_env n c = Some ''mWakefulness=Asleep''" for n c by (simp add: night_env_def)
  have none: "brightness_on None = None" by (simp add: brightness_on_def)
  show ?thesis
    unfolding screen_dark_def lit_nodes_def screen_at_def
    by (auto simp: shows_off zero none asleep pipe)
qed

theorem sched_loop_reaches_maintenance_witness:
  "g_current_state (after_expiries night_env 4 night_world) = ACTIVE \<and>
   last (trace (after_expiries night_env 4 night_world)) = Shell force_idle_cmd \<and>
   kind_at (fs (after_expiries night_env 4 night_world)) [''data'', ''tombstones'', ''b''] = None"
proof -
  let ?w = "maintenance_start night_env (after_expiries night_env 3 night_world)"
  have start: "known_node night_world" "g_running night_world" "g_current_state night_world \<in> {BOOT, ACTIVE}"
    by (simp_all add: night_world_def crash_world_def boot_world_def known_node_def lit_nodes_def)
  have candidate: "next_verdict night_env (after_expiries night_env (0 + 1) night_world) = Is_IDLE_CANDIDATE" by code_simp
  obtain u where u: "run_state (full_sweeps night_env) ?w = ((), u)"
    by (cases "run_state (full_sweeps night_env) ?w") auto
  have "kind_at (fs (snd (run_state (full_sweeps night_env) ?w))) [''data'', ''tombstones'', ''b''] = None" by code_simp
  then have gone: "kind_at (fs u) [''data'', ''tombstones'', ''b''] = None" using u by simp
  obtain on u1 where 1: "run_state (IsScreenOn night_env) u = (on, u1)" by fastforce
  have "e_text night_env t ''/data/system/packages.list'' = None" for t
    by (simp add: night_env_def dark_env_def sample_env_def sample_text_def)
  then have pkgs: "run_state (GetInstalledPackages night_env) u1 = ([], u1\<lparr>tick := Suc (tick u1)\<rparr>)"
    by (simp add: GetInstalledPackages_def read_text_def)
  obtain targets v where 2: "run_state (AnalyzeCaches night_env []) (u1\<lparr>tick := Suc (tick u1)\<rparr>) = (targets, v)" by fastforce
  have "e_sort night_env = sort_by" by (simp add: night_env_def dark_env_def sample_env_def)
  then have "targets = []" using 2 by (auto simp: AnalyzeCaches_def sort_by_def split: prod.splits)
  then have run: "run_state (full_run night_env) ?w = (True, v)" using u 1 pkgs 2 by (simp add: full_run_def)
  have "fs v = fs u"
    using pres_run [OF AnalyzeCaches_keeps 2] keeps_fs [OF IsScreenOn_keeps 1] by (auto dest: sans_state_fields(3))
  with gone have "kind_at (fs v) [''data'', ''tombstones'', ''b''] = None" by simp
  moreover have "run_state (full_run night_env) (maintenance_start night_env (after_expiries night_env (0 + 3) night_world)) = (True, v)"
    using run by simp
  ultimately show ?thesis
    using sched_loop_reaches_maintenance [OF night_dark start _ candidate] by (auto simp: storage_def)
qed

end
