(* ===== verification/Device_Correct.thy ===== *)
theory Device_Correct
  imports Device Samples
begin

section \<open>The package list\<close>

text \<open>
  \<open>GetInstalledPackages\<close> is a parser for \<open>packages.list\<close>; here is the printer it inverts. A line has
  the name, the uid, a debug flag, the data directory and any further rest.
\<close>

subsection \<open>Words of a line\<close>

definition word_ok :: "string \<Rightarrow> bool" where
  "word_ok s \<longleftrightarrow> s \<noteq> [] \<and> list_all (\<lambda>c. \<not> is_space c) s"

definition rest_ok :: "string \<Rightarrow> bool" where
  "rest_ok s \<longleftrightarrow> (s = [] \<or> is_space (hd s)) \<and> CHR 0x0A \<notin> set s"

lemma word_no_newline: "word_ok s \<Longrightarrow> CHR 0x0A \<notin> set s"
  by (auto simp: word_ok_def list_all_iff is_space_def)

lemma read_token_word:
  assumes "word_ok s" "t = [] \<or> is_space (hd t)"
  shows "read_token (s @ t) = Some (s, t)" "is_space c \<Longrightarrow> read_token (c # s @ t) = Some (s, t)"
proof -
  obtain d s' where s: "s = d # s'" using assms(1) by (cases s) (auto simp: word_ok_def)
  have d: "\<not> is_space d" using assms(1) s by (simp add: word_ok_def)
  have all: "\<And>x. x \<in> set s \<Longrightarrow> \<not> is_space x" using assms(1) by (simp add: word_ok_def list_all_iff)
  have tw: "takeWhile (\<lambda>c. \<not> is_space c) (s @ t) = s" "dropWhile (\<lambda>c. \<not> is_space c) (s @ t) = t"
    using assms(2) all by (cases t; simp add: takeWhile_append dropWhile_append)+
  have "dropWhile is_space (s @ t) = s @ t" using s d by simp
  then show "read_token (s @ t) = Some (s, t)" "is_space c \<Longrightarrow> read_token (c # s @ t) = Some (s, t)"
    using tw s by (simp_all add: read_token_def Let_def)
qed

lemma fmt_d_word: "word_ok (fmt_d i)"
proof -
  have "list_all (\<lambda>c. \<not> is_space c) (fmt_u n)" for n
    using fmt_u_digits [of n] digit_not_space by (simp add: list_all_iff)
  then show ?thesis using fmt_u_nonempty by (simp add: word_ok_def fmt_d_def is_space_def)
qed

lemma read_int_word: "read_int (CHR '' '' # fmt_d (sint w) @ CHR '' '' # t) = Some (w, CHR '' '' # t)"
proof -
  have sp: "is_space (CHR '' '')" "\<not> is_digit (CHR '' '')" by (simp_all add: is_space_def is_digit_def)
  have skip: "read_number (CHR '' '' # s) = read_number s" for s
    using sp by (simp add: read_number_def)
  have "read_number (CHR '' '' # fmt_d (sint w) @ CHR '' '' # t) = Some (sint w, CHR '' '' # t)"
    unfolding skip using read_number_digits [OF fmt_u_digits fmt_u_nonempty, of "CHR '' '' # t"] sp
    by (simp add: fmt_d_def)
  moreover have "- (2 ^ 31) \<le> sint w" "sint w < 2 ^ 31"
    using sint_ge [of w] sint_lt [of w] by simp_all
  ultimately show ?thesis by (simp add: read_int_def)
qed

subsection \<open>Printing and parsing\<close>

definition print_package :: "PackageInfo \<Rightarrow> string \<Rightarrow> string \<Rightarrow> string" where
  "print_package pkg debug rest =
     pi_name pkg @ '' '' @ fmt_d (sint (pi_uid pkg)) @ '' '' @ debug @ '' '' @ pi_data_dir pkg @ rest"

definition entry_ok :: "PackageInfo \<times> string \<times> string \<Rightarrow> bool" where
  "entry_ok = (\<lambda>(pkg, debug, rest). word_ok (pi_name pkg) \<and> word_ok debug \<and> word_ok (pi_data_dir pkg) \<and>
     rest_ok rest \<and> pi_is_system pkg = (sint (pi_uid pkg) < 10000))"

lemma parse_print:
  assumes "entry_ok (pkg, debug, rest)"
  shows "parse_package (print_package pkg debug rest) = Some pkg"
proof -
  have sp: "is_space (CHR '' '')" by (simp add: is_space_def)
  note ok = assms [unfolded entry_ok_def, simplified]
  have f: "rest = [] \<or> is_space (hd rest)" using ok by (simp add: rest_ok_def)
  have 1: "read_token (pi_name pkg @ CHR '' '' # t) = Some (pi_name pkg, CHR '' '' # t)" for t
    using ok sp by (intro read_token_word) simp_all
  have 2: "read_token (CHR '' '' # debug @ CHR '' '' # t) = Some (debug, CHR '' '' # t)" for t
    using ok sp by (intro read_token_word) simp_all
  have 3: "read_token (CHR '' '' # pi_data_dir pkg @ rest) = Some (pi_data_dir pkg, rest)"
    using ok f sp by (intro read_token_word) simp_all
  show ?thesis
    using ok by (simp add: parse_package_def print_package_def 1 2 3 read_int_word default_PackageInfo_def)
qed

lemma print_no_newline:
  assumes "entry_ok (pkg, debug, rest)"
  shows "CHR 0x0A \<notin> set (print_package pkg debug rest)"
  using assms word_no_newline word_no_newline [OF fmt_d_word]
  by (auto simp: entry_ok_def print_package_def rest_ok_def)

lemma packages_of_line:
  "CHR 0x0A \<notin> set l \<Longrightarrow> packages_of (l @ CHR 0x0A # s) =
     (case parse_package l of None \<Rightarrow> [] | Some info \<Rightarrow> [info]) @ packages_of s"
  by (simp add: packages_of_def getlines_line)

text \<open>A line that is blank, or has no number in the range of \<open>int\<close> after its first word.\<close>

definition junk :: "string \<Rightarrow> bool" where
  "junk l \<longleftrightarrow> CHR 0x0A \<notin> set l \<and>
     (case read_token l of None \<Rightarrow> True | Some (name, r) \<Rightarrow> read_int r = None)"

type_synonym list_line = "(PackageInfo \<times> string \<times> string) + string"

definition line_text :: "list_line \<Rightarrow> string" where
  "line_text l = (case l of Inl (pkg, debug, rest) \<Rightarrow> print_package pkg debug rest | Inr s \<Rightarrow> s) @ [CHR 0x0A]"

definition line_ok :: "list_line \<Rightarrow> bool" where
  "line_ok l \<longleftrightarrow> (case l of Inl e \<Rightarrow> entry_ok e | Inr s \<Rightarrow> junk s)"

definition line_packages :: "list_line \<Rightarrow> PackageInfo list" where
  "line_packages l = (case l of Inl (pkg, _) \<Rightarrow> [pkg] | Inr _ \<Rightarrow> [])"

lemma packages_of_lines:
  "list_all line_ok ls \<Longrightarrow> packages_of (concat (map line_text ls)) = concat (map line_packages ls)"
proof (induction ls)
  case (Cons l ls)
  show ?case
  proof (cases l)
    case (Inl e)
    obtain pkg debug rest where e: "e = (pkg, debug, rest)" by (cases e) auto
    then have ok: "entry_ok (pkg, debug, rest)" using Cons.prems Inl by (simp add: line_ok_def)
    show ?thesis
      using Cons parse_print [OF ok] packages_of_line [OF print_no_newline [OF ok]]
      by (simp add: Inl e line_text_def line_packages_def)
  next
    case (Inr s)
    then have s: "junk s" using Cons.prems by (simp add: line_ok_def)
    then have "parse_package s = None" by (auto simp: junk_def parse_package_def split: option.splits)
    then show ?thesis
      using Cons packages_of_line [of s] s by (simp add: Inr junk_def line_text_def line_packages_def)
  qed
qed (simp add: packages_of_def getlines_def)

text \<open>
  C24. The package list is read back: a file with one line per package, in any words for the fields
  the daemon skips, gives these packages in this order, with their uid over the whole range of
  \<open>int\<close>, and marks those below 10000 as system packages. Blank lines and lines without a uid are
  skipped, wherever they stand.
\<close>

theorem GetInstalledPackages_reads:
  assumes "e_text E (tick w) ''/data/system/packages.list'' = Some (concat (map line_text ls))"
    and "list_all line_ok ls"
  shows "fst (run_state (GetInstalledPackages E) w) = concat (map line_packages ls)"
  using packages_of_lines [OF assms(2)] assms(1) by (simp add: GetInstalledPackages_def read_text_def)

definition sample_line :: list_line where
  "sample_line = Inl (\<lparr>pi_name = ''com.a'', pi_data_dir = ''/data/a'', pi_uid = 10123, pi_is_system = False\<rparr>,
     ''0'', '' default none'')"

definition sample_lines :: "list_line list" where
  "sample_lines = [Inr ''broken'', sample_line]"

theorem GetInstalledPackages_reads_witness:
  "map pi_name (fst (run_state (GetInstalledPackages
     (dark_env\<lparr>e_text := (\<lambda>_ _. Some (concat (map line_text sample_lines)))\<rparr>)) sample_world)) = [''com.a'']"
proof -
  have "list_all line_ok sample_lines" by code_simp
  from GetInstalledPackages_reads [OF _ this] show ?thesis
    by (simp add: line_packages_def sample_lines_def sample_line_def)
qed

end
