(* ===== verification/Storage_Test.thy ===== *)
theory Storage_Test
  imports State_Correct
begin

section \<open>tests/test\_state\_storage.cpp\<close>

text \<open>
  The test program of the state storage, compiled with its assertions: \<open>None\<close> is the abort of a
  failed \<open>assert\<close>, \<open>Some\<close> the exit code. Its last line prints to the terminal.
\<close>

definition test_state_storage :: "env \<Rightarrow> i32 option io" where
  "test_state_storage E = do {
     let hash1 = HashPackageName ''com.android.chrome'';
     let hash2 = HashPackageName ''com.google.android.youtube'';
     if \<not> hash1 \<noteq> hash2 then ret None
     else do {
       InitializeStateStorage E;
       st1 \<leftarrow> GetPackageState ''com.android.chrome'';
       if \<not> ps_hash st1 = hash1 then ret None
       else do {
         let st1 = st1\<lparr>ps_last_cleanup_ms := 123456789, ps_cleanup_count := 1\<rparr>;
         UpdatePackageState ''com.android.chrome'' st1;
         SaveStateAtomic E;
         st2 \<leftarrow> GetPackageState ''com.android.chrome'';
         if \<not> ps_last_cleanup_ms st2 = 123456789 then ret None
         else ret (Some 0)
       }
     }
   }"

lemma hashes_differ: "HashPackageName ''com.android.chrome'' \<noteq> HashPackageName ''com.google.android.youtube''"
  by code_simp

lemma keyed_fold_update: "keyed m \<Longrightarrow> keyed (fold (\<lambda>st m. AList.update (ps_hash st) st m) ss m)"
  by (induction ss arbitrary: m) (simp_all add: keyed_update)

lemma InitializeStateStorage_keyed:
  assumes "run_state (InitializeStateStorage E) w = (u, w')" "keyed (g_states w)"
  shows "keyed (g_states w')"
  using assms
  by (auto simp: InitializeStateStorage_def read_disk_def faulty_def Let_def keyed_fold_update
      split: option.splits if_splits)

lemma test_state_storage_passes:
  assumes "keyed (g_states w)"
  shows "fst (run_state (test_state_storage E) w) = Some 0"
proof -
  obtain w1 where 1: "run_state (InitializeStateStorage E) w = ((), w1)"
    by (cases "run_state (InitializeStateStorage E) w") auto
  have h: "ps_hash (state_of (g_states w1) ''com.android.chrome'') = HashPackageName ''com.android.chrome''"
    by (rule ps_hash_state_of) (rule InitializeStateStorage_keyed [OF 1 assms])
  let ?s = "(state_of (g_states w1) ''com.android.chrome'')\<lparr>ps_last_cleanup_ms := 123456789, ps_cleanup_count := 1\<rparr>"
  let ?w2 = "w1\<lparr>g_states := AList.update (HashPackageName ''com.android.chrome'') ?s (g_states w1)\<rparr>"
  obtain w3 where 3: "run_state (SaveStateAtomic E) ?w2 = ((), w3)"
    by (cases "run_state (SaveStateAtomic E) ?w2") auto
  have "g_states w3 = g_states ?w2" using SaveStateAtomic_result [OF 3] by simp
  then show ?thesis
    using 1 3 h hashes_differ
    by (simp add: test_state_storage_def GetPackageState_def UpdatePackageState_def Let_def)
qed

end
