(* ===== verification/Storage_Monitor.thy ===== *)
theory Storage_Monitor
  imports Memory Samples
begin

section \<open>storage/storage\_monitor.cpp\<close>

text \<open>
  The figures of a mount point from \<open>statvfs\<close>, which the environment answers. The byte counts are
  64-bit products, the percentage is computed in \<open>double\<close>: both counts are converted, divided and
  multiplied by 100, with a rounding at each step.
\<close>

record StorageStats =
  total_bytes :: u64
  free_bytes :: u64
  free_percent :: rat

definition percent_of :: "u64 \<Rightarrow> u64 \<Rightarrow> rat" where
  "percent_of n d = f64 (f64 (f64 (of_nat (unat n)) / f64 (of_nat (unat d))) * 100)"

definition storage_stats :: "statvfs option \<Rightarrow> StorageStats" where
  "storage_stats vfs = (case vfs of
       None \<Rightarrow> \<lparr>total_bytes = 0, free_bytes = 0, free_percent = 0\<rparr>
     | Some v \<Rightarrow>
         (let t = f_blocks v * f_frsize v; f = f_bavail v * f_frsize v
          in \<lparr>total_bytes = t, free_bytes = f,
              free_percent = (if t > 0 then percent_of f t else 0)\<rparr>))"

definition GetStorageStats :: "env \<Rightarrow> string \<Rightarrow> StorageStats io" where
  "GetStorageStats E path = observe (\<lambda>t. storage_stats (e_statvfs E t path))"

lemma percent_bounds:
  assumes "0 < n" "n \<le> d"
  shows "0 < percent_of n d" "percent_of n d \<le> 100"
proof -
  let ?n = "f64 (of_nat (unat n))" and ?d = "f64 (of_nat (unat d))"
  have "0 < d" using assms by (rule less_le_trans)
  note n = f64_word [OF assms(1)] and d = f64_word [OF this]
  have r1: "?n / ?d \<le> 1" using n(3) [OF assms(2)] d(1) by simp
  have "2 powi (- 64) = 1 / (2 powi 64 :: rat)" by (simp add: power_int_minus_divide)
  also have "\<dots> \<le> ?n / ?d" using n(1) d(1,2) by (intro frac_le) auto
  finally have r2: "2 powi (- 64) \<le> ?n / ?d" .
  have pos: "(0 :: rat) < 2 powi (- 64)" by simp
  have "f64 (?n / ?d) \<le> f64 1"
    using r1 binary_exp_ge [OF r2] less_le_trans [OF pos r2] by (intro f64_mono) auto
  then have q1: "f64 (?n / ?d) * 100 \<le> 100" by (simp add: f64_1)
  have "2 powi (- 64) \<le> f64 (?n / ?d)" by (rule f64_ge [OF r2]) simp
  then have q2: "2 powi (- 64) \<le> f64 (?n / ?d) * 100" using pos by linarith
  have "f64 (f64 (?n / ?d) * 100) \<le> f64 100"
    using q1 binary_exp_ge [OF q2] less_le_trans [OF pos q2] by (intro f64_mono) auto
  then show "percent_of n d \<le> 100" by (simp add: percent_of_def f64_100)
  have "2 powi (- 64) \<le> percent_of n d" unfolding percent_of_def by (rule f64_ge [OF q2]) simp
  with pos show "0 < percent_of n d" by (rule less_le_trans)
qed

lemma percent_ends: "percent_of 0 d = 0" "0 < d \<Longrightarrow> percent_of d d = 100"
  using f64_word(1) [of d] by (auto simp: percent_of_def f64_def [of 0] f64_1 f64_100)

text \<open>
  C40. The figures of a mount point: without wrap-around in the total and with at most as many blocks
  free as there are, the byte counts are the products, and the percentage lies between 0 and 100
  whatever the roundings do; it is 0 exactly when nothing is free, and 100 when everything is.
\<close>

theorem GetStorageStats_bounds:
  assumes "run_state (GetStorageStats E path) w = (st, w')" "e_statvfs E (tick w) path = Some v"
    and "unat (f_blocks v) * unat (f_frsize v) < 2 ^ 64" "f_bavail v \<le> f_blocks v"
  shows "unat (total_bytes st) = unat (f_blocks v) * unat (f_frsize v) \<and>
    unat (free_bytes st) = unat (f_bavail v) * unat (f_frsize v) \<and>
    0 \<le> free_percent st \<and> free_percent st \<le> 100 \<and> (free_percent st = 0 \<longleftrightarrow> free_bytes st = 0) \<and>
    (free_bytes st = total_bytes st \<and> free_bytes st \<noteq> 0 \<longrightarrow> free_percent st = 100)"
proof -
  let ?t = "f_blocks v * f_frsize v" and ?f = "f_bavail v * f_frsize v"
  have st: "st = \<lparr>total_bytes = ?t, free_bytes = ?f, free_percent = (if ?t > 0 then percent_of ?f ?t else 0)\<rparr>"
    using assms(1,2) by (auto simp: GetStorageStats_def observe_def storage_stats_def Let_def)
  have b: "unat (f_bavail v) * unat (f_frsize v) \<le> unat (f_blocks v) * unat (f_frsize v)"
    using assms(4) by (simp add: word_le_nat_alt)
  have t: "unat ?t = unat (f_blocks v) * unat (f_frsize v)"
    using assms(3) by (simp add: unat_word_ariths)
  have "unat (f_bavail v) * unat (f_frsize v) < 2 ^ 64" using b assms(3) by (rule le_less_trans)
  then have f: "unat ?f = unat (f_bavail v) * unat (f_frsize v)" by (simp add: unat_word_ariths)
  have ft: "?f \<le> ?t" using t f b by (simp add: word_le_nat_alt)
  show ?thesis
  proof (cases "?f = 0")
    case True
    then show ?thesis using t f by (simp add: st percent_ends)
  next
    case False
    then have "0 < ?f" by (simp add: word_neq_0_conv)
    with ft have "0 < ?t" "0 < percent_of ?f ?t" "percent_of ?f ?t \<le> 100"
      using percent_bounds by auto
    then show ?thesis using t f False by (auto simp: st percent_ends)
  qed
qed

theorem GetStorageStats_bounds_witness:
  "free_percent (fst (run_state (GetStorageStats dark_env ''/data'') sample_world)) \<le> 100"
proof -
  have v: "e_statvfs dark_env (tick sample_world) ''/data'' = Some \<lparr>f_blocks = 1000, f_bavail = 250, f_frsize = 4096\<rparr>"
    by (simp add: dark_env_def sample_env_def)
  from GetStorageStats_bounds [OF prod.collapse [symmetric] v] show ?thesis by simp
qed

end
