(* ===== verification/Spec2Isabelle.thy ===== *)
theory Spec2Isabelle
  imports Threads Progress Device_Correct Storage_Test Storage_Monitor
begin

text \<open>
  FreshCore Native, the Android cache-cleaning daemon of this repository.

  \<^bold>\<open>The program.\<close> \<open>core/main.cpp\<close> starts the logger, loads the configuration, applies the boot
  tweaks, starts the microphone thread and runs the event loop of \<open>core/scheduler.cpp\<close>. At each
  expiry of a timer the loop calls \<open>EvaluateAndTransition\<close> (\<open>core/decision_engine.cpp\<close>), which asks
  \<open>power/idle_detector.cpp\<close> for a verdict and moves the state of \<open>core/state.cpp\<close>; in DEEP_IDLE an
  idle verdict starts \<open>PerformMaintenance\<close>. Maintenance lists the packages
  (\<open>android/package_manager.cpp\<close>), scans their caches (\<open>cache/package_scanner.cpp\<close> under the policy of
  \<open>cache/cache_policy.cpp\<close>), picks targets (\<open>cache/cache_analyzer.cpp\<close>), deletes their contents and
  sweeps a few system directories (\<open>cache/cache_cleaner.cpp\<close>), and saves what it learned
  (\<open>cache/state_storage.cpp\<close>). The cleaner polls the screen between entries and gives up when the
  device wakes; \<open>diagnostics/diagnostics.cpp\<close> ends a run that has freed or uses too much.

  \<^bold>\<open>How the model is built.\<close> Every C++ function is a definition of the same name in the library's
  state monad, over one state \<open>world\<close> (theory \<open>World\<close>): the file tree, the daemon's globals (one
  field per \<open>static\<close> variable, named as in the source), the log, a \<open>trace\<close> of the effects and a
  \<open>tick\<close>. Early returns are \<open>Inl\<close> of a loop's result, fallible reads are options, machine integers
  are words of their width. What the daemon observes and \<open>src/\<close> does not define (sysfs and
  \<open>/proc\<close> texts, \<open>popen\<close> output, clocks, \<open>readdir\<close> order, failures of system calls, short writes,
  \<open>std::sort\<close>, the order of \<open>unordered_map\<close>, struct padding) is a function of the record \<open>env\<close>,
  indexed by the tick, so that two calls may give different answers; theorems hold for every \<open>env\<close>
  unless they name a hypothesis on it. The report with the one before it, and the state file with its
  temporary file, are kept by path in stores of their own (\<open>w_log\<close>, \<open>disk\<close>) beside the file tree \<open>fs\<close>;
  the purge of an outdated report is in the trace like every other deletion (\<open>LogUnlink\<close>), and what is said of
  deletions covers the tree and both stores. What the kernel delivers to the loops (timer expiries,
  signals, audio modes, inotify buffers) is a list of inputs; running out of inputs is the point up
  to which the run is observed.

  \<^bold>\<open>Theories and code.\<close>
  \<open>Prelude\<close> (types, loops with early exit, \<open>step_order\<close>: preorders on states kept by every step),
  \<open>Cxx\<close> (\<open>std::string\<close>, \<open>getline\<close>, \<open>sscanf\<close>, \<open>stoi\<close>), \<open>Types\<close> (the enums and structs),
  \<open>Floats\<close> (rounding to \<open>float\<close> and \<open>double\<close>), \<open>Filetree\<close> (tree, links, path resolution), \<open>World\<close> (state and environment);
  \<open>Config\<close> (\<open>config/config.cpp\<close>), \<open>Logger\<close> (\<open>logging/logger.cpp\<close>),
  \<open>Filesystem\<close> (\<open>storage/filesystem.cpp\<close>), \<open>Storage_Monitor\<close> (\<open>storage/storage_monitor.cpp\<close>),
  \<open>Device\<close> (\<open>android/\<close>), \<open>Memory\<close> (\<open>memory/\<close>), \<open>Idle\<close> (\<open>power/\<close>),
  \<open>Diagnostics\<close> (\<open>diagnostics/\<close>), \<open>State_Storage\<close>, \<open>Scanner\<close> (policy and scanner), \<open>Analyzer\<close>,
  \<open>Cleaner\<close> (the files of \<open>cache/\<close>), \<open>Tweaks\<close> (\<open>system/system_tweaks.cpp\<close>),
  \<open>Engine\<close> (\<open>core/state.cpp\<close>, \<open>core/decision_engine.cpp\<close>), \<open>Scheduler\<close> (\<open>core/scheduler.cpp\<close>,
  \<open>core/main.cpp\<close>) and \<open>MicFixer\<close> (\<open>audio/mic_fixer.cpp\<close>). \<open>Storage_Test\<close> models
  \<open>tests/test_state_storage.cpp\<close>. \<open>Samples\<close> holds the device on which the witnesses run.

  \<^bold>\<open>What is shown.\<close>
  \<^item> \<open>Cleaner_Correct\<close>, \<open>Cleaner_Complete\<close>: a removal deletes only at or below its path, whatever the
    environment does, and terminates; without failing calls a removal or clean that reports success
    has removed exactly what it should; a directory with a file directly in it is never cleaned.
  \<^item> \<open>Daemon\<close>: the locales \<open>event_order\<close> and \<open>daemon_order\<close>. A preorder on worlds that is kept by
    the few primitive operations is kept by any run of the event loop. \<open>hoare_maintenance\<close> is the
    rule for a maintenance run whose property changes on the way. Each interpretation is a
    property of whole runs: \<open>Guard\<close> (deletions only after an idle verdict; and what such a guard does not
    give: a sweep goes on after a wake-up), \<open>Analyzer_Correct\<close>
    (package states stay under their hash), \<open>Engine_Correct\<close> (the trace only grows, the engine
    state follows the verdicts), \<open>Scope\<close> (deletions stay in a set of locations fixed at the start).
  \<^item> \<open>Primitives\<close>: the locale \<open>assignment_order\<close>, an interface one level below \<open>daemon_order\<close> for properties
    that hold of every single assignment: which files beside the tree a run may touch, and that the node
    of the screen's brightness stays one of the known ones.
  \<^item> \<open>Progress\<close>: on a device that stays dark a maintenance run agrees with \<open>full_run\<close>, the same run without
    the tests of the screen; so it does all of its work.
  \<^item> \<open>Main_Correct\<close>: \<open>run_main\<close> splits a run of the program into a start that leaves the engine alone,
    the event loop under the loaded configuration, and an end; so the properties of the event loop
    become properties of the program: what it deletes and when, the well-formed worlds it keeps. The start
    purges an outdated report, which is the one deletion without a verdict and is described exactly
    (\<open>purges\<close>, \<open>start_effects\<close>, \<open>daemon_files\<close>). The program
    ignores the saved package states, and a configuration that disables it is obeyed.
  \<^item> \<open>License\<close>: every deletion of the program but that purge comes after a verdict that passed the idle delay and
    every gate, with Doze neither forced nor released since.
  \<^item> \<open>Threads\<close>: the microphone thread beside the event loop. The locale \<open>thread_order\<close> carries a
    preorder through the whole thread; its interpretations show which variables the thread writes and
    which effects it has. Log calls of both threads interleave as steps of \<open>log_step\<close>, effects as
    \<open>shuffles\<close> of the two traces.
  \<^item> \<open>Storage_Test\<close>: the test program of the state storage passes for every state file.
  \<^item> \<open>Boot_Correct\<close>: exactly what the boot tweaks write and report. \<open>Device_Correct\<close>: the package list is read back.
  \<^item> \<open>Policy_Correct\<close>: the string tests decide containment after links are resolved; the scan equals
    its reference; directory sizes; the size threshold.
  \<^item> \<open>State_Correct\<close>: the store as the locale \<open>keyed_store\<close>, the round trip through the state file,
    rejection of damaged files, the effect of a short write.
  \<^item> \<open>Analyzer_Correct\<close>: targets, their order under the code's comparator, that none is missed, the cooldown. The last section below combines analyzer,
    store and cleaner: a cleaned package rests for six hours.
  \<^item> \<open>Engine_Correct\<close>: refinement of the labelled transition relation \<open>engine_step\<close> by an evaluation
    and of its paths by a run, with one step per timer expiry and its verdict as the label; deep idle needs
    three idle verdicts one after the other; only a maintenance run changes
    files; under every loadable configuration the timer stays armed; Doze is forced and released.
  \<^item> \<open>Idle_Correct\<close>: the verdict as a function of the readings, the delay with its wrap-around, the
    pressure limit in \<open>float\<close>.
  \<^item> \<open>MicFixer_Correct\<close>: as long as tinymix carries out its commands, the polling thread refines a call
    machine, which may leave the line muted, and the inotify thread never does; that thread counts the
    open streams and runs exactly one initialisation per first stream.
  \<^item> \<open>Logger_Correct\<close>: writing, rotation, purge, and the budget of a run at the end of a batch.
  \<^item> \<open>Storage_Monitor\<close>: the free percentage stays between 0 and 100 through all roundings.
  \<^item> \<open>Config\<close>: printing a configuration and loading it gives it back.

  \<^bold>\<open>Bounds.\<close> The only fuel is that of the two recursions over directories, \<open>remove_rec\<close> and
  \<open>dir_size\<close>. They get the height of the file tree plus one. \<open>remove_rec_enough\<close> and
  \<open>dir_size_enough\<close> show that more fuel never changes the result on a well-formed tree, so the
  definitions satisfy the recursion equations of the source. All other loops are structural in
  the list they run over, or have a measure.

  \<^bold>\<open>Threads.\<close> The event loop and the microphone thread share the log, whose calls hold a mutex, and
  the flag that stops the thread. Each is modelled as a sequential program, over an environment that
  may answer differently at every tick, so that it already covers any time the other thread takes;
  \<open>Threads\<close> puts the two together.

  \<^bold>\<open>Not modelled.\<close> The module's shell scripts and the build files. \<open>tests/test_config.cpp\<close>, which does
  not compile: it calls \<open>LoadConfig\<close> without its argument and reads a field that \<open>Configuration\<close> does
  not have. \<open>GetBatteryState\<close> and \<open>GetMaxTemperatureC\<close>, which are declared and never defined. The
  moment at which a stop request reaches the microphone thread: its loops run over the turns or inputs
  they are given, and the flag only changes while it is not running. Failure of memory allocation, and what C++
  leaves undefined on signed overflow: the words wrap as on the ARM64 build. The wall-clock cost of
  operations and \<open>usleep\<close> pauses. Changes of the tree by other processes between two path-based calls (the
  comments of \<open>storage/filesystem.hpp\<close> promise calls relative to a descriptor, the code has none; a
  directory replaced by a link in that time would be followed), and a \<open>readdir\<close> that fails midway, which the code takes for
  the end of the directory. File descriptors: what \<open>close\<close> gives back is no part of the state.
\<close>

subsection \<open>A cleaned package rests\<close>

lemma CleanDirectorySafely_records:
  assumes "faultless E" "wf_tree (fs w)" "steady (fs w) (cd_path d) q" "kind_at (fs w) q = Some KDir"
    and "run_state (CleanDirectorySafely E d) w = (True, w')"
  shows "state_of (g_states w') (cd_pkg_name d) =
    cleaned_state (timespec_ms (e_real E (tick (snd (run_state (clean_outcome E d) w)))))
      (state_of (g_states w) (cd_pkg_name d))"
proof -
  obtain w0 names b w2 where 0: "g_states w0 = g_states w"
    and 2: "run_state (loop (clean_child E (cd_path d)) names ()) w0 = (b, w2)"
    and 3: "case b of Inr v \<Rightarrow> True = v \<and> w' = w2 | Inl _ \<Rightarrow> run_state (clean_record E d) w2 = (True, w')"
    and 4: "snd (run_state (clean_outcome E d) w) = w2"
    by (rule run_CleanDirectorySafely [OF assms]) blast
  have "fst (run_state (loop (clean_child E (cd_path d)) names ()) w0) \<noteq> Inr True"
    by (rule loop_exit) (rule clean_child_False)
  then obtain x where "b = Inl x" using 2 3 by (cases b) auto
  then have r: "run_state (clean_record E d) w2 = (True, w')" using 3 by simp
  have "keeps sans_removal (loop (clean_child E (cd_path d)) names ())"
    unfolding clean_child_def
    by (intro keep.p_rules RemoveRecursiveBatched_keeps keeps_sense_removal [OF Log_keeps_sense])
  from sans_removal_fields(3) [OF pres_run [OF this 2]] 0 have "g_states w2 = g_states w" by simp
  with clean_record_states [OF r] 4 show ?thesis by (simp add: store.get_put_same)
qed

text \<open>
  C15. Cleaner, store and analyzer together: a package whose cache has been cleaned with success, and
  which does not grow by 500 MB a day, gets no target from an analysis of any list of directories in
  the six hours after the end of the clean, whatever else happened in between that left the package
  states alone. The first millisecond does not count: the analysis has to come later by the clock.
\<close>

theorem cleaned_package_rests:
  assumes "faultless E" "wf_tree (fs w)" "steady (fs w) (cd_path d) q" "kind_at (fs w) q = Some KDir"
    and "run_state (CleanDirectorySafely E d) w = (True, w1)" "g_states v = g_states w1"
    and "end_ms = timespec_ms (e_real E (tick (snd (run_state (clean_outcome E d) w))))"
    and "end_ms < timespec_ms (e_real E (tick v))"
      "timespec_ms (e_real E (tick v)) - end_ms < 6 * 60 * 60 * 1000"
    and "(ucast (ps_growth_rate (state_of (g_states w) (cd_pkg_name d))) :: u64) < 500 * 1024 * 1024"
    and "sort_spec (e_sort E)" "run_state (AnalyzeCaches E ds) v = (ts, v')"
  shows "\<forall>t\<in>set ts. cd_pkg_name (mt_cache_dir t) \<noteq> cd_pkg_name d"
proof -
  have "state_of (g_states v) (cd_pkg_name d) = cleaned_state end_ms (state_of (g_states w) (cd_pkg_name d))"
    using CleanDirectorySafely_records [OF assms(1-5)] assms(6,7) by simp
  then have "in_cooldown (timespec_ms (e_real E (tick v))) (state_of (g_states v) (cd_pkg_name d))"
    using assms(8-10) by (simp add: in_cooldown_def cleaned_state_def MIN_CLEANUP_INTERVAL_MS_def)
  from analysis_cooldown [OF this assms(11,12)] show ?thesis by blast
qed

theorem cleaned_package_rests_witness:
  "''app'' \<notin> (cd_pkg_name \<circ> mt_cache_dir) ` set (fst (run_state (AnalyzeCaches dark_env [sample_cache])
      ((snd (run_state (CleanDirectorySafely dark_env sample_cache) sample_world))\<lparr>tick := 200\<rparr>)))"
proof -
  let ?r = "run_state (CleanDirectorySafely dark_env sample_cache) sample_world"
  have "fst (run_state (clean_outcome dark_env sample_cache) sample_world)" by code_simp
  then have "fst ?r" by (simp add: CleanDirectorySafely_outcome)
  then have r: "?r = (True, snd ?r)" by (cases ?r) simp
  have k: "kind_at (fs sample_world) [''data'', ''app'', ''cache''] = Some KDir" by code_simp
  have "tick (snd (run_state (clean_outcome dark_env sample_cache) sample_world)) = 19" by code_simp
  then have t: "190000 = timespec_ms (e_real dark_env (tick (snd (run_state (clean_outcome dark_env sample_cache) sample_world))))"
    by (simp add: timespec_ms_def dark_env_def sample_env_def)
  have n: "cd_pkg_name sample_cache = ''app''" by (simp add: sample_cache_def sample_dir_def)
  have "(ucast (ps_growth_rate (state_of (g_states sample_world) (cd_pkg_name sample_cache))) :: u64) < 500 * 1024 * 1024"
    by (simp add: sample_world_def boot_world_def state_of_def default_state_def)
  from cleaned_package_rests [OF faultless_dark_env wf_sample_tree steady_sample_cache [folded sample_cache_def] k r _ t _ _ this
      sort_spec_dark_env prod.collapse [symmetric], of "(snd ?r)\<lparr>tick := 200\<rparr>" "[sample_cache]"]
  have "\<forall>t\<in>set (fst (run_state (AnalyzeCaches dark_env [sample_cache]) ((snd ?r)\<lparr>tick := 200\<rparr>))).
      cd_pkg_name (mt_cache_dir t) \<noteq> ''app''"
    by (simp add: n timespec_ms_def dark_env_def sample_env_def)
  then show ?thesis by auto
qed

end
